(* ===== verification/Prelude.thy ===== *)
theory Prelude
  imports Main "HOL-Library.AList" "HOL-Library.Word" "HOL-Library.Multiset"
begin

text \<open>
  The shared vocabulary of the development: the fragment of Go the sources use (fixed-width
  integers, \<open>time.Time\<close> and \<open>time.Duration\<close>, panics, maps, slices and channels) and the interfaces of
  the two container packages the sources import but do not contain,
  \<open>k8s.io/kubedirect/pkg/util.SharedMap\<close> and \<open>golang.design/x/chann\<close>.
  An imported package is a record of operations that every definition which uses it takes as an
  argument; the locales \<open>shared_map\<close>, \<open>unbounded_chan\<close> and \<open>closable_chan\<close> state what the sources rely
  on, and their interpretations on Go's own map and channel show that the laws can be met.
\<close>

section \<open>Collections of rewrite rules\<close>

named_theorems go_simps \<open>unfolding rules for the Go primitives\<close>
named_theorems chan_simps \<open>how the channel operations act on the queued items\<close>

section \<open>Panics\<close>

text \<open>
  A Go function that may panic (an explicit \<open>panic\<close>, a nil dereference, an index out of range, a
  division by zero, \<open>klog.Fatal\<close>) has a result of type \<open>'a go\<close>.
\<close>

datatype 'a go = Ret 'a | Panic string

primrec go_bind :: "'a go \<Rightarrow> ('a \<Rightarrow> 'b go) \<Rightarrow> 'b go" where
  "go_bind (Ret x) f = f x"
| "go_bind (Panic m) f = Panic m"

primrec panics :: "'a go \<Rightarrow> bool" where
  "panics (Ret x) = False"
| "panics (Panic m) = True"

lemma panics_iff: "panics r \<longleftrightarrow> (\<exists>m. r = Panic m)"
  by (cases r) auto

lemma go_bind_eq_Ret: "go_bind r f = Ret y \<longleftrightarrow> (\<exists>x. r = Ret x \<and> f x = Ret y)"
  by (cases r) auto

lemma panics_go_bind: "panics (go_bind r f) \<longleftrightarrow> panics r \<or> (\<exists>x. r = Ret x \<and> panics (f x))"
  by (cases r) simp_all

section \<open>Fixed-width integers\<close>

text \<open>
  Go's \<open>int\<close> is 64 bits wide on the target (linux/amd64). Values are HOL integers; conversions and
  the multiplications that can overflow wrap explicitly.
\<close>

definition int32_of :: "int \<Rightarrow> int" where
  "int32_of n = signed_take_bit 31 n"

definition int64_of :: "int \<Rightarrow> int" where
  "int64_of n = signed_take_bit 63 n"

lemma int32_of_id [simp]: "- (2 ^ 31) \<le> n \<Longrightarrow> n < 2 ^ 31 \<Longrightarrow> int32_of n = n"
  by (simp add: int32_of_def signed_take_bit_int_eq_self)

lemma int64_of_id [simp]: "- (2 ^ 63) \<le> n \<Longrightarrow> n < 2 ^ 63 \<Longrightarrow> int64_of n = n"
  by (simp add: int64_of_def signed_take_bit_int_eq_self)

lemma int32_of_range: "- (2 ^ 31) \<le> int32_of n" "int32_of n < 2 ^ 31"
  using signed_take_bit_int_greater_eq_minus_exp [of 31 n] signed_take_bit_int_less_exp [of 31 n]
  by (simp_all add: int32_of_def)

section \<open>Time\<close>

text \<open>
  A \<open>time.Time\<close> is the number of nanoseconds since January 1, year 1 UTC, the instant of Go's zero
  value, so \<open>IsZero\<close> is equality with 0. A \<open>time.Duration\<close> is a signed 64-bit count of nanoseconds;
  \<open>Sub\<close> saturates at the ends of that range. A clock read is an argument of the definition that
  makes it.
\<close>

type_synonym gotime = int
type_synonym duration = int

definition zeroTime :: gotime where
  "zeroTime = 0"

definition IsZero :: "gotime \<Rightarrow> bool" where
  "IsZero t \<longleftrightarrow> t = 0"

definition time_Sub :: "gotime \<Rightarrow> gotime \<Rightarrow> duration" where
  "time_Sub t u = max (- (2 ^ 63)) (min (2 ^ 63 - 1) (t - u))"

definition time_Add :: "gotime \<Rightarrow> duration \<Rightarrow> gotime" where
  "time_Add t d = t + d"

definition Second :: duration where "Second = 10 ^ 9"
definition Millisecond :: duration where "Millisecond = 10 ^ 6"
definition Microsecond :: duration where "Microsecond = 10 ^ 3"

lemma time_Sub_pos_iff [simp]: "0 < time_Sub t u \<longleftrightarrow> u < t"
  by (auto simp: time_Sub_def)

lemma time_Sub_exact: "\<bar>t - u\<bar> < 2 ^ 63 \<Longrightarrow> time_Sub t u = t - u"
  by (auto simp: time_Sub_def)

section \<open>Maps\<close>

text \<open>
  A Go map is an association list. The position of a pair stands for the unspecified order in which
  \<open>range\<close> visits the keys: a theorem that quantifies over the list covers every order.
\<close>

type_synonym ('k, 'v) gomap = "('k \<times> 'v) list"

definition gm_get :: "('k, 'v) gomap \<Rightarrow> 'k \<Rightarrow> 'v option" where
  "gm_get m k = map_of m k"

definition gm_set :: "('k, 'v) gomap \<Rightarrow> 'k \<Rightarrow> 'v \<Rightarrow> ('k, 'v) gomap" where
  "gm_set m k v = AList.update k v m"

definition gm_del :: "('k, 'v) gomap \<Rightarrow> 'k \<Rightarrow> ('k, 'v) gomap" where
  "gm_del m k = AList.delete k m"

definition gm_keys :: "('k, 'v) gomap \<Rightarrow> 'k list" where
  "gm_keys m = map fst m"

lemma map_of_gm_set [go_simps, simp]: "map_of (gm_set m k v) = (map_of m)(k \<mapsto> v)"
  by (simp add: gm_set_def update_conv')

lemma map_of_gm_del [go_simps, simp]: "map_of (gm_del m k) = (map_of m)(k := None)"
  by (simp add: gm_del_def delete_conv')

lemma gm_get_map_of: "gm_get m k = map_of m k"
  by (simp add: gm_get_def)

lemma set_gm_keys: "set (gm_keys m) = dom (map_of m)"
  by (simp add: gm_keys_def dom_map_of_conv_image_fst)

lemma distinct_gm_set: "distinct (gm_keys m) \<Longrightarrow> distinct (gm_keys (gm_set m k v))"
  by (simp add: gm_keys_def gm_set_def distinct_update)

text \<open>A read of a missing label is the empty string, Go's zero value.\<close>

type_synonym labels = "(string, string) gomap"

definition label :: "labels \<Rightarrow> string \<Rightarrow> string" where
  "label ls k = (case gm_get ls k of None \<Rightarrow> '''' | Some v \<Rightarrow> v)"

section \<open>SharedMap\<close>

text \<open>
  \<open>kdutil.SharedMap\<close>: a map behind a read-write lock. The operations the sources call are the fields
  of the record; each is one critical section. \<open>Del\<close> returns the old value, \<open>GetOrCreate\<close> the value
  and whether it was created, \<open>Inner\<close> the guarded Go map.
\<close>

record ('m, 'v) sharedMap =
  sm_new :: 'm
  sm_Get :: "'m \<Rightarrow> string \<Rightarrow> 'v option"
  sm_Set :: "'m \<Rightarrow> string \<Rightarrow> 'v \<Rightarrow> 'm"
  sm_Del :: "'m \<Rightarrow> string \<Rightarrow> 'v option \<times> 'm"
  sm_GetOrCreate :: "'m \<Rightarrow> string \<Rightarrow> 'v \<Rightarrow> 'v \<times> bool \<times> 'm"
  sm_Inner :: "'m \<Rightarrow> (string, 'v) gomap"

locale shared_map =
  fixes S :: "('m, 'v) sharedMap"
  assumes new_inner: "map_of (sm_Inner S (sm_new S)) = Map.empty"
    and Get_inner: "sm_Get S m k = map_of (sm_Inner S m) k"
    and Set_inner: "map_of (sm_Inner S (sm_Set S m k v)) = (map_of (sm_Inner S m))(k \<mapsto> v)"
    and Del_value: "fst (sm_Del S m k) = map_of (sm_Inner S m) k"
    and Del_inner: "map_of (sm_Inner S (snd (sm_Del S m k))) = (map_of (sm_Inner S m))(k := None)"
    and GetOrCreate_old: "map_of (sm_Inner S m) k = Some w \<Longrightarrow> sm_GetOrCreate S m k v = (w, False, m)"
    and GetOrCreate_new: "map_of (sm_Inner S m) k = None \<Longrightarrow>
          sm_GetOrCreate S m k v = (v, True, sm_Set S m k v)"
begin

abbreviation contents :: "'m \<Rightarrow> string \<Rightarrow> 'v option" where
  "contents m \<equiv> map_of (sm_Inner S m)"

lemmas inner_simps [simp] = new_inner Get_inner Set_inner Del_value Del_inner

lemma GetOrCreate_value:
  "fst (sm_GetOrCreate S m k v) = (case contents m k of None \<Rightarrow> v | Some w \<Rightarrow> w)"
  by (cases "contents m k") (simp_all add: GetOrCreate_old GetOrCreate_new)

lemma GetOrCreate_fresh: "fst (snd (sm_GetOrCreate S m k v)) \<longleftrightarrow> contents m k = None"
  by (cases "contents m k") (simp_all add: GetOrCreate_old GetOrCreate_new)

lemma GetOrCreate_contents:
  "contents (snd (snd (sm_GetOrCreate S m k v)))
     = (case contents m k of None \<Rightarrow> (contents m)(k \<mapsto> v) | Some w \<Rightarrow> contents m)"
  by (cases "contents m k") (simp_all add: GetOrCreate_old GetOrCreate_new)

lemma GetOrCreate_twice:
  "sm_GetOrCreate S m k v = (w, b, m') \<Longrightarrow> sm_GetOrCreate S m' k v' = (w, False, m')"
  by (cases "contents m k") (auto simp: GetOrCreate_old GetOrCreate_new)

end

text \<open>Go's own map satisfies the contract.\<close>

definition gomap_shared :: "((string, 'v) gomap, 'v) sharedMap" where
  "gomap_shared = \<lparr>
     sm_new = [],
     sm_Get = gm_get,
     sm_Set = gm_set,
     sm_Del = (\<lambda>m k. (gm_get m k, gm_del m k)),
     sm_GetOrCreate = (\<lambda>m k v. case gm_get m k of Some w \<Rightarrow> (w, False, m) | None \<Rightarrow> (v, True, gm_set m k v)),
     sm_Inner = (\<lambda>m. m) \<rparr>"

lemma gomap_shared_sel [simp]:
  "sm_new gomap_shared = []"
  "sm_Get gomap_shared = gm_get"
  "sm_Set gomap_shared = gm_set"
  "sm_Del gomap_shared = (\<lambda>m k. (gm_get m k, gm_del m k))"
  "sm_GetOrCreate gomap_shared = (\<lambda>m k v. case gm_get m k of Some w \<Rightarrow> (w, False, m) | None \<Rightarrow> (v, True, gm_set m k v))"
  "sm_Inner gomap_shared = (\<lambda>m. m)"
  by (simp_all add: gomap_shared_def)

interpretation gomap: shared_map gomap_shared
  by unfold_locales (auto simp: gm_get_map_of)

section \<open>Channels\<close>

text \<open>
  \<open>chann.Chann\<close> is an unbounded FIFO channel: a send on \<open>In()\<close> never blocks and a receive on \<open>Out()\<close>
  takes the oldest item. A receive that finds no item is \<open>None\<close>: the goroutine blocks, or its
  \<open>select\<close> takes another case. The abstraction \<open>items\<close> lists what was sent and not yet received.
\<close>

record ('a, 'c) chann =
  ch_new :: 'c
  ch_send :: "'c \<Rightarrow> 'a \<Rightarrow> 'c"
  ch_recv :: "'c \<Rightarrow> ('a \<times> 'c) option"

locale unbounded_chan =
  fixes C :: "('a, 'c) chann" and items :: "'c \<Rightarrow> 'a list"
  assumes items_new [simp]: "items (ch_new C) = []"
    and items_send [simp]: "items (ch_send C c x) = items c @ [x]"
    and recv_empty: "items c = [] \<Longrightarrow> ch_recv C c = None"
    and recv_oldest: "items c = x # xs \<Longrightarrow> \<exists>c'. ch_recv C c = Some (x, c') \<and> items c' = xs"
begin

lemma recv_None_iff: "ch_recv C c = None \<longleftrightarrow> items c = []"
  using recv_empty recv_oldest by (cases "items c") fastforce+

lemma recv_SomeD: "ch_recv C c = Some (x, c') \<Longrightarrow> items c = x # items c'"
  using recv_empty [of c] recv_oldest [of c] by (cases "items c") auto

lemma send_many: "items (foldl (ch_send C) c xs) = items c @ xs"
  by (induction xs arbitrary: c) simp_all

lemma mset_recv: "ch_recv C c = Some (x, c') \<Longrightarrow> mset (items c) = add_mset x (mset (items c'))"
  by (simp add: recv_SomeD)

end

text \<open>Go's native buffered channel, as the list of its queued items.\<close>

definition gochan :: "('a, 'a list) chann" where
  "gochan = \<lparr> ch_new = [], ch_send = (\<lambda>c x. c @ [x]),
              ch_recv = (\<lambda>c. case c of [] \<Rightarrow> None | x # xs \<Rightarrow> Some (x, xs)) \<rparr>"

lemma gochan_sel [simp]:
  "ch_new gochan = []"
  "ch_send gochan = (\<lambda>c x. c @ [x])"
  "ch_recv gochan = (\<lambda>c. case c of [] \<Rightarrow> None | x # xs \<Rightarrow> Some (x, xs))"
  by (simp_all add: gochan_def)

interpretation native: unbounded_chan gochan "\<lambda>c. c"
  by unfold_locales simp_all

text \<open>
  A channel that can be closed: pending items are still delivered, and a \<open>range\<close> loop ends at a
  receive that finds the channel both drained and closed.
\<close>

locale closable_chan = unbounded_chan C items
  for C :: "('a, 'c) chann" and items :: "'c \<Rightarrow> 'a list" +
  fixes close :: "'c \<Rightarrow> 'c" and closed :: "'c \<Rightarrow> bool"
  assumes closed_new [simp]: "\<not> closed (ch_new C)"
    and closed_send [simp]: "closed (ch_send C c x) = closed c"
    and closed_recv: "ch_recv C c = Some (x, c') \<Longrightarrow> closed c' = closed c"
    and closed_close [simp]: "closed (close c)"
    and items_close [simp]: "items (close c) = items c"
definition gochan_c :: "('a, 'a list \<times> bool) chann" where
  "gochan_c = \<lparr> ch_new = ([], False), ch_send = (\<lambda>c x. (fst c @ [x], snd c)),
                ch_recv = (\<lambda>c. case fst c of [] \<Rightarrow> None | x # xs \<Rightarrow> Some (x, (xs, snd c))) \<rparr>"

lemma gochan_c_sel [simp]:
  "ch_new gochan_c = ([], False)"
  "ch_send gochan_c = (\<lambda>c x. (fst c @ [x], snd c))"
  "ch_recv gochan_c = (\<lambda>c. case fst c of [] \<Rightarrow> None | x # xs \<Rightarrow> Some (x, (xs, snd c)))"
  by (simp_all add: gochan_c_def)

interpretation native_c: closable_chan gochan_c fst "\<lambda>c. (fst c, True)" snd
  by unfold_locales (auto split: list.splits)

end
