(* ===== verification/Float64.thy ===== *)
theory Float64
  imports Complex_Main "HOL-Library.Signed_Division" Prelude
begin

text \<open>
  IEEE-754 binary64, Go's \<open>float64\<close>, as the sources use it: rounding to nearest, ties to even, over
  rational values, with the infinities and NaN. Both zeros are \<open>Fin 0\<close>; a quotient by zero takes the
  sign of its numerator, which is right for the positive zero, the only zero the modelled code can
  divide by. The locale \<open>rounding\<close> collects what the components rely on (monotone, exact on the
  integers up to \<open>2^53\<close>); its interpretation shows it for binary64.
\<close>

section \<open>The rounding function\<close>

fun nlog2 :: "int \<Rightarrow> int" where
  "nlog2 n = (if n < 2 then 0 else nlog2 (n div 2) + 1)"

declare nlog2.simps [simp del]

text \<open>The exponent of a positive rational: the \<open>e\<close> with \<open>2^e \<le> x < 2^(e+1)\<close>.\<close>

definition ilog2 :: "rat \<Rightarrow> int" where
  "ilog2 x = (let (a, b) = quotient_of x; k = nlog2 a - nlog2 b
              in if 2 powi k \<le> x then k else k - 1)"

text \<open>Round to the nearest integer, ties to even.\<close>

definition rne :: "rat \<Rightarrow> int" where
  "rne x = (let f = \<lfloor>x\<rfloor>; r = x - of_int f
            in if r < 1 / 2 then f else if 1 / 2 < r then f + 1 else if even f then f else f + 1)"

text \<open>The weight of the last significand bit of a number with exponent \<open>e\<close> (subnormals included).\<close>

definition ulp :: "int \<Rightarrow> rat" where
  "ulp e = 2 powi (max e (- 1022) - 52)"

definition rnd_pos :: "rat \<Rightarrow> rat" where
  "rnd_pos x = (let u = ulp (ilog2 x) in of_int (rne (x / u)) * u)"

definition rnd64 :: "rat \<Rightarrow> rat" where
  "rnd64 x = (if x = 0 then 0 else if x < 0 then - rnd_pos (- x) else rnd_pos x)"

section \<open>Values and operations\<close>

datatype float64 = Fin rat | PInf | NInf | NaN

text \<open>A rounded value of magnitude \<open>2^1024\<close> or more overflows to an infinity.\<close>

definition fl :: "rat \<Rightarrow> float64" where
  "fl x = (let r = rnd64 x in
           if r \<noteq> 0 \<and> 1024 \<le> ilog2 \<bar>r\<bar> then (if r < 0 then NInf else PInf) else Fin r)"

definition f_of_int :: "int \<Rightarrow> float64" where
  "f_of_int n = fl (of_int n)"

definition signed_inf :: "rat \<Rightarrow> float64" where
  "signed_inf x = (if x < 0 then NInf else PInf)"

fun fneg :: "float64 \<Rightarrow> float64" where
  "fneg (Fin x) = Fin (- x)"
| "fneg PInf = NInf"
| "fneg NInf = PInf"
| "fneg NaN = NaN"

fun fadd :: "float64 \<Rightarrow> float64 \<Rightarrow> float64" where
  "fadd (Fin x) (Fin y) = fl (x + y)"
| "fadd NaN y = NaN"
| "fadd x NaN = NaN"
| "fadd PInf NInf = NaN"
| "fadd NInf PInf = NaN"
| "fadd PInf y = PInf"
| "fadd NInf y = NInf"
| "fadd x PInf = PInf"
| "fadd x NInf = NInf"

definition fsub :: "float64 \<Rightarrow> float64 \<Rightarrow> float64" where
  "fsub x y = fadd x (fneg y)"

fun fmul :: "float64 \<Rightarrow> float64 \<Rightarrow> float64" where
  "fmul (Fin x) (Fin y) = fl (x * y)"
| "fmul NaN y = NaN"
| "fmul x NaN = NaN"
| "fmul PInf (Fin y) = (if y = 0 then NaN else signed_inf y)"
| "fmul NInf (Fin y) = (if y = 0 then NaN else signed_inf (- y))"
| "fmul (Fin x) PInf = (if x = 0 then NaN else signed_inf x)"
| "fmul (Fin x) NInf = (if x = 0 then NaN else signed_inf (- x))"
| "fmul PInf PInf = PInf"
| "fmul NInf NInf = PInf"
| "fmul PInf NInf = NInf"
| "fmul NInf PInf = NInf"

fun fdiv :: "float64 \<Rightarrow> float64 \<Rightarrow> float64" where
  "fdiv (Fin x) (Fin y) = (if y = 0 then (if x = 0 then NaN else signed_inf x) else fl (x / y))"
| "fdiv NaN y = NaN"
| "fdiv x NaN = NaN"
| "fdiv PInf (Fin y) = signed_inf y"
| "fdiv NInf (Fin y) = signed_inf (- y)"
| "fdiv (Fin x) _ = Fin 0"
| "fdiv _ _ = NaN"

fun flt :: "float64 \<Rightarrow> float64 \<Rightarrow> bool" where
  "flt (Fin x) (Fin y) = (x < y)"
| "flt NaN y = False"
| "flt x NaN = False"
| "flt PInf y = False"
| "flt x NInf = False"
| "flt NInf y = True"
| "flt x PInf = True"

fun fle :: "float64 \<Rightarrow> float64 \<Rightarrow> bool" where
  "fle NaN y = False"
| "fle x NaN = False"
| "fle (Fin x) (Fin y) = (x \<le> y)"
| "fle NInf y = True"
| "fle x PInf = True"
| "fle PInf y = False"
| "fle x NInf = False"

text \<open>\<open>math.Ceil\<close>, \<open>math.Floor\<close>, \<open>math.Max\<close> and \<open>math.Min\<close>, with their special cases.\<close>

fun fceil :: "float64 \<Rightarrow> float64" where
  "fceil (Fin x) = Fin (of_int \<lceil>x\<rceil>)"
| "fceil f = f"

fun ffloor :: "float64 \<Rightarrow> float64" where
  "ffloor (Fin x) = Fin (of_int \<lfloor>x\<rfloor>)"
| "ffloor f = f"

fun fmax :: "float64 \<Rightarrow> float64 \<Rightarrow> float64" where
  "fmax PInf y = PInf"
| "fmax x PInf = PInf"
| "fmax NaN y = NaN"
| "fmax x NaN = NaN"
| "fmax NInf y = y"
| "fmax x NInf = x"
| "fmax (Fin x) (Fin y) = Fin (max x y)"

fun fmin :: "float64 \<Rightarrow> float64 \<Rightarrow> float64" where
  "fmin NInf y = NInf"
| "fmin x NInf = NInf"
| "fmin NaN y = NaN"
| "fmin x NaN = NaN"
| "fmin PInf y = y"
| "fmin x PInf = x"
| "fmin (Fin x) (Fin y) = Fin (min x y)"

text \<open>
  The conversion \<open>int(f)\<close> truncates towards zero. Go leaves an unrepresentable operand to the
  implementation; on amd64 (\<open>CVTTSD2SQ\<close>) the result is the least integer.
\<close>

definition rat_trunc :: "rat \<Rightarrow> int" where
  "rat_trunc x = (if 0 \<le> x then \<lfloor>x\<rfloor> else \<lceil>x\<rceil>)"

fun int_of_float :: "float64 \<Rightarrow> int" where
  "int_of_float (Fin x) = (let n = rat_trunc x in if - (2 ^ 63) \<le> n \<and> n < 2 ^ 63 then n else - (2 ^ 63))"
| "int_of_float _ = - (2 ^ 63)"

text \<open>\<open>Duration.Seconds\<close>: the whole seconds plus the remainder over \<open>1e9\<close>, each in \<open>float64\<close>.\<close>

definition duration_Seconds :: "duration \<Rightarrow> float64" where
  "duration_Seconds d = fadd (f_of_int (d sdiv Second)) (fdiv (f_of_int (d smod Second)) (Fin 1000000000))"

section \<open>Correctness of the rounding\<close>

lemma nlog2_nonneg: "0 \<le> nlog2 n"
  by (induction n rule: nlog2.induct) (subst nlog2.simps, simp)

lemma nlog2_bounds: "0 < n \<Longrightarrow> 2 ^ nat (nlog2 n) \<le> n \<and> n < 2 ^ (nat (nlog2 n) + 1)"
proof (induction n rule: nlog2.induct)
  case (1 n)
  show ?case
  proof (cases "n < 2")
    case True
    with 1 show ?thesis by (simp add: nlog2.simps [of n])
  next
    case False
    let ?h = "n div 2"
    from False 1 have "2 ^ nat (nlog2 ?h) \<le> ?h" "?h < 2 ^ (nat (nlog2 ?h) + 1)" by auto
    moreover have "nat (nlog2 n) = Suc (nat (nlog2 ?h))"
      using False nlog2_nonneg [of ?h] by (simp add: nlog2.simps [of n] nat_add_distrib)
    moreover have "n = 2 * ?h \<or> n = 2 * ?h + 1" by presburger
    ultimately show ?thesis by (simp only: power_Suc Suc_eq_plus1 [symmetric]) linarith
  qed
qed

lemma nlog2_powi:
  assumes "0 < n"
  shows "2 powi (nlog2 n) \<le> (of_int n :: rat)" "(of_int n :: rat) < 2 powi (nlog2 n + 1)"
proof -
  have p: "2 powi (nlog2 n) = (of_int (2 ^ nat (nlog2 n)) :: rat)"
    using nlog2_nonneg [of n] by (simp add: power_int_def)
  have q: "2 powi (nlog2 n + 1) = (of_int (2 ^ (nat (nlog2 n) + 1)) :: rat)"
    using nlog2_nonneg [of n] by (simp add: power_int_def nat_add_distrib)
  show "2 powi (nlog2 n) \<le> (of_int n :: rat)"
    unfolding p of_int_le_iff using nlog2_bounds [OF assms] by blast
  show "(of_int n :: rat) < 2 powi (nlog2 n + 1)"
    unfolding q of_int_less_iff using nlog2_bounds [OF assms] by blast
qed

lemma ilog2_bounds:
  assumes "0 < x"
  shows "2 powi (ilog2 x) \<le> x" "x < 2 powi (ilog2 x + 1)"
proof -
  obtain a b where q: "quotient_of x = (a, b)" by force
  have b: "0 < b" using q quotient_of_denom_pos by blast
  have x: "x = of_int a / of_int b" using q quotient_of_div by blast
  with assms b have a: "0 < a" by (simp add: zero_less_divide_iff)
  let ?k = "nlog2 a - nlog2 b"
  have "x < 2 powi (nlog2 a + 1) / 2 powi (nlog2 b)"
    unfolding x using a b nlog2_powi [OF a] nlog2_powi [OF b]
    by (intro frac_less) auto
  then have up: "x < 2 powi (?k + 1)"
    by (simp add: power_int_diff power_int_add field_simps)
  have "2 powi (nlog2 a) / 2 powi (nlog2 b + 1) < x"
    unfolding x using a b nlog2_powi [OF a] nlog2_powi [OF b]
    by (intro frac_less2) auto
  then have low: "2 powi (?k - 1) < x"
    by (simp add: power_int_diff power_int_add field_simps)
  show "2 powi (ilog2 x) \<le> x" "x < 2 powi (ilog2 x + 1)"
    using up low by (auto simp: ilog2_def q Let_def)
qed

lemma powi2_nat: "0 \<le> j \<Longrightarrow> (2 :: rat) powi j = of_int (2 ^ nat j)"
  by (simp add: power_int_def)

lemma powi2_less_iff: "(2 :: rat) powi i < 2 powi j \<longleftrightarrow> i < j"
  by (metis linorder_not_le one_less_numeral_iff power_int_increasing power_int_strict_increasing
      less_imp_le semiring_norm(76))

lemma ilog2_mono:
  assumes "0 < x" "x \<le> y"
  shows "ilog2 x \<le> ilog2 y"
proof -
  have "(2 :: rat) powi (ilog2 x) < 2 powi (ilog2 y + 1)"
    using ilog2_bounds [of x] ilog2_bounds [of y] assms by linarith
  then show ?thesis by (simp add: powi2_less_iff)
qed

lemma rne_of_int [simp]: "rne (of_int n) = n"
  by (simp add: rne_def)

lemma rne_numeral [simp]: "rne (numeral n) = numeral n" "rne 0 = 0" "rne 1 = 1"
  using rne_of_int [of "numeral n"] rne_of_int [of 0] rne_of_int [of 1] by simp_all

lemma rne_cases: "rne x = \<lfloor>x\<rfloor> \<or> rne x = \<lfloor>x\<rfloor> + 1"
  by (auto simp: rne_def Let_def)

lemma rne_mono:
  assumes "x \<le> y"
  shows "rne x \<le> rne y"
proof (cases "\<lfloor>x\<rfloor> = \<lfloor>y\<rfloor>")
  case True
  with assms show ?thesis by (auto simp: rne_def Let_def)
next
  case False
  with assms have "\<lfloor>x\<rfloor> + 1 \<le> \<lfloor>y\<rfloor>"
    using floor_mono by fastforce
  then show ?thesis using rne_cases [of x] rne_cases [of y] by auto
qed

lemma rne_error: "\<bar>of_int (rne x) - x\<bar> \<le> 1 / 2"
  using of_int_floor_le [of x] floor_correct [of x]
  unfolding abs_le_iff by (simp add: rne_def Let_def) linarith

lemma ulp_pos [simp]: "0 < ulp e"
  by (simp add: ulp_def)

lemma rnd_pos_le_pow:
  assumes "0 < x"
  shows "rnd_pos x \<le> 2 powi (max (ilog2 x) (- 1022) + 1)"
proof -
  let ?m = "max (ilog2 x) (- 1022)"
  have "x < 2 powi (ilog2 x + 1)" by (rule ilog2_bounds [OF assms])
  also have "\<dots> \<le> 2 powi (?m + 1)" by (rule power_int_increasing) auto
  finally have "x / ulp (ilog2 x) \<le> of_int (2 ^ 53)"
    by (simp add: ulp_def field_simps power_int_add power_int_diff)
  then have "rne (x / ulp (ilog2 x)) \<le> 2 ^ 53"
    using rne_mono [of "x / ulp (ilog2 x)" "of_int (2 ^ 53)"] by simp
  then have "of_int (rne (x / ulp (ilog2 x))) \<le> (of_int (2 ^ 53) :: rat)"
    by (simp only: of_int_le_iff)
  then have "rnd_pos x \<le> of_int (2 ^ 53) * ulp (ilog2 x)"
    by (simp add: rnd_pos_def Let_def)
  also have "\<dots> = 2 powi (?m + 1)"
    by (simp add: ulp_def power_int_add power_int_diff)
  finally show ?thesis .
qed

lemma rnd_pos_ge_pow:
  assumes "0 < x" "- 1022 \<le> ilog2 x"
  shows "2 powi (ilog2 x) \<le> rnd_pos x"
proof -
  have u: "ulp (ilog2 x) = 2 powi (ilog2 x - 52)" using assms by (simp add: ulp_def max_def)
  have "of_int (2 ^ 52) \<le> x / ulp (ilog2 x)"
    using ilog2_bounds(1) [OF assms(1)] by (simp add: u field_simps power_int_diff)
  then have "2 ^ 52 \<le> rne (x / ulp (ilog2 x))"
    using rne_mono [of "of_int (2 ^ 52)" "x / ulp (ilog2 x)"] by simp
  then have "(of_int (2 ^ 52) :: rat) \<le> of_int (rne (x / ulp (ilog2 x)))"
    by (simp only: of_int_le_iff)
  then have "of_int (2 ^ 52) * ulp (ilog2 x) \<le> rnd_pos x"
    by (simp add: rnd_pos_def Let_def)
  then show ?thesis by (simp add: u power_int_diff)
qed

lemma rnd_pos_mono:
  assumes "0 < x" "x \<le> y"
  shows "rnd_pos x \<le> rnd_pos y"
proof -
  let ?mx = "max (ilog2 x) (- 1022)" and ?my = "max (ilog2 y) (- 1022)"
  have le: "?mx \<le> ?my" using ilog2_mono [OF assms] by auto
  show ?thesis
  proof (cases "?mx = ?my")
    case True
    then have u: "ulp (ilog2 y) = ulp (ilog2 x)" by (simp add: ulp_def)
    have "rne (x / ulp (ilog2 x)) \<le> rne (y / ulp (ilog2 x))"
      by (rule rne_mono) (simp add: assms divide_right_mono less_imp_le)
    then show ?thesis by (simp add: rnd_pos_def Let_def u)
  next
    case False
    with le have y: "- 1022 \<le> ilog2 y" "?mx + 1 \<le> ilog2 y" by auto
    have "rnd_pos x \<le> 2 powi (?mx + 1)" by (rule rnd_pos_le_pow [OF assms(1)])
    also have "\<dots> \<le> 2 powi (ilog2 y)" by (rule power_int_increasing) (use y in auto)
    also have "\<dots> \<le> rnd_pos y" using assms y by (intro rnd_pos_ge_pow) auto
    finally show ?thesis .
  qed
qed

lemma rnd_pos_nonneg: "0 < x \<Longrightarrow> 0 \<le> rnd_pos x"
  using rne_mono [of 0 "x / ulp (ilog2 x)"] rne_of_int [of 0]
  by (simp add: rnd_pos_def Let_def less_imp_le)

lemma rnd64_mono: "x \<le> y \<Longrightarrow> rnd64 x \<le> rnd64 y"
  using rnd_pos_mono [of x y] rnd_pos_mono [of "- y" "- x"] rnd_pos_nonneg [of y] rnd_pos_nonneg [of "- x"]
  by (auto simp: rnd64_def)

text \<open>A number \<open>m * 2^k\<close> with a significand of at most 53 bits is its own rounding.\<close>

lemma rnd_pos_representable:
  assumes "0 < m" "m \<le> 2 ^ 53" "- 1074 \<le> k"
  shows "rnd_pos (of_int m * 2 powi k) = of_int m * 2 powi k"
proof -
  let ?x = "of_int m * 2 powi k :: rat"
  let ?e = "max (ilog2 ?x) (- 1022)"
  have pos: "0 < ?x" using assms by simp
  have "2 powi (ilog2 ?x) \<le> ?x" by (rule ilog2_bounds [OF pos])
  also have "\<dots> \<le> 2 powi (k + 53)"
    using assms(2) by (simp add: power_int_add)
  finally have e: "ilog2 ?x \<le> k + 53"
    using powi2_less_iff [of "k + 53" "ilog2 ?x"] by linarith
  have "\<exists>n. ?x / ulp (ilog2 ?x) = of_int n"
  proof (cases "?e - 52 \<le> k")
    case True
    then have "2 powi (k - (?e - 52)) = (of_int (2 ^ nat (k - (?e - 52))) :: rat)"
      by (intro powi2_nat) simp
    moreover have "?x / ulp (ilog2 ?x) = of_int m * 2 powi (k - (?e - 52))"
      by (simp add: ulp_def power_int_diff)
    ultimately have "?x / ulp (ilog2 ?x) = of_int (m * 2 ^ nat (k - (?e - 52)))" by simp
    then show ?thesis by blast
  next
    case False
    with e assms(3) have k: "ilog2 ?x = k + 53" by auto
    with pos have "2 powi (k + 53) \<le> ?x" using ilog2_bounds(1) [OF pos] by simp
    then have "(2 ^ 53 :: rat) \<le> of_int m" by (simp add: power_int_add)
    then have "of_int (2 ^ 53) \<le> (of_int m :: rat)" by simp
    then have "m = 2 ^ 53" using assms(2) by (simp only: of_int_le_iff)
    then have "?x / ulp (ilog2 ?x) = of_int (2 ^ 52)"
      using k assms(3) by (simp add: ulp_def power_int_add power_int_diff field_simps max_def)
    then show ?thesis by blast
  qed
  then obtain n where n: "?x / ulp (ilog2 ?x) = of_int n" ..
  then have "of_int n * ulp (ilog2 ?x) = ?x"
    using ulp_pos [of "ilog2 ?x"] by (simp add: divide_eq_eq)
  with n show ?thesis by (simp add: rnd_pos_def Let_def)
qed

lemma rnd64_representable:
  assumes "\<bar>m\<bar> \<le> 2 ^ 53" "- 1074 \<le> k"
  shows "rnd64 (of_int m * 2 powi k) = of_int m * 2 powi k"
proof -
  consider "m = 0" | "0 < m" | "0 < - m" by linarith
  then show ?thesis
  proof cases
    case 2
    then have "\<not> (of_int m * 2 powi k :: rat) < 0" by (simp add: not_less)
    with 2 assms rnd_pos_representable [of m k] show ?thesis by (simp add: rnd64_def)
  next
    case 3
    with assms rnd_pos_representable [of "- m" k] show ?thesis
      by (simp add: rnd64_def mult_neg_pos)
  qed (simp add: rnd64_def)
qed

lemma rnd64_of_int [simp]: "\<bar>n\<bar> \<le> 2 ^ 53 \<Longrightarrow> rnd64 (of_int n) = of_int n"
  using rnd64_representable [of n 0] by simp

lemma rnd64_dyadic: "\<bar>m\<bar> \<le> 2 ^ 53 \<Longrightarrow> j \<le> 1074 \<Longrightarrow> rnd64 (of_int m / 2 ^ j) = of_int m / 2 ^ j"
  using rnd64_representable [of m "- int j"] by (simp add: power_int_minus field_simps)

lemma rnd_pos_idem:
  assumes "0 < x"
  shows "rnd64 (rnd_pos x) = rnd_pos x"
proof -
  let ?e = "max (ilog2 x) (- 1022)"
  have "x < 2 powi (?e + 1)"
    using ilog2_bounds [OF assms] powi2_less_iff [of "ilog2 x + 1" "?e + 1"] by (cases "ilog2 x < - 1022") auto
  also have "(2 :: rat) powi (?e + 1) = 2 ^ 53 * 2 powi (?e - 52)"
    using power_int_add [of "2 :: rat" 53 "?e - 52"] by (simp add: add.commute)
  finally have "x / ulp (ilog2 x) \<le> 2 ^ 53"
    by (simp add: ulp_def divide_le_eq)
  then have "rne (x / ulp (ilog2 x)) \<le> rne (of_int (2 ^ 53))"
    by (intro rne_mono) simp
  moreover have "0 \<le> rne (x / ulp (ilog2 x))"
    using rne_mono [of 0 "x / ulp (ilog2 x)"] assms ulp_pos [of "ilog2 x"] by simp
  ultimately show ?thesis
    using rnd64_representable [of "rne (x / ulp (ilog2 x))" "?e - 52"]
    by (simp add: rnd_pos_def Let_def ulp_def rne_of_int del: of_int_power)
qed

lemma rnd64_neg: "rnd64 (- x) = - rnd64 x"
  by (simp add: rnd64_def)

lemma rnd64_idem: "rnd64 (rnd64 x) = rnd64 x"
proof -
  consider "x = 0" | "0 < x" | "0 < - x"
    by linarith
  then show ?thesis
  proof cases
    case 2
    then have "rnd64 x = rnd_pos x"
      by (simp add: rnd64_def)
    then show ?thesis
      using rnd_pos_idem [OF 2] by simp
  next
    case 3
    then have "rnd64 x = - rnd_pos (- x)"
      by (simp add: rnd64_def)
    then show ?thesis
      using rnd_pos_idem [OF 3] by (simp add: rnd64_neg)
  qed (simp add: rnd64_def)
qed

section \<open>What the components rely on\<close>

text \<open>
  Nothing else about rounding enters the proofs of the components: it is monotone, a rounded value
  does not change again, and integers that fit the significand are exact.
\<close>

locale rounding =
  fixes rnd :: "rat \<Rightarrow> rat"
  assumes mono: "x \<le> y \<Longrightarrow> rnd x \<le> rnd y"
    and idem: "rnd (rnd x) = rnd x"
    and exact_int: "\<bar>n\<bar> \<le> 2 ^ 53 \<Longrightarrow> rnd (of_int n) = of_int n"
begin

lemma add_increases: "0 \<le> y \<Longrightarrow> rnd x = x \<Longrightarrow> x \<le> rnd (x + y)"
  using mono [of x "x + y"] by simp

lemma zero [simp]: "rnd 0 = 0"
  using exact_int [of 0] by simp

lemma one [simp]: "rnd 1 = 1"
  using exact_int [of 1] by simp

lemma le_int: "x \<le> of_int n \<Longrightarrow> \<bar>n\<bar> \<le> 2 ^ 53 \<Longrightarrow> rnd x \<le> of_int n"
  using mono exact_int by metis

lemma ge_int: "of_int n \<le> x \<Longrightarrow> \<bar>n\<bar> \<le> 2 ^ 53 \<Longrightarrow> of_int n \<le> rnd x"
  using mono exact_int by metis

lemma nonneg: "0 \<le> x \<Longrightarrow> 0 \<le> rnd x"
  using mono [of 0 x] by simp

lemma nonpos: "x \<le> 0 \<Longrightarrow> rnd x \<le> 0"
  using mono [of x 0] by simp

lemma ceiling_le: "x \<le> of_int n \<Longrightarrow> \<bar>n\<bar> \<le> 2 ^ 53 \<Longrightarrow> \<lceil>rnd x\<rceil> \<le> n"
  by (simp add: ceiling_le_iff le_int)

lemma ge_ceiling: "of_int n \<le> x \<Longrightarrow> \<bar>n\<bar> \<le> 2 ^ 53 \<Longrightarrow> n \<le> \<lceil>rnd x\<rceil>"
  using ge_int [of n x] by (metis ceiling_mono ceiling_of_int)

lemma floor_le: "x \<le> of_int n \<Longrightarrow> \<bar>n\<bar> \<le> 2 ^ 53 \<Longrightarrow> \<lfloor>rnd x\<rfloor> \<le> n"
  using le_int [of x n] by (metis floor_mono floor_of_int)

lemma ge_floor: "of_int n \<le> x \<Longrightarrow> \<bar>n\<bar> \<le> 2 ^ 53 \<Longrightarrow> n \<le> \<lfloor>rnd x\<rfloor>"
  by (simp add: le_floor_iff ge_int)

end

interpretation binary64: rounding rnd64
  by unfold_locales (rule rnd64_mono, assumption, rule rnd64_idem, rule rnd64_of_int)

text \<open>No overflow can occur far from the ends of the range.\<close>

definition moderate :: "rat \<Rightarrow> bool" where
  "moderate x \<longleftrightarrow> \<bar>x\<bar> \<le> 2 ^ 100"

lemma moderate_rnd64 [simp]: "moderate x \<Longrightarrow> moderate (rnd64 x)"
proof -
  assume m: "moderate x"
  have p: "rnd64 (2 ^ 100) = 2 ^ 100" and n: "rnd64 (- (2 ^ 100)) = - (2 ^ 100)"
    using rnd64_representable [of 1 100] rnd64_representable [of "- 1" 100] by simp_all
  from m have "x \<le> 2 ^ 100" "- (2 ^ 100) \<le> x" unfolding moderate_def by (auto simp only: abs_le_iff)
  then have "rnd64 x \<le> rnd64 (2 ^ 100)" "rnd64 (- (2 ^ 100)) \<le> rnd64 x"
    by (auto intro: rnd64_mono)
  then show ?thesis unfolding p n moderate_def abs_le_iff by linarith
qed

lemma fl_moderate [simp]:
  assumes "moderate x"
  shows "fl x = Fin (rnd64 x)"
proof -
  let ?r = "rnd64 x"
  have "\<not> 1024 \<le> ilog2 \<bar>?r\<bar>" if "?r \<noteq> 0"
  proof -
    have "2 powi (ilog2 \<bar>?r\<bar>) \<le> \<bar>?r\<bar>" using that by (intro ilog2_bounds) simp
    also have "\<dots> \<le> 2 powi 100" using moderate_rnd64 [OF assms] by (simp add: moderate_def)
    finally show ?thesis using powi2_less_iff [of 100 "ilog2 \<bar>?r\<bar>"] by linarith
  qed
  then show ?thesis by (auto simp: fl_def Let_def)
qed

lemma moderate_of_int [simp]: "\<bar>n\<bar> \<le> 2 ^ 64 \<Longrightarrow> moderate (of_int n)"
proof -
  assume "\<bar>n\<bar> \<le> 2 ^ 64"
  then have "(of_int \<bar>n\<bar> :: rat) \<le> of_int (2 ^ 64)" by (simp only: of_int_le_iff)
  then show ?thesis by (simp add: moderate_def)
qed

lemma moderate_divide:
  assumes "moderate x" "1 \<le> y"
  shows "moderate (x / y)"
proof -
  have "\<bar>x\<bar> / y \<le> \<bar>x\<bar> / 1" by (rule divide_left_mono) (use assms in auto)
  with assms show ?thesis by (simp add: moderate_def)
qed

lemma moderate_between: "moderate y \<Longrightarrow> 0 \<le> x \<Longrightarrow> x \<le> y \<Longrightarrow> moderate x"
  by (simp add: moderate_def)

lemma fl_of_int [simp]:
  assumes "\<bar>n\<bar> \<le> 2 ^ 53"
  shows "fl (of_int n) = Fin (of_int n)"
proof -
  have "moderate (of_int n)" by (rule moderate_of_int) (use assms in simp)
  then show ?thesis using binary64.exact_int [OF assms] by simp
qed

lemma f_of_int_exact [simp]: "\<bar>n\<bar> \<le> 2 ^ 53 \<Longrightarrow> f_of_int n = Fin (of_int n)"
  by (simp add: f_of_int_def)

lemma int_of_float_int [simp]:
  "- (2 ^ 63) \<le> n \<Longrightarrow> n < 2 ^ 63 \<Longrightarrow> int_of_float (Fin (of_int n)) = n"
  by (simp add: rat_trunc_def)

text \<open>Integer arithmetic that stays within the significand is exact.\<close>

lemma fadd_int: "\<bar>m + n\<bar> \<le> 2 ^ 53 \<Longrightarrow> fadd (Fin (of_int m)) (Fin (of_int n)) = Fin (of_int (m + n))"
  using fl_of_int [of "m + n"] by simp

lemma fmul_int: "\<bar>m * n\<bar> \<le> 2 ^ 53 \<Longrightarrow> fmul (Fin (of_int m)) (Fin (of_int n)) = Fin (of_int (m * n))"
  using fl_of_int [of "m * n"] by simp

lemma fsub_int: "\<bar>m - n\<bar> \<le> 2 ^ 53 \<Longrightarrow> fsub (Fin (of_int m)) (Fin (of_int n)) = Fin (of_int (m - n))"
  using fl_of_int [of "m - n"] by (simp add: fsub_def)

lemma duration_Seconds_whole:
  "0 \<le> n \<Longrightarrow> n \<le> 2 ^ 53 \<Longrightarrow> duration_Seconds (n * Second) = Fin (of_int n)"
  using f_of_int_exact [of 0] fl_of_int [of 0] fl_of_int [of n]
  by (cases "n = 0")
     (simp_all add: duration_Seconds_def Second_def signed_divide_int_def signed_modulo_int_def sgn_mult)

end
