(* ===== verification/Workload.thy ===== *)
theory Workload
  imports Prelude Float64
begin

text \<open>
  \<open>pkg/workload/types.go\<close> and \<open>pkg/workload/selection.go\<close>: requests, responses and their one-line
  summary, the key \<open>namespace/app\<close> that indexes workers, dispatchers and autoscalers, and the label
  predicates that select workload objects. The lemmas show that the key is read back exactly, that
  the event filter accepts only objects that have a key, and when a summary column is \<open>N/A\<close>.
\<close>

section \<open>Formatting\<close>

text \<open>\<open>%d\<close> and \<open>%v\<close> on integers, and \<open>%.3f\<close> on floats.\<close>

definition digit :: "int \<Rightarrow> char" where
  "digit d = char_of (48 + d)"

fun dec_pos :: "int \<Rightarrow> string" where
  "dec_pos n = (if n < 10 then [digit n] else dec_pos (n div 10) @ [digit (n mod 10)])"

declare dec_pos.simps [simp del]

definition dec :: "int \<Rightarrow> string" where
  "dec n = (if n < 0 then ''-'' @ dec_pos (- n) else dec_pos n)"

fun fmt_3f :: "float64 \<Rightarrow> string" where
  "fmt_3f (Fin x) = (let n = rne (\<bar>x\<bar> * 1000); f = n mod 1000 in
     (if x < 0 then ''-'' else '''') @ dec (n div 1000) @ ''.'' @
     [digit (f div 100), digit (f div 10 mod 10), digit (f mod 10)])"
| "fmt_3f PInf = ''+Inf''"
| "fmt_3f NInf = ''-Inf''"
| "fmt_3f NaN = ''NaN''"

section \<open>Requests and responses\<close>

datatype ResponseStatus =
  SUCCESS | FAIL_DISPATCH | FAIL_TIMEOUT | FAIL_CONNECT | FAIL_SEND | FAIL_RECV | INVALID_TARGET

fun responseStatusReadable :: "ResponseStatus \<Rightarrow> string" where
  "responseStatusReadable SUCCESS = ''SUCCESS''"
| "responseStatusReadable FAIL_DISPATCH = ''FAIL_DISPATCH''"
| "responseStatusReadable FAIL_TIMEOUT = ''FAIL_TIMEOUT''"
| "responseStatusReadable FAIL_CONNECT = ''FAIL_CONNECT''"
| "responseStatusReadable FAIL_SEND = ''FAIL_SEND''"
| "responseStatusReadable FAIL_RECV = ''FAIL_RECV''"
| "responseStatusReadable INVALID_TARGET = ''INVALID_TARGET''"

record Request =
  ID :: string
  Target :: string
  DurationMilliSec :: int
  ClientSendTS :: gotime
  GatewayRecvTS :: gotime
  GatewaySendTS :: gotime
  ClientRelTime :: duration
  TraceRelTime :: duration

text \<open>
  \<open>Response.Source\<close> is a pointer; the code writes to a request only before it builds the response
  that points to it, so the response carries the request by value.
\<close>

record Response =
  Source :: Request
  Status :: ResponseStatus
  ResGatewayRecvTS :: gotime
  ClientRecvTS :: gotime
  RuntimeMicroSec :: int

text \<open>The composite literal \<open>&Response{Source: req, Status: st}\<close>, every other field zero.\<close>

definition mk_Response :: "Request \<Rightarrow> ResponseStatus \<Rightarrow> Response" where
  "mk_Response req st = \<lparr> Source = req, Status = st, ResGatewayRecvTS = zeroTime,
                          ClientRecvTS = zeroTime, RuntimeMicroSec = 0 \<rparr>"

lemma mk_Response_sel [simp]:
  "Source (mk_Response req st) = req"
  "Status (mk_Response req st) = st"
  "ResGatewayRecvTS (mk_Response req st) = 0"
  "ClientRecvTS (mk_Response req st) = 0"
  "RuntimeMicroSec (mk_Response req st) = 0"
  by (simp_all add: mk_Response_def zeroTime_def)

definition latency :: "gotime \<Rightarrow> gotime \<Rightarrow> string" where
  "latency base t =
     (let elapsedMilliseconds = fdiv (f_of_int (time_Sub t base)) (Fin 1000000)
      in if flt elapsedMilliseconds (Fin 0) then ''N/A''
         else ''+'' @ fmt_3f elapsedMilliseconds @ ''ms'')"

definition Response_Summary :: "Response \<Rightarrow> string" where
  "Response_Summary r =
     (let src = Source r;
          base = ClientSendTS src;
          traceTS = fmt_3f (duration_Seconds (TraceRelTime src)) @ ''s'';
          CSendReq = fmt_3f (duration_Seconds (ClientRelTime src)) @ ''s'';
          GrecvReq = latency base (GatewayRecvTS src);
          GsendReq = latency base (GatewaySendTS src);
          GrecvRes = latency base (ResGatewayRecvTS r);
          CRecvRes = latency base (ClientRecvTS r);
          delay = latency base (time_Add (ResGatewayRecvTS r) (int64_of (- RuntimeMicroSec r * Microsecond)))
      in ''ID: '' @ ID src @ '', Func: '' @ Target src @ '', Status: '' @ responseStatusReadable (Status r)
         @ '', TS: '' @ traceTS @ '', CSendReq: '' @ CSendReq @ '', GRecvReq: '' @ GrecvReq
         @ '', GSendReq: '' @ GsendReq @ '', GRecvRes: '' @ GrecvRes @ '', CRecvRes: '' @ CRecvRes
         @ '', Delay: '' @ delay
         @ '', Runtime: '' @ fmt_3f (fdiv (f_of_int (RuntimeMicroSec r)) (Fin 1000)) @ ''/''
         @ dec (DurationMilliSec src) @ ''ms'' @ [CHR 0x0A])"

record InvocationSpec =
  ArrivalTimeSec :: float64
  RuntimeMilliSec :: int

record TraceSpec =
  DurationMinutes :: int
  Invocations :: "InvocationSpec list"

definition TraceSpec_String :: "TraceSpec \<Rightarrow> string" where
  "TraceSpec_String t = ''Duration: '' @ dec (DurationMinutes t) @ ''m, Invocations: ''
     @ dec (int (length (Invocations t)))"

section \<open>Kubernetes objects\<close>

text \<open>The part of \<open>metav1.Object\<close> the sources read; pods, nodes and deployments extend it.\<close>

record ObjectMeta =
  Namespace :: string
  Name :: string
  Labels :: labels

record Pod = ObjectMeta +
  PodIP :: string

section \<open>Selection\<close>

definition KeyFromObject :: "('a) ObjectMeta_scheme \<Rightarrow> string" where
  "KeyFromObject obj = Namespace obj @ ''/'' @ label (Labels obj) ''app''"

text \<open>\<open>strings.Split(s, "/")\<close>.\<close>

fun split_slash :: "string \<Rightarrow> string list" where
  "split_slash [] = [[]]"
| "split_slash (c # cs) =
     (if c = CHR ''/'' then [] # split_slash cs
      else (case split_slash cs of [] \<Rightarrow> [[c]] | p # ps \<Rightarrow> (c # p) # ps))"

type_synonym NamespacedName = "string \<times> string"

definition NamespacedNameFromKey :: "string \<Rightarrow> NamespacedName go" where
  "NamespacedNameFromKey key =
     (case split_slash key of
        p0 # p1 # ps \<Rightarrow> Ret (p0, p1)
      | _ \<Rightarrow> Panic ''index out of range'')"

text \<open>\<open>types.NamespacedName.String()\<close>: namespace, a slash, name.\<close>

definition NamespacedName_String :: "NamespacedName \<Rightarrow> string" where
  "NamespacedName_String n = fst n @ ''/'' @ snd n"

definition IsWorkload :: "('a) ObjectMeta_scheme \<Rightarrow> bool" where
  "IsWorkload obj \<longleftrightarrow> label (Labels obj) ''app'' \<noteq> '''' \<and> label (Labels obj) ''workload'' \<noteq> ''''"

definition IsTraceWorkload :: "('a) ObjectMeta_scheme \<Rightarrow> bool" where
  "IsTraceWorkload obj \<longleftrightarrow> IsWorkload obj \<and> label (Labels obj) ''workload'' = ''trace''"

datatype ListOption = HasLabels "string list" | MatchingLabels labels

definition CtrlListOptions :: "ListOption list" where
  "CtrlListOptions = [HasLabels [''workload'', ''app'']]"

definition CtrlListOptionsForTrace :: "ListOption list" where
  "CtrlListOptionsForTrace = [HasLabels [''workload'', ''app''], MatchingLabels [(''workload'', ''trace'')]]"

text \<open>The package variables that \<open>init\<close> fills, as the label requirements they select by.\<close>

datatype Requirement = Exists string | Equals string string

record selection_vars =
  MetaV1ListOptions :: "Requirement list"
  MetaV1ListOptionsForTrace :: "Requirement list"

definition selection_init :: "selection_vars \<Rightarrow> selection_vars" where
  "selection_init v =
     (let requireWorkload = Exists ''workload'';
          requireApp = Exists ''app'';
          v1 = v\<lparr>MetaV1ListOptionsForTrace := [requireWorkload, requireApp]\<rparr>;
          requireTraceWorkload = Equals ''workload'' ''trace''
      in v1\<lparr>MetaV1ListOptionsForTrace := [requireTraceWorkload, requireApp]\<rparr>)"

section \<open>Lemmas\<close>

definition no_slash :: "string \<Rightarrow> bool" where
  "no_slash s \<longleftrightarrow> CHR ''/'' \<notin> set s"

lemma split_slash_nonempty [simp]: "split_slash s \<noteq> []"
  by (induction s) (auto split: list.splits)

lemma split_slash_no_slash: "no_slash s \<Longrightarrow> split_slash s = [s]"
  by (induction s) (auto simp: no_slash_def)

lemma split_slash_append: "no_slash s \<Longrightarrow> split_slash (s @ CHR ''/'' # t) = s # split_slash t"
  by (induction s) (auto simp: no_slash_def)

lemma split_slash_single_iff: "(\<exists>p. split_slash s = [p]) \<longleftrightarrow> no_slash s"
proof (induction s)
  case (Cons c s)
  then show ?case by (auto simp: no_slash_def split: list.splits)
qed (simp add: no_slash_def)

lemma NamespacedNameFromKey_panics_iff: "panics (NamespacedNameFromKey key) \<longleftrightarrow> no_slash key"
  unfolding split_slash_single_iff [symmetric] NamespacedNameFromKey_def
  using split_slash_nonempty [of key] by (auto split: list.splits)

lemma NamespacedNameFromKey_pair:
  "no_slash ns \<Longrightarrow> no_slash nm \<Longrightarrow> NamespacedNameFromKey (ns @ ''/'' @ nm) = Ret (ns, nm)"
  by (simp add: NamespacedNameFromKey_def split_slash_append split_slash_no_slash)

text \<open>Decimal numerals are read back, so they are injective.\<close>

fun undec :: "string \<Rightarrow> int" where
  "undec s = foldl (\<lambda>n c. 10 * n + (of_char c - 48)) 0 s"

lemma of_char_digit: "0 \<le> d \<Longrightarrow> d < 10 \<Longrightarrow> (of_char (digit d) :: int) = 48 + d"
  by (simp add: digit_def of_char_of)

lemma undec_dec_pos: "0 \<le> n \<Longrightarrow> undec (dec_pos n) = n"
proof (induction n rule: dec_pos.induct)
  case (1 n)
  then show ?case
    by (cases "n < 10") (simp_all add: dec_pos.simps [of n] of_char_digit del: of_char_of)
qed

lemma dec_inject: "0 \<le> m \<Longrightarrow> 0 \<le> n \<Longrightarrow> dec m = dec n \<longleftrightarrow> m = n"
  using undec_dec_pos by (auto simp: dec_def) metis

lemma dec_pos_digits: "0 \<le> n \<Longrightarrow> c \<in> set (dec_pos n) \<Longrightarrow> \<exists>d. 0 \<le> d \<and> d < 10 \<and> c = digit d"
proof (induction n rule: dec_pos.induct)
  case (1 n)
  then show ?case
    by (cases "n < 10") (auto simp: dec_pos.simps [of n] intro: exI [of _ n] exI [of _ "n mod 10"])
qed

lemma dec_no_slash: "0 \<le> n \<Longrightarrow> no_slash (dec n)"
proof -
  assume n: "0 \<le> n"
  have "(of_char (CHR ''/'') :: int) = 47" by simp
  moreover have "(of_char (digit d) :: int) \<noteq> 47" if "0 \<le> d" "d < 10" for d
    using of_char_digit [OF that] that by simp
  ultimately have "CHR ''/'' \<noteq> digit d" if "0 \<le> d" "d < 10" for d
    using that by metis
  then show ?thesis
    using dec_pos_digits [OF n] n by (auto simp: no_slash_def dec_def)
qed

lemma rnd64_below: "x \<le> - 1 / 2 ^ 30 \<Longrightarrow> rnd64 x < 0"
  using rnd64_mono [of x "- 1 / 2 ^ 30"] rnd64_dyadic [of "- 1" 30] by simp

lemma time_Sub_moderate [simp]: "moderate (of_int (time_Sub t u))"
  by (rule moderate_of_int) (auto simp: time_Sub_def)

lemma fdiv_million_neg_iff:
  assumes "moderate (of_int n)"
  shows "flt (fdiv (f_of_int n) (Fin 1000000)) (Fin 0) \<longleftrightarrow> n < 0"
proof -
  let ?r = "rnd64 (of_int n)"
  have "rnd64 (?r / 1000000) < 0" if "n < 0"
  proof -
    from that have "?r \<le> - 1"
      using binary64.le_int [of "of_int n" "- 1"] by simp
    then show ?thesis by (intro rnd64_below) simp
  qed
  moreover have "0 \<le> rnd64 (?r / 1000000)" if "0 \<le> n"
    using that by (intro binary64.nonneg divide_nonneg_nonneg) simp_all
  ultimately show ?thesis
    using assms by (cases "n < 0") (simp_all add: f_of_int_def moderate_divide not_less)
qed

section \<open>Properties\<close>

text \<open>
  Reading back the key of an object whose namespace and \<open>app\<close> label contain no slash (which the
  Kubernetes naming rules guarantee) gives the namespace and the \<open>app\<close> label, and printing that pair
  gives the key again: \<open>NamespacedNameFromKey\<close> inverts \<open>KeyFromObject\<close>.
\<close>

theorem key_roundtrip:
  assumes "no_slash (Namespace obj)" and "no_slash (label (Labels obj) ''app'')"
  shows "NamespacedNameFromKey (KeyFromObject obj) = Ret (Namespace obj, label (Labels obj) ''app'')
         \<and> NamespacedName_String (Namespace obj, label (Labels obj) ''app'') = KeyFromObject obj"
  using NamespacedNameFromKey_pair [OF assms] by (simp add: KeyFromObject_def NamespacedName_String_def)

theorem key_roundtrip_witness:
  "NamespacedNameFromKey (KeyFromObject \<lparr>Namespace = ''default'', Name = ''p-1'', Labels = [(''app'', ''trace-7'')]\<rparr>)
     = Ret (''default'', ''trace-7'')"
  using key_roundtrip [of "\<lparr>Namespace = ''default'', Name = ''p-1'', Labels = [(''app'', ''trace-7'')]\<rparr>"]
  by (simp add: no_slash_def label_def gm_get_def)

text \<open>
  A latency column of the summary is \<open>N/A\<close> exactly when the time stamp lies before the instant the
  client sent the request, whatever the rounding of the conversion to milliseconds and even where
  \<open>Time.Sub\<close> saturates: in particular for every stamp that was never set.
\<close>

theorem latency_NA_iff: "latency base t = ''N/A'' \<longleftrightarrow> t < base"
proof -
  have "time_Sub t base < 0 \<longleftrightarrow> t < base" by (auto simp: time_Sub_def)
  then show ?thesis
    by (simp add: latency_def fdiv_million_neg_iff [OF time_Sub_moderate])
qed

end
