(* ===== verification/Metric.thy ===== *)
theory Metric
  imports Workload
begin

text \<open>
  \<open>pkg/autoscaler/metric\<close>: the per-target request statistics (\<open>stats.go\<close>) and the collector that
  feeds them once per second into the averaging windows (\<open>collector.go\<close>). The windows are Knative's
  \<open>aggregation.TimedFloat64Buckets\<close>, an imported package: a record of operations. The properties show
  that the instant concurrency is the number of requests in flight, that a report's average is the
  time-weighted mean of the concurrency since the previous report, and that the collector reports
  every interval exactly once into all four windows.
\<close>

section \<open>Request statistics\<close>

record RequestStats =
  Key :: string
  concurrency :: float64
  concurrencyIntegral :: float64
  requestCount :: float64
  lastChange :: gotime
  secondsInUse :: float64

record RequestStatsReport =
  AverageConcurrency :: float64
  RequestCount :: float64

definition NewRequestStats :: "string \<Rightarrow> RequestStats" where
  "NewRequestStats key = \<lparr> Key = key, concurrency = Fin 0, concurrencyIntegral = Fin 0,
     requestCount = Fin 0, lastChange = zeroTime, secondsInUse = Fin 0 \<rparr>"

definition Move :: "gotime \<Rightarrow> RequestStats \<Rightarrow> RequestStats" where
  "Move now s =
     (if IsZero (lastChange s) then s\<lparr>lastChange := now\<rparr>
      else let durationSinceChange = time_Sub now (lastChange s) in
        if durationSinceChange > 0 then
          let durationSecs = duration_Seconds durationSinceChange in
          s\<lparr>secondsInUse := fadd (secondsInUse s) durationSecs,
            concurrencyIntegral := fadd (concurrencyIntegral s) (fmul (concurrency s) durationSecs),
            lastChange := now\<rparr>
        else s)"

text \<open>The three operations take the mutex for their whole body; \<open>now\<close> is their clock read.\<close>

definition Stats_ReqIn :: "gotime \<Rightarrow> RequestStats \<Rightarrow> float64 \<times> RequestStats" where
  "Stats_ReqIn now s =
     (let s1 = Move now s;
          s2 = s1\<lparr>concurrency := fadd (concurrency s1) (Fin 1)\<rparr>;
          s3 = s2\<lparr>requestCount := fadd (requestCount s2) (Fin 1)\<rparr>
      in (concurrency s3, s3))"

definition Stats_ReqOut :: "gotime \<Rightarrow> RequestStats \<Rightarrow> float64 \<times> RequestStats" where
  "Stats_ReqOut now s =
     (let s1 = Move now s;
          s2 = s1\<lparr>concurrency := fsub (concurrency s1) (Fin 1)\<rparr>
      in (concurrency s2, s2))"

definition Stats_reset :: "RequestStats \<Rightarrow> RequestStats" where
  "Stats_reset s = s\<lparr>concurrencyIntegral := Fin 0, requestCount := Fin 0, secondsInUse := Fin 0\<rparr>"

definition Stats_Report :: "gotime \<Rightarrow> RequestStats \<Rightarrow> RequestStatsReport \<times> RequestStats" where
  "Stats_Report now s =
     (let s1 = Move now s;
          report = \<lparr> AverageConcurrency = Fin 0, RequestCount = requestCount s1 \<rparr>;
          report = (if flt (Fin 0) (secondsInUse s1)
                    then report\<lparr>AverageConcurrency := fdiv (concurrencyIntegral s1) (secondsInUse s1)\<rparr>
                    else report)
      in (report, Stats_reset s1))"

definition InstantConcurrency :: "RequestStats \<Rightarrow> float64" where
  "InstantConcurrency s = concurrency s"

section \<open>The collector\<close>

text \<open>\<open>knas.TimedFloat64Buckets\<close>, imported.\<close>

record 'b timed_buckets =
  tb_New :: "duration \<Rightarrow> duration \<Rightarrow> 'b"
  tb_Record :: "'b \<Rightarrow> gotime \<Rightarrow> float64 \<Rightarrow> 'b"
  tb_WindowAverage :: "'b \<Rightarrow> gotime \<Rightarrow> float64"

record 'b Collector =
  stats :: RequestStats
  concurrencyBuckets :: 'b
  concurrencyPanicBuckets :: 'b
  requestCountBuckets :: 'b
  requestCountPanicBuckets :: 'b
  collectInterval :: duration

definition NewCollector ::
    "'b timed_buckets \<Rightarrow> string \<Rightarrow> duration \<Rightarrow> duration \<Rightarrow> duration \<Rightarrow> 'b Collector" where
  "NewCollector B key stableWindow panicWindow granularity = \<lparr>
     stats = NewRequestStats key,
     concurrencyBuckets = tb_New B stableWindow granularity,
     concurrencyPanicBuckets = tb_New B panicWindow granularity,
     requestCountBuckets = tb_New B stableWindow granularity,
     requestCountPanicBuckets = tb_New B panicWindow granularity,
     collectInterval = granularity \<rparr>"

definition collect :: "'b timed_buckets \<Rightarrow> gotime \<Rightarrow> 'b Collector \<Rightarrow> 'b Collector" where
  "collect B now c =
     (let (report, s) = Stats_Report now (stats c) in
      c\<lparr>stats := s,
        concurrencyBuckets := tb_Record B (concurrencyBuckets c) now (AverageConcurrency report),
        concurrencyPanicBuckets := tb_Record B (concurrencyPanicBuckets c) now (AverageConcurrency report),
        requestCountBuckets := tb_Record B (requestCountBuckets c) now (RequestCount report),
        requestCountPanicBuckets := tb_Record B (requestCountPanicBuckets c) now (RequestCount report)\<rparr>)"

definition StableAndPanicConcurrency :: "'b timed_buckets \<Rightarrow> gotime \<Rightarrow> 'b Collector \<Rightarrow> float64 \<times> float64" where
  "StableAndPanicConcurrency B now c =
     (tb_WindowAverage B (concurrencyBuckets c) now, tb_WindowAverage B (concurrencyPanicBuckets c) now)"

definition StableAndPanicAndInstantConcurrency ::
    "'b timed_buckets \<Rightarrow> gotime \<Rightarrow> 'b Collector \<Rightarrow> float64 \<times> float64 \<times> float64" where
  "StableAndPanicAndInstantConcurrency B now c =
     (tb_WindowAverage B (concurrencyBuckets c) now, tb_WindowAverage B (concurrencyPanicBuckets c) now,
      InstantConcurrency (stats c))"

definition StableAndPanicRequestCount :: "'b timed_buckets \<Rightarrow> gotime \<Rightarrow> 'b Collector \<Rightarrow> float64 \<times> float64" where
  "StableAndPanicRequestCount B now c =
     (tb_WindowAverage B (requestCountBuckets c) now, tb_WindowAverage B (requestCountPanicBuckets c) now)"

text \<open>
  The loop of \<open>Run\<close>: each iteration of its \<open>select\<close> takes a tick of the ticker or the end of the
  context, after which nothing is read any more.
\<close>

datatype collector_event = CtxDone | Tick gotime

fun Collector_Run :: "'b timed_buckets \<Rightarrow> collector_event list \<Rightarrow> 'b Collector \<Rightarrow> 'b Collector" where
  "Collector_Run B [] c = c"
| "Collector_Run B (CtxDone # es) c = c"
| "Collector_Run B (Tick now # es) c = Collector_Run B es (collect B now c)"

section \<open>Histories\<close>

text \<open>A history of the statistics of one target: arrivals and departures with their clock reads.\<close>

datatype stats_event = ReqArrive gotime | ReqLeave gotime

fun stats_step :: "RequestStats \<Rightarrow> stats_event \<Rightarrow> RequestStats" where
  "stats_step s (ReqArrive t) = snd (Stats_ReqIn t s)"
| "stats_step s (ReqLeave t) = snd (Stats_ReqOut t s)"

fun stats_run :: "RequestStats \<Rightarrow> stats_event list \<Rightarrow> RequestStats" where
  "stats_run s [] = s"
| "stats_run s (e # es) = stats_run (stats_step s e) es"

fun delta :: "stats_event \<Rightarrow> int" where
  "delta (ReqArrive t) = 1"
| "delta (ReqLeave t) = - 1"

fun ev_time :: "stats_event \<Rightarrow> gotime" where
  "ev_time (ReqArrive t) = t"
| "ev_time (ReqLeave t) = t"

definition in_flight :: "stats_event list \<Rightarrow> int" where
  "in_flight es = sum_list (map delta es)"

definition arrivals :: "stats_event list \<Rightarrow> int" where
  "arrivals es = int (length (filter (\<lambda>e. delta e = 1) es))"

lemma Move_frame [simp]:
  "concurrency (Move now s) = concurrency s"
  "requestCount (Move now s) = requestCount s"
  "Key (Move now s) = Key s"
  by (simp_all add: Move_def Let_def)

lemma abs_sum_delta: "\<bar>sum_list (map delta es)\<bar> \<le> int (length es)"
proof (induction es)
  case (Cons e es)
  then show ?case by (cases e) auto
qed simp

lemma fadd_one: "\<bar>n + 1\<bar> \<le> 2 ^ 53 \<Longrightarrow> fadd (Fin (of_int n)) (Fin 1) = Fin (of_int (n + 1))"
  using fadd_int [of n 1] by simp

lemma fsub_one: "\<bar>n - 1\<bar> \<le> 2 ^ 53 \<Longrightarrow> fsub (Fin (of_int n)) (Fin 1) = Fin (of_int (n - 1))"
  using fsub_int [of n 1] by simp

lemma stats_step_concurrency:
  assumes "concurrency s = Fin (of_int c)" "\<bar>c\<bar> < 2 ^ 53"
  shows "concurrency (stats_step s e) = Fin (of_int (c + delta e))"
proof (cases e)
  case (ReqArrive t)
  then show ?thesis using assms fadd_one [of c]
    by (simp add: Stats_ReqIn_def Let_def del: fadd.simps of_int_add)
next
  case (ReqLeave t)
  then show ?thesis using assms fsub_one [of c]
    by (simp add: Stats_ReqOut_def Let_def del: of_int_diff)
qed

lemma stats_run_concurrency:
  assumes "concurrency s = Fin (of_int c)" "\<bar>c\<bar> + int (length es) \<le> 2 ^ 53"
  shows "concurrency (stats_run s es) = Fin (of_int (c + in_flight es))"
  using assms
proof (induction es arbitrary: s c)
  case (Cons e es)
  have "concurrency (stats_step s e) = Fin (of_int (c + delta e))"
    using Cons.prems by (intro stats_step_concurrency) auto
  moreover have "\<bar>c + delta e\<bar> + int (length es) \<le> 2 ^ 53"
    using Cons.prems by (cases e) auto
  ultimately have "concurrency (stats_run (stats_step s e) es) = Fin (of_int (c + delta e + in_flight es))"
    by (rule Cons.IH)
  then show ?case by (simp add: in_flight_def add.assoc)
qed (simp add: in_flight_def)

lemma stats_run_requestCount:
  assumes "requestCount s = Fin (of_int r)" "0 \<le> r" "r + int (length es) \<le> 2 ^ 53"
  shows "requestCount (stats_run s es) = Fin (of_int (r + arrivals es))"
  using assms
proof (induction es arbitrary: s r)
  case (Cons e es)
  show ?case
  proof (cases e)
    case (ReqArrive t)
    have "requestCount (stats_step s e) = Fin (of_int (r + 1))"
      using Cons.prems fadd_one [of r]
      by (simp add: ReqArrive Stats_ReqIn_def Let_def del: fadd.simps of_int_add)
    then show ?thesis using Cons.IH [of "stats_step s e" "r + 1"] Cons.prems
      by (simp add: ReqArrive arrivals_def algebra_simps)
  next
    case (ReqLeave t)
    then show ?thesis using Cons.IH [of "stats_step s e" r] Cons.prems
      by (simp add: arrivals_def Stats_ReqOut_def Let_def)
  qed
qed (simp add: arrivals_def)

section \<open>The time-weighted mean\<close>

text \<open>
  The abstract specification of a report: the area under the concurrency curve. A history is given in
  whole seconds; \<open>True\<close> marks an arrival, \<open>False\<close> a departure.
\<close>

type_synonym history = "(int \<times> bool) list"

definition step_of :: "bool \<Rightarrow> int" where
  "step_of b = (if b then 1 else - 1)"

fun area :: "int \<Rightarrow> int \<Rightarrow> history \<Rightarrow> int \<Rightarrow> int" where
  "area c t [] T = c * (T - t)"
| "area c t ((u, b) # h) T = c * (u - t) + area (c + step_of b) u h T"

fun ordered :: "int \<Rightarrow> history \<Rightarrow> int \<Rightarrow> bool" where
  "ordered t [] T \<longleftrightarrow> t \<le> T"
| "ordered t ((u, b) # h) T \<longleftrightarrow> t \<le> u \<and> ordered u h T"

fun event_of :: "int \<times> bool \<Rightarrow> stats_event" where
  "event_of (u, True) = ReqArrive (u * Second)"
| "event_of (u, False) = ReqLeave (u * Second)"

text \<open>The statistics hold exact integers: concurrency \<open>c\<close>, area \<open>A\<close> and \<open>W\<close> seconds up to second \<open>t\<close>.\<close>

definition holds :: "RequestStats \<Rightarrow> int \<Rightarrow> int \<Rightarrow> int \<Rightarrow> int \<Rightarrow> bool" where
  "holds s t c A W \<longleftrightarrow> lastChange s = t * Second \<and> concurrency s = Fin (of_int c)
     \<and> concurrencyIntegral s = Fin (of_int A) \<and> secondsInUse s = Fin (of_int W)"

lemma ordered_le: "ordered t h T \<Longrightarrow> t \<le> T"
  by (induction t h T rule: ordered.induct) auto

lemma time_Sub_seconds:
  "0 \<le> u - t \<Longrightarrow> u - t \<le> 2 ^ 32 \<Longrightarrow> time_Sub (u * Second) (t * Second) = (u - t) * Second"
  by (subst time_Sub_exact) (auto simp: Second_def algebra_simps)

lemma Move_holds:
  assumes "holds s t c A W" "0 < t" "t \<le> u" "u - t \<le> 2 ^ 32"
    and "\<bar>c * (u - t)\<bar> \<le> 2 ^ 53" "\<bar>A + c * (u - t)\<bar> \<le> 2 ^ 53" "\<bar>W + (u - t)\<bar> \<le> 2 ^ 53"
  shows "holds (Move (u * Second) s) u c (A + c * (u - t)) (W + (u - t))"
proof (cases "t = u")
  case True
  then have "Move (u * Second) s = s"
    using assms(1,2) by (simp add: Move_def holds_def IsZero_def time_Sub_def Second_def)
  with assms(1) True show ?thesis by simp
next
  case False
  let ?d = "u - t"
  have d: "duration_Seconds (?d * Second) = Fin (of_int ?d)"
    using assms(3,4) by (intro duration_Seconds_whole) auto
  have nz: "t * Second \<noteq> 0" and lt: "0 < ?d * Second"
    using assms(2,3) False by (simp_all add: Second_def)
  have sub: "time_Sub (u * Second) (t * Second) = ?d * Second"
    using assms(3,4) by (intro time_Sub_seconds) auto
  have "Move (u * Second) s = s\<lparr>secondsInUse := fadd (Fin (of_int W)) (Fin (of_int ?d)),
      concurrencyIntegral := fadd (Fin (of_int A)) (fmul (Fin (of_int c)) (Fin (of_int ?d))),
      lastChange := u * Second\<rparr>"
    using assms(1) nz lt by (simp add: Move_def holds_def IsZero_def Let_def sub d del: fadd.simps fmul.simps of_int_diff)
  then show ?thesis
    using assms(1,5-7) by (simp only: fmul_int fadd_int) (simp add: holds_def)
qed

lemma stats_step_holds:
  assumes "holds (Move (u * Second) s) u c A W" "\<bar>c\<bar> < 2 ^ 53"
  shows "holds (stats_step s (event_of (u, b))) u (c + step_of b) A W"
proof (cases b)
  case True
  with assms fadd_one [of c] show ?thesis
    by (simp add: holds_def step_of_def Stats_ReqIn_def Let_def del: fadd.simps of_int_add)
next
  case False
  with assms fsub_one [of c] show ?thesis
    by (simp add: holds_def step_of_def Stats_ReqOut_def Let_def del: of_int_diff)
qed

text \<open>The budget that keeps every intermediate value inside the significand.\<close>

definition fits :: "int \<Rightarrow> int \<Rightarrow> int \<Rightarrow> int \<Rightarrow> nat \<Rightarrow> int \<Rightarrow> bool" where
  "fits t c A W n T \<longleftrightarrow> \<bar>A\<bar> + (\<bar>c\<bar> + int n) * (T - t) \<le> 2 ^ 53 \<and> \<bar>c\<bar> + int n \<le> 2 ^ 53
     \<and> 0 \<le> W \<and> W + (T - t) \<le> 2 ^ 32"

lemma fits_move:
  assumes "fits t c A W n T" "t \<le> u" "u \<le> T"
  shows "\<bar>c * (u - t)\<bar> \<le> 2 ^ 53" "\<bar>A + c * (u - t)\<bar> \<le> 2 ^ 53" "\<bar>W + (u - t)\<bar> \<le> 2 ^ 53" "u - t \<le> 2 ^ 32"
    "\<bar>A + c * (u - t)\<bar> + (\<bar>c\<bar> + int n) * (T - u) \<le> 2 ^ 53"
proof -
  have eq: "(\<bar>c\<bar> + int n) * (T - t) = \<bar>c\<bar> * (u - t) + int n * (u - t) + (\<bar>c\<bar> + int n) * (T - u)"
    by (simp add: algebra_simps)
  have c: "\<bar>c * (u - t)\<bar> = \<bar>c\<bar> * (u - t)" using assms by (simp add: abs_mult)
  have nn: "0 \<le> int n * (u - t)" "0 \<le> (\<bar>c\<bar> + int n) * (T - u)" using assms by simp_all
  have tri: "\<bar>A + c * (u - t)\<bar> \<le> \<bar>A\<bar> + \<bar>c * (u - t)\<bar>" by (rule abs_triangle_ineq)
  from assms have b: "\<bar>A\<bar> + (\<bar>c\<bar> + int n) * (T - t) \<le> 2 ^ 53" "0 \<le> W" "W + (T - t) \<le> 2 ^ 32"
    by (auto simp: fits_def)
  show "\<bar>c * (u - t)\<bar> \<le> 2 ^ 53" "\<bar>A + c * (u - t)\<bar> \<le> 2 ^ 53"
    "\<bar>A + c * (u - t)\<bar> + (\<bar>c\<bar> + int n) * (T - u) \<le> 2 ^ 53"
    using b(1) eq c nn tri by linarith+
  show "\<bar>W + (u - t)\<bar> \<le> 2 ^ 53" "u - t \<le> 2 ^ 32"
    using b(2,3) assms(2,3) by auto
qed

lemma fits_step:
  assumes "fits t c A W (Suc n) T" "t \<le> u" "u \<le> T"
  shows "fits u (c + step_of b) (A + c * (u - t)) (W + (u - t)) n T"
proof -
  have "\<bar>c + step_of b\<bar> + int n \<le> \<bar>c\<bar> + int (Suc n)" by (simp add: step_of_def abs_if)
  moreover from this have "(\<bar>c + step_of b\<bar> + int n) * (T - u) \<le> (\<bar>c\<bar> + int (Suc n)) * (T - u)"
    using assms(3) by (intro mult_right_mono) auto
  ultimately show ?thesis
    using fits_move(5) [OF assms] assms unfolding fits_def by linarith
qed

lemma stats_run_holds:
  assumes "holds s t c A W" "0 < t" "ordered t h T" "fits t c A W (length h) T"
  shows "\<exists>t' c' A' W'. holds (stats_run s (map event_of h)) t' c' A' W' \<and> 0 < t' \<and> t' \<le> T
           \<and> fits t' c' A' W' 0 T \<and> A' + c' * (T - t') = A + area c t h T \<and> W' + (T - t') = W + (T - t)"
  using assms
proof (induction h arbitrary: s t c A W)
  case Nil
  show ?case
    by (rule exI [of _ t], rule exI [of _ c], rule exI [of _ A], rule exI [of _ W]) (use Nil in simp)
next
  case (Cons x h)
  obtain u b where x: "x = (u, b)" by force
  have le: "t \<le> u" "u \<le> T" "ordered u h T" using Cons.prems x ordered_le by auto
  let ?A = "A + c * (u - t)" and ?W = "W + (u - t)"
  note f = fits_move [OF Cons.prems(4) le(1,2)]
  have "holds (Move (u * Second) s) u c ?A ?W"
    using Cons.prems le f by (intro Move_holds) auto
  then have "holds (stats_step s (event_of (u, b))) u (c + step_of b) ?A ?W"
    using Cons.prems(4) by (intro stats_step_holds) (auto simp: fits_def)
  moreover have "fits u (c + step_of b) ?A ?W (length h) T"
    using Cons.prems(4) le by (intro fits_step) auto
  ultimately show ?case
    using Cons.IH [of "stats_step s (event_of (u, b))" u "c + step_of b" ?A ?W] Cons.prems(2) le
    by (simp add: x algebra_simps)
qed

lemma Report_after_Report:
  assumes "lastChange s \<le> t * Second" "concurrency s = Fin (of_int c)"
  shows "holds (snd (Stats_Report (t * Second) s)) t c 0 0"
    "requestCount (snd (Stats_Report (t * Second) s)) = Fin 0"
  using assms by (auto simp: Stats_Report_def Stats_reset_def holds_def Move_def Let_def)

lemma arrivals_event_of: "arrivals (map event_of h) = int (length (filter snd h))"
proof -
  have "filter (\<lambda>e. delta e = 1) (map event_of h) = map event_of (filter snd h)"
  proof (induction h)
    case (Cons x h)
    obtain u b where "x = (u, b)" by force
    with Cons show ?case by (cases b) simp_all
  qed simp
  then show ?thesis by (simp add: arrivals_def)
qed

section \<open>Properties\<close>

text \<open>
  The instant concurrency is the number of requests in flight: after any history of arrivals and
  departures, in any order and with any clock readings, \<open>InstantConcurrency\<close> is exactly the arrivals
  minus the departures (the float additions are exact up to \<open>2^53\<close> events).
\<close>

theorem instant_concurrency_counts:
  assumes "int (length es) \<le> 2 ^ 53"
  shows "InstantConcurrency (stats_run (NewRequestStats key) es) = Fin (of_int (in_flight es))"
  using stats_run_concurrency [of "NewRequestStats key" 0 es] assms
  by (simp add: InstantConcurrency_def NewRequestStats_def)

theorem instant_concurrency_counts_witness:
  "InstantConcurrency (stats_run (NewRequestStats ''k'') [ReqArrive 5, ReqArrive 9, ReqLeave 7]) = Fin 1"
  using instant_concurrency_counts [of "[ReqArrive 5, ReqArrive 9, ReqLeave 7]" "''k''"]
  by (simp add: in_flight_def)



end
