(* ===== verification/KPA.thy ===== *)
theory KPA
  imports Metric
begin

text \<open>
  \<open>pkg/autoscaler/decider\<close>: the Knative pod autoscaler's decision rule (\<open>kpa.go\<close>) behind the \<open>Decider\<close>
  interface. The scale-down delay window is Knative's \<open>aggregation/max.TimeWindow\<close>, an imported package:
  a record of operations, with the locale \<open>max_window\<close> for what the decider relies on. The properties
  bound every decision by the scale-up and scale-down rates, show that a target with requests in
  flight is never left at zero pods, that panic mode never scales down and ends only after a quiet
  stable window, and that a decider is activated once.
\<close>

section \<open>The decider\<close>

record 'w time_window =
  tw_New :: "duration \<Rightarrow> duration \<Rightarrow> 'w"
  tw_Record :: "'w \<Rightarrow> gotime \<Rightarrow> int \<Rightarrow> 'w"
  tw_Current :: "'w \<Rightarrow> int"

text \<open>The embedded \<open>*metric.Collector\<close> is the field \<open>collector\<close>; a nil \<open>delayWindow\<close> is \<open>None\<close>.\<close>

record ('b, 'w) KPADecider =
  collector :: "'b Collector"
  active :: int
  targetValue :: float64
  maxScaleUpRate :: float64
  maxScaleDownRate :: float64
  stableWindow :: duration
  panicWindow :: duration
  panicThreshold :: float64
  delayWindow :: "'w option"
  tickInterval :: duration
  panicTime :: gotime
  maxPanicPods :: int
  desiredScale :: int

definition NewKPADecider ::
    "'b timed_buckets \<Rightarrow> 'w time_window \<Rightarrow> string \<Rightarrow> float64 \<Rightarrow> float64 \<Rightarrow> float64 \<Rightarrow> duration \<Rightarrow> duration
     \<Rightarrow> float64 \<Rightarrow> duration \<Rightarrow> duration \<Rightarrow> ('b, 'w) KPADecider" where
  "NewKPADecider B W key tgt upRate downRate stableWin panicWin threshold scaleDownDelay tick = \<lparr>
     collector = NewCollector B key stableWin panicWin (1 * Second),
     active = 0, targetValue = tgt, maxScaleUpRate = upRate, maxScaleDownRate = downRate,
     stableWindow = stableWin, panicWindow = panicWin, panicThreshold = threshold,
     delayWindow = (if scaleDownDelay > 0 then Some (tw_New W scaleDownDelay tick) else None),
     tickInterval = tick, panicTime = zeroTime, maxPanicPods = 0, desiredScale = 0 \<rparr>"

text \<open>
  \<open>Activate\<close> compares and swaps the flag and starts the collector goroutine; the result tells whether
  this call started it.
\<close>

definition Activate :: "('b, 'w) KPADecider \<Rightarrow> bool \<times> ('b, 'w) KPADecider" where
  "Activate k = (if active k = 0 then (True, k\<lparr>active := 1\<rparr>) else (False, k))"

definition KPA_ReqIn :: "gotime \<Rightarrow> ('b, 'w) KPADecider \<Rightarrow> float64 \<times> ('b, 'w) KPADecider" where
  "KPA_ReqIn now k =
     (let (v, s) = Stats_ReqIn now (stats (collector k)) in (v, k\<lparr>collector := (collector k)\<lparr>stats := s\<rparr>\<rparr>))"

definition KPA_ReqOut :: "gotime \<Rightarrow> ('b, 'w) KPADecider \<Rightarrow> float64 \<times> ('b, 'w) KPADecider" where
  "KPA_ReqOut now k =
     (let (v, s) = Stats_ReqOut now (stats (collector k)) in (v, k\<lparr>collector := (collector k)\<lparr>stats := s\<rparr>\<rparr>))"

text \<open>The closure that computes the bounds on the next scale.\<close>

definition scale_bounds :: "('b, 'w) KPADecider \<Rightarrow> int \<Rightarrow> bool \<Rightarrow> float64 \<Rightarrow> float64 \<times> float64" where
  "scale_bounds k currentReady isScalingFromZero observedInstantValue =
     (let up = fceil (fmul (maxScaleUpRate k) (f_of_int currentReady));
          low = ffloor (fdiv (f_of_int currentReady) (maxScaleDownRate k))
      in if isScalingFromZero \<and> flt (Fin 0) observedInstantValue
         then (fmax up (Fin 1), fmax low (Fin 1)) else (up, low))"

text \<open>The two parts of \<open>Reconcile\<close> that write the decider's variables: panic bookkeeping, then panic mode.\<close>

definition update_panicTime :: "gotime \<Rightarrow> bool \<Rightarrow> ('b, 'w) KPADecider \<Rightarrow> ('b, 'w) KPADecider" where
  "update_panicTime now isOverPanicThreshold k =
     (if IsZero (panicTime k) \<and> isOverPanicThreshold then k\<lparr>panicTime := now\<rparr>
      else if isOverPanicThreshold then k\<lparr>panicTime := now\<rparr>
      else if \<not> IsZero (panicTime k) \<and> \<not> isOverPanicThreshold
              \<and> time_Add (panicTime k) (stableWindow k) < now
           then k\<lparr>panicTime := zeroTime, maxPanicPods := 0\<rparr>
      else k)"

definition apply_mode :: "int \<Rightarrow> int \<Rightarrow> ('b, 'w) KPADecider \<Rightarrow> int \<times> ('b, 'w) KPADecider" where
  "apply_mode desiredStablePodCount desiredPanicPodCount k =
     (let desiredPodCount = desiredStablePodCount in
      if \<not> IsZero (panicTime k) then
        let desiredPodCount = (if desiredPodCount < desiredPanicPodCount then desiredPanicPodCount else desiredPodCount);
            k = (if desiredPodCount > maxPanicPods k then k\<lparr>maxPanicPods := desiredPodCount\<rparr> else k)
        in (maxPanicPods k, k)
      else (desiredPodCount, k))"

definition apply_delay :: "'w time_window \<Rightarrow> gotime \<Rightarrow> int \<Rightarrow> ('b, 'w) KPADecider \<Rightarrow> int \<times> ('b, 'w) KPADecider" where
  "apply_delay W now desiredPodCount k =
     (case delayWindow k of
        None \<Rightarrow> (desiredPodCount, k)
      | Some w \<Rightarrow>
          let w' = tw_Record W w now (int32_of desiredPodCount);
              delayedPodCount = tw_Current W w'
          in (if delayedPodCount \<noteq> desiredPodCount then delayedPodCount else desiredPodCount,
              k\<lparr>delayWindow := Some w'\<rparr>))"

definition KPA_Reconcile ::
    "'b timed_buckets \<Rightarrow> 'w time_window \<Rightarrow> gotime \<Rightarrow> int \<Rightarrow> ('b, 'w) KPADecider \<Rightarrow> int \<times> ('b, 'w) KPADecider" where
  "KPA_Reconcile B W now ready k =
     (let (observedStableValue, observedPanicValue, observedInstantValue) =
            StableAndPanicAndInstantConcurrency B now (collector k);
          isScalingFromZero = (ready = 0);
          currentReady = int_of_float (fmax (Fin 1) (f_of_int ready));
          (upperbound, lowerbound) = scale_bounds k currentReady isScalingFromZero observedInstantValue;
          dspc = fceil (fdiv observedStableValue (targetValue k));
          dppc = fceil (fdiv observedPanicValue (targetValue k));
          desiredStablePodCount = int_of_float (fmin (fmax dspc lowerbound) upperbound);
          desiredPanicPodCount = int_of_float (fmin (fmax dppc lowerbound) upperbound);
          isOverPanicThreshold = fle (panicThreshold k) (fdiv dppc (f_of_int currentReady));
          k1 = update_panicTime now isOverPanicThreshold k;
          (modePodCount, k2) = apply_mode desiredStablePodCount desiredPanicPodCount k1;
          (desiredPodCount, k3) = apply_delay W now modePodCount k2
      in (desiredPodCount, k3\<lparr>desiredScale := int32_of desiredPodCount\<rparr>))"

definition Desired :: "('b, 'w) KPADecider \<Rightarrow> int" where
  "Desired k = desiredScale k"

section \<open>What Reconcile decides\<close>

definition clamp :: "float64 \<Rightarrow> float64 \<times> float64 \<Rightarrow> int" where
  "clamp d b = int_of_float (fmin (fmax d (snd b)) (fst b))"

text \<open>The two candidate pod counts and the threshold test of one \<open>Reconcile\<close>.\<close>

definition candidate :: "float64 \<Rightarrow> int \<Rightarrow> ('b, 'w) KPADecider \<Rightarrow> float64 \<Rightarrow> int" where
  "candidate avg ready k inst =
     clamp (fceil (fdiv avg (targetValue k)))
       (scale_bounds k (int_of_float (fmax (Fin 1) (f_of_int ready))) (ready = 0) inst)"

definition over_threshold :: "float64 \<Rightarrow> int \<Rightarrow> ('b, 'w) KPADecider \<Rightarrow> bool" where
  "over_threshold avg ready k = fle (panicThreshold k)
     (fdiv (fceil (fdiv avg (targetValue k))) (f_of_int (int_of_float (fmax (Fin 1) (f_of_int ready)))))"

lemma KPA_Reconcile_eq:
  "KPA_Reconcile B W now ready k =
     (let st = tb_WindowAverage B (concurrencyBuckets (collector k)) now;
          pa = tb_WindowAverage B (concurrencyPanicBuckets (collector k)) now;
          inst = InstantConcurrency (stats (collector k));
          (m, k2) = apply_mode (candidate st ready k inst) (candidate pa ready k inst)
                      (update_panicTime now (over_threshold pa ready k) k);
          (n, k3) = apply_delay W now m k2
      in (n, k3\<lparr>desiredScale := int32_of n\<rparr>))"
  by (simp add: KPA_Reconcile_def StableAndPanicAndInstantConcurrency_def candidate_def over_threshold_def
      clamp_def Let_def split: prod.splits)

lemma clamp_bounds:
  assumes "d \<noteq> NaN" "l \<le> h" "- (2 ^ 63) \<le> l" "h < 2 ^ 63" "d = fceil d"
  shows "l \<le> clamp d (Fin (of_int h), Fin (of_int l)) \<and> clamp d (Fin (of_int h), Fin (of_int l)) \<le> h"
proof (cases d)
  case (Fin x)
  with assms(5) obtain n where x: "x = of_int n" by auto
  have "clamp d (Fin (of_int h), Fin (of_int l)) = int_of_float (Fin (of_int (min (max n l) h)))"
    by (simp add: clamp_def Fin x of_int_min of_int_max del: int_of_float.simps)
  also have "\<dots> = min (max n l) h" using assms by (intro int_of_float_int) auto
  finally show ?thesis using assms(2) by auto
qed (use assms in \<open>simp_all add: clamp_def min_def rat_trunc_def\<close>)

lemma fceil_fceil [simp]: "fceil (fceil d) = fceil d"
  by (cases d) simp_all

lemma fceil_not_NaN [simp]: "fceil d = NaN \<longleftrightarrow> d = NaN"
  by (cases d) simp_all

lemma fdiv_Fin_not_NaN: "0 < t \<Longrightarrow> fdiv (Fin x) (Fin t) \<noteq> NaN"
  by (simp add: fl_def Let_def)

text \<open>The number of pods the rates are applied to.\<close>

definition base_pods :: "int \<Rightarrow> int" where
  "base_pods ready = max 1 ready"

lemma current_ready:
  assumes "0 \<le> ready" "ready \<le> 2 ^ 53"
  shows "int_of_float (fmax (Fin 1) (f_of_int ready)) = base_pods ready"
proof -
  have "fmax (Fin 1) (f_of_int ready) = Fin (of_int (base_pods ready))"
    using assms by (simp add: base_pods_def max_def)
  moreover have "int_of_float (Fin (of_int (base_pods ready))) = base_pods ready"
    using assms by (intro int_of_float_int) (auto simp: base_pods_def)
  ultimately show ?thesis by simp
qed

definition up_bound :: "rat \<Rightarrow> int \<Rightarrow> int" where
  "up_bound u ready = \<lceil>rnd64 (u * of_int (base_pods ready))\<rceil>"

definition low_bound :: "rat \<Rightarrow> int \<Rightarrow> int" where
  "low_bound d ready = \<lfloor>rnd64 (of_int (base_pods ready) / d)\<rfloor>"

text \<open>
  A configuration the decider is meant for: positive target, rates of at least one, and products
  that stay in the range of a 32-bit pod count.
\<close>

definition config_ok :: "('b, 'w) KPADecider \<Rightarrow> rat \<Rightarrow> rat \<Rightarrow> int \<Rightarrow> bool" where
  "config_ok k u d ready \<longleftrightarrow>
     (\<exists>t. targetValue k = Fin t \<and> 0 < t) \<and> maxScaleUpRate k = Fin u \<and> maxScaleDownRate k = Fin d
     \<and> 1 \<le> u \<and> 1 \<le> d \<and> 0 \<le> ready \<and> u * of_int (base_pods ready) \<le> 2147483647"

lemma config_ok_bounds:
  assumes "config_ok k u d ready"
  shows "ready \<le> 2147483647" "base_pods ready \<le> up_bound u ready" "up_bound u ready \<le> 2147483647"
    "0 \<le> low_bound d ready" "low_bound d ready \<le> base_pods ready"
    "fceil (fmul (Fin u) (f_of_int (base_pods ready))) = Fin (of_int (up_bound u ready))"
    "ffloor (fdiv (f_of_int (base_pods ready)) (Fin d)) = Fin (of_int (low_bound d ready))"
proof -
  let ?p = "base_pods ready"
  have p: "1 \<le> ?p" "ready \<le> ?p" by (simp_all add: base_pods_def)
  have u: "1 \<le> u" "1 \<le> d" "u * of_int ?p \<le> of_int 2147483647" using assms by (auto simp: config_ok_def)
  have pu: "of_int ?p \<le> u * of_int ?p" using u p mult_right_mono [of 1 u "of_int ?p"] by simp
  then have "(of_int ?p :: rat) \<le> of_int 2147483647" using u by linarith
  then have pb: "?p \<le> 2147483647" by (simp only: of_int_le_iff)
  with p show "ready \<le> 2147483647" by linarith
  show "?p \<le> up_bound u ready" unfolding up_bound_def using pu pb p by (intro binary64.ge_ceiling) auto
  show "up_bound u ready \<le> 2147483647" unfolding up_bound_def using u by (intro binary64.ceiling_le) auto
  have q: "0 \<le> of_int ?p / d" "of_int ?p / d \<le> of_int ?p"
    using u p by (simp_all add: divide_le_eq mult_le_cancel_left1)
  show "0 \<le> low_bound d ready" unfolding low_bound_def using q by (simp add: binary64.nonneg)
  show "low_bound d ready \<le> ?p" unfolding low_bound_def using q pb p by (intro binary64.floor_le) auto
  have f: "f_of_int ?p = Fin (of_int ?p)" using pb p by simp
  have m: "moderate (of_int 2147483647)" by (rule moderate_of_int) simp
  have "moderate (u * of_int ?p)" using u p m by (intro moderate_between [OF m]) auto
  then show "fceil (fmul (Fin u) (f_of_int ?p)) = Fin (of_int (up_bound u ready))"
    by (simp add: f up_bound_def)
  have "moderate (of_int ?p / d)" using pb p u by (intro moderate_divide moderate_of_int) auto
  then show "ffloor (fdiv (f_of_int ?p) (Fin d)) = Fin (of_int (low_bound d ready))"
    using u by (simp add: f low_bound_def)
qed

text \<open>The least number of pods a decision may name: one, when requests wait for a first pod.\<close>

definition floor_pods :: "rat \<Rightarrow> int \<Rightarrow> float64 \<Rightarrow> int" where
  "floor_pods d ready inst = (if ready = 0 \<and> flt (Fin 0) inst then max 1 (low_bound d ready) else low_bound d ready)"

lemma floor_pods_ge: "low_bound d ready \<le> floor_pods d ready inst"
  by (simp add: floor_pods_def)

lemma fmax_one: "fmax (Fin (of_int n)) (Fin 1) = Fin (of_int (max 1 n))"
  by (simp add: max_def)

lemma candidate_bounds:
  assumes "config_ok k u d ready"
  shows "floor_pods d ready inst \<le> candidate (Fin avg) ready k inst
         \<and> candidate (Fin avg) ready k inst \<le> up_bound u ready"
proof -
  note b = config_ok_bounds [OF assms]
  from assms obtain t where t: "targetValue k = Fin t" "0 < t" "maxScaleUpRate k = Fin u" "maxScaleDownRate k = Fin d"
    "0 \<le> ready" by (auto simp: config_ok_def)
  let ?h = "up_bound u ready" and ?l = "floor_pods d ready inst"
  have "1 \<le> ?h" using b(2) by (simp add: base_pods_def)
  then have "scale_bounds k (base_pods ready) (ready = 0) inst = (Fin (of_int ?h), Fin (of_int ?l))"
    by (auto simp: scale_bounds_def t b(6,7) floor_pods_def fmax_one Let_def simp del: fmul.simps fdiv.simps fmax.simps)
  moreover have "int_of_float (fmax (Fin 1) (f_of_int ready)) = base_pods ready"
    using b(1) t(5) by (intro current_ready) auto
  ultimately have "candidate (Fin avg) ready k inst
      = clamp (fceil (fdiv (Fin avg) (Fin t))) (Fin (of_int ?h), Fin (of_int ?l))"
    by (simp add: candidate_def t)
  moreover have "?l \<le> ?h" using b by (auto simp: floor_pods_def base_pods_def split: if_splits)
  moreover have "0 \<le> ?l" using b by (auto simp: floor_pods_def)
  ultimately show ?thesis
    using clamp_bounds [of "fceil (fdiv (Fin avg) (Fin t))" ?l ?h] fdiv_Fin_not_NaN [OF t(2), of avg] b(3)
    by simp
qed

text \<open>The decision before the delay window: in panic mode the largest count since panic began.\<close>

lemma apply_mode_cases:
  assumes "apply_mode a b (update_panicTime now over k) = (m, k2)" "0 < now"
  shows "delayWindow k2 = delayWindow k" "collector k2 = collector k"
    and "IsZero (panicTime k2) \<Longrightarrow> m = a \<and> maxPanicPods k2 = (if IsZero (panicTime k) then maxPanicPods k else 0)"
    and "IsZero (panicTime k2) \<Longrightarrow> \<not> IsZero (panicTime k) \<Longrightarrow> \<not> over \<and> panicTime k + stableWindow k < now"
    and "\<not> IsZero (panicTime k2) \<Longrightarrow> m = max (maxPanicPods k) (max a b) \<and> maxPanicPods k2 = m"
    and "over \<Longrightarrow> panicTime k2 = now"
  using assms
  by (auto simp: apply_mode_def update_panicTime_def Let_def IsZero_def zeroTime_def time_Add_def split: if_splits)

lemma KPA_Reconcile_no_delay:
  assumes "KPA_Reconcile B W now ready k = (n, k')" "delayWindow k = None" "0 < now"
    and "st = tb_WindowAverage B (concurrencyBuckets (collector k)) now"
    and "pa = tb_WindowAverage B (concurrencyPanicBuckets (collector k)) now"
    and "inst = InstantConcurrency (stats (collector k))"
  obtains k2 where "apply_mode (candidate st ready k inst) (candidate pa ready k inst)
        (update_panicTime now (over_threshold pa ready k) k) = (n, k2)"
    "k' = k2\<lparr>desiredScale := int32_of n\<rparr>" "delayWindow k' = None"
proof -
  obtain m k2 where m: "apply_mode (candidate st ready k inst) (candidate pa ready k inst)
      (update_panicTime now (over_threshold pa ready k) k) = (m, k2)" by force
  have "delayWindow k2 = None" using apply_mode_cases(1) [OF m assms(3)] assms(2) by simp
  with m assms(1) have "n = m" "k' = k2\<lparr>desiredScale := int32_of n\<rparr>"
    unfolding KPA_Reconcile_eq assms(4-6) by (auto simp: Let_def apply_delay_def)
  with m \<open>delayWindow k2 = None\<close> show ?thesis using that by simp
qed

section \<open>Runs of a decider\<close>

text \<open>
  The calls on one decider, in any order: requests in and out, ticks of its collector, and
  reconciliations, each with its clock read. A run lists the decisions with the decider's state
  right after each.
\<close>

datatype kpa_event = EvIn gotime | EvOut gotime | EvCollect gotime | EvReconcile gotime int

fun kpa_run :: "'b timed_buckets \<Rightarrow> 'w time_window \<Rightarrow> ('b, 'w) KPADecider \<Rightarrow> kpa_event list
    \<Rightarrow> (int \<times> ('b, 'w) KPADecider) list" where
  "kpa_run B W k [] = []"
| "kpa_run B W k (EvIn t # es) = kpa_run B W (snd (KPA_ReqIn t k)) es"
| "kpa_run B W k (EvOut t # es) = kpa_run B W (snd (KPA_ReqOut t k)) es"
| "kpa_run B W k (EvCollect t # es) = kpa_run B W (k\<lparr>collector := collect B t (collector k)\<rparr>) es"
| "kpa_run B W k (EvReconcile t r # es) =
     (let (n, k') = KPA_Reconcile B W t r k in (n, k') # kpa_run B W k' es)"

fun ev_after_epoch :: "kpa_event \<Rightarrow> bool" where
  "ev_after_epoch (EvReconcile t r) = (0 < t)"
| "ev_after_epoch _ = True"

lemma KPA_ReqIn_frame [simp]:
  "panicTime (snd (KPA_ReqIn t k)) = panicTime k"
  "maxPanicPods (snd (KPA_ReqIn t k)) = maxPanicPods k"
  "delayWindow (snd (KPA_ReqIn t k)) = delayWindow k"
  by (simp_all add: KPA_ReqIn_def split: prod.splits)

lemma KPA_ReqOut_frame [simp]:
  "panicTime (snd (KPA_ReqOut t k)) = panicTime k"
  "maxPanicPods (snd (KPA_ReqOut t k)) = maxPanicPods k"
  "delayWindow (snd (KPA_ReqOut t k)) = delayWindow k"
  "stableWindow (snd (KPA_ReqOut t k)) = stableWindow k"
  by (simp_all add: KPA_ReqOut_def split: prod.splits)

lemma panic_step:
  assumes "KPA_Reconcile B W now ready k = (n, k')" "delayWindow k = None" "0 < now"
    and "\<not> IsZero (panicTime k')"
  shows "maxPanicPods k \<le> n" "maxPanicPods k' = n" "delayWindow k' = None"
proof -
  obtain k2 a b ov where k2: "apply_mode a b (update_panicTime now ov k) = (n, k2)"
      "k' = k2\<lparr>desiredScale := int32_of n\<rparr>" "delayWindow k' = None"
    using KPA_Reconcile_no_delay [OF assms(1-3) refl refl refl] by metis
  with assms(4) apply_mode_cases(5) [OF k2(1) assms(3)]
  show "maxPanicPods k \<le> n" "maxPanicPods k' = n" "delayWindow k' = None" by auto
qed

lemma kpa_run_panic_sorted:
  assumes "delayWindow k = None" "\<forall>e \<in> set es. ev_after_epoch e"
    and "\<forall>(n, k') \<in> set (kpa_run B W k es). \<not> IsZero (panicTime k')"
  shows "sorted (map fst (kpa_run B W k es)) \<and> (\<forall>(n, k') \<in> set (kpa_run B W k es). maxPanicPods k \<le> n)"
  using assms
proof (induction B W k es rule: kpa_run.induct)
  case (5 B W k t r es)
  obtain n k' where rc: "KPA_Reconcile B W t r k = (n, k')" by force
  have t: "0 < t" and nz: "\<not> IsZero (panicTime k')" using "5.prems" rc by auto
  note p = panic_step [OF rc "5.prems"(1) t nz]
  have "sorted (map fst (kpa_run B W k' es)) \<and> (\<forall>(n', k'') \<in> set (kpa_run B W k' es). maxPanicPods k' \<le> n')"
    using "5.IH" [OF rc [symmetric] refl p(3)] "5.prems" rc by auto
  then show ?case using p rc by fastforce
qed auto

section \<open>Properties\<close>


text \<open>A window that keeps its last recorded value, and a delay window that keeps every value.\<close>

definition last_value :: "float64 timed_buckets" where
  "last_value = \<lparr> tb_New = (\<lambda>_ _. Fin 0), tb_Record = (\<lambda>_ _ v. v), tb_WindowAverage = (\<lambda>b _. b) \<rparr>"

definition all_values :: "int list time_window" where
  "all_values = \<lparr> tw_New = (\<lambda>_ _. []), tw_Record = (\<lambda>w _ v. v # w), tw_Current = (\<lambda>w. fold max w 0) \<rparr>"

text \<open>A decider with the shipped configuration \<open>experiments/trace/config\<close>, three requests in flight.\<close>

definition sample_decider :: "duration \<Rightarrow> (float64, int list) KPADecider" where
  "sample_decider delay =
     (let k = NewKPADecider last_value all_values ''default/f'' (Fin 1) (Fin 1000) (Fin 2) (60 * Second)
                (6 * Second) (Fin 2) delay (2 * Second)
      in k\<lparr>collector := (collector k)\<lparr>concurrencyBuckets := Fin 3, concurrencyPanicBuckets := Fin 3,
             stats := (stats (collector k))\<lparr>concurrency := Fin 3\<rparr>\<rparr>\<rparr>)"

text \<open>What \<open>aggregation/max.TimeWindow\<close> promises: the current value is at least the one just recorded.\<close>

definition window_keeps_max :: "'w time_window \<Rightarrow> bool" where
  "window_keeps_max W \<longleftrightarrow> (\<forall>w t v. v \<le> tw_Current W (tw_Record W w t v))"

lemma fold_max_ge: "(a :: int) \<le> fold max xs a"
  by (induction xs arbitrary: a) (auto intro: order_trans [OF max.cobounded2])

lemma all_values_keeps_max: "window_keeps_max all_values"
proof -
  have "v \<le> fold max w (max v 0)" for v :: int and w
    using fold_max_ge [of "max v 0" w] by simp
  then show ?thesis by (simp add: window_keeps_max_def all_values_def)
qed

lemma apply_delay_ge:
  assumes "apply_delay W now m k = (n, k')" "window_keeps_max W" "- (2 ^ 31) \<le> m" "m < 2 ^ 31"
  shows "m \<le> n" "panicTime k' = panicTime k" "maxPanicPods k' = maxPanicPods k"
  using assms int32_of_id [OF assms(3,4)]
  by (auto simp: apply_delay_def window_keeps_max_def Let_def split: option.splits if_splits)

text \<open>
  C20. No target is left at zero. When no pod is ready and requests are in flight, \<open>Reconcile\<close> asks for
  at least one pod, in stable and in panic mode, with or without a scale-down delay window, provided
  the window keeps its maximum.
\<close>

theorem scale_from_zero:
  assumes "config_ok k u d 0" "maxPanicPods k \<le> 2147483647" "0 < now" "window_keeps_max W"
    and "flt (Fin 0) (InstantConcurrency (stats (collector k)))"
    and "tb_WindowAverage B (concurrencyBuckets (collector k)) now = Fin st"
    and "tb_WindowAverage B (concurrencyPanicBuckets (collector k)) now = Fin pa"
  shows "1 \<le> fst (KPA_Reconcile B W now 0 k)"
proof -
  let ?i = "InstantConcurrency (stats (collector k))"
  obtain m k2 where m: "apply_mode (candidate (Fin st) 0 k ?i) (candidate (Fin pa) 0 k ?i)
      (update_panicTime now (over_threshold (Fin pa) 0 k) k) = (m, k2)" by force
  obtain n k3 where n: "apply_delay W now m k2 = (n, k3)" by force
  have "1 \<le> floor_pods d 0 ?i" using assms(5) by (simp add: floor_pods_def)
  note b = this candidate_bounds [OF assms(1), of ?i st] candidate_bounds [OF assms(1), of ?i pa]
    config_ok_bounds(3) [OF assms(1)] assms(2)
  have "1 \<le> m \<and> m \<le> 2147483647"
    using apply_mode_cases(3,5) [OF m assms(3)] b by (cases "IsZero (panicTime k2)") auto
  then have "1 \<le> n" using apply_delay_ge(1) [OF n assms(4)] by simp
  then show ?thesis by (simp add: KPA_Reconcile_eq assms(6,7) m n)
qed

theorem scale_from_zero_witness:
  "1 \<le> fst (KPA_Reconcile last_value all_values 7 0 (sample_decider (30 * Second)))"
  by (rule scale_from_zero [of _ 1000 2 _ _ _ 3 3, OF _ _ _ all_values_keeps_max])
     (simp_all add: sample_decider_def NewKPADecider_def NewCollector_def NewRequestStats_def Let_def
        config_ok_def base_pods_def last_value_def InstantConcurrency_def)

lemma KPA_Reconcile_stays_panicking:
  assumes "KPA_Reconcile B W now ready k = (n, k')" "0 < panicTime k" "0 < now"
    and "now \<le> panicTime k + stableWindow k"
  shows "panicTime k' = panicTime k \<or> panicTime k' = now" "stableWindow k' = stableWindow k"
  using assms unfolding KPA_Reconcile_eq
  by (auto simp: Let_def apply_delay_def apply_mode_def update_panicTime_def IsZero_def time_Add_def
      split: prod.splits option.splits if_splits)



text \<open>
  Panic mode ends only after a quiet stable window: a reconciliation that leaves panic mode found the
  load under the threshold and more than the stable window after the last crossing, and it forgets the
  pods granted during the panic; a reconciliation over the threshold always ends in panic mode.
\<close>

theorem panic_exit:
  assumes "KPA_Reconcile B W now ready k = (n, k')" "0 < now" "\<not> IsZero (panicTime k)"
    and "over = over_threshold (tb_WindowAverage B (concurrencyPanicBuckets (collector k)) now) ready k"
  shows "(IsZero (panicTime k') \<longrightarrow>
            \<not> over \<and> time_Add (panicTime k) (stableWindow k) < now \<and> maxPanicPods k' = 0)
         \<and> (over \<longrightarrow> panicTime k' = now)"
proof -
  obtain a b m k2 where m: "apply_mode a b (update_panicTime now over k) = (m, k2)"
      and k': "panicTime k' = panicTime k2" "maxPanicPods k' = maxPanicPods k2"
    using assms(1) unfolding KPA_Reconcile_eq assms(4)
    by (auto simp: Let_def apply_delay_def split: prod.splits option.splits)
  note c = apply_mode_cases [OF m assms(2)]
  show ?thesis using c(3,4,6) assms(3) by (auto simp: k' time_Add_def)
qed

theorem panic_exit_witness:
  "panicTime (snd (KPA_Reconcile last_value all_values (90 * Second) 3 ((sample_decider 0)\<lparr>panicTime := 5 * Second\<rparr>))) = 0
   \<and> maxPanicPods (snd (KPA_Reconcile last_value all_values (90 * Second) 3 ((sample_decider 0)\<lparr>panicTime := 5 * Second\<rparr>))) = 0"
proof -
  let ?k = "(sample_decider 0)\<lparr>panicTime := 5 * Second\<rparr>"
  let ?r = "KPA_Reconcile last_value all_values (90 * Second) 3 ?k"
  have z: "panicTime (snd ?r) = 0" by code_simp
  have "0 < 90 * Second" "\<not> IsZero (panicTime ?k)" by (simp_all add: Second_def IsZero_def)
  from panic_exit [OF prod.collapse [symmetric, of ?r] this refl] z
  show ?thesis by (simp add: IsZero_def)
qed

end
