(* ===== verification/Handler.thy ===== *)
theory Handler
  imports Workload
begin

text \<open>
  \<open>pkg/workload/handler\<close>: the function server that runs inside a workload pod. A call burns CPU
  (\<open>TraceFunctionExecution\<close>) or sleeps (\<open>EmptyFunctionExecution\<close>) for what is left of the requested
  milliseconds, in unsigned 32-bit arithmetic; the environment selects the mode and the calibration.
  Clock readings, environment variables and the host name are arguments. The properties give the
  exact amount of work of a call and show that the environment's numerals are read back.
\<close>

section \<open>Strings to integers\<close>

text \<open>\<open>strconv.Atoi\<close>: an optional sign, at least one digit, nothing else, within 64 bits.\<close>

definition digit_value :: "char \<Rightarrow> int option" where
  "digit_value c = (let n = of_char c - 48 in if 0 \<le> n \<and> n \<le> 9 then Some n else None)"

fun atoi_digits :: "int \<Rightarrow> string \<Rightarrow> int option" where
  "atoi_digits n [] = Some n"
| "atoi_digits n (c # cs) =
     (case digit_value c of None \<Rightarrow> None | Some d \<Rightarrow> atoi_digits (10 * n + d) cs)"

definition in_int64 :: "int \<Rightarrow> int option" where
  "in_int64 n = (if - (2 ^ 63) \<le> n \<and> n < 2 ^ 63 then Some n else None)"

definition atoi_nat :: "string \<Rightarrow> int option" where
  "atoi_nat s = (if s = [] then None else atoi_digits 0 s)"

fun atoi :: "string \<Rightarrow> int option" where
  "atoi (CHR ''-'' # s) = Option.bind (atoi_nat s) (\<lambda>n. in_int64 (- n))"
| "atoi (CHR ''+'' # s) = Option.bind (atoi_nat s) in_int64"
| "atoi s = Option.bind (atoi_nat s) in_int64"

section \<open>The handler\<close>

type_synonym u32 = "32 word"

definition EXEC_UNIT :: int where
  "EXEC_UNIT = 100"

datatype FunctionType = TraceFunction | SleepFunction

record handler_vars =
  hostname :: string
  funcType :: FunctionType
  iterationMultiplier :: int

definition initial_vars :: handler_vars where
  "initial_vars = \<lparr> hostname = '''', funcType = TraceFunction, iterationMultiplier = 102 \<rparr>"

text \<open>
  The busy loops do nothing observable but execute the square-root instruction: the model counts
  its executions.
\<close>

function takeSqrts_loop :: "int \<Rightarrow> int \<Rightarrow> int" where
  "takeSqrts_loop i ops = (if i < EXEC_UNIT then takeSqrts_loop (i + 1) (ops + 1) else ops)"
  by pat_completeness auto
termination
  by (relation "measure (\<lambda>(i, ops). nat (EXEC_UNIT - i))") auto

definition takeSqrts :: "int \<Rightarrow> int" where
  "takeSqrts ops = takeSqrts_loop 0 ops"

function busySpin_loop :: "int \<Rightarrow> int \<Rightarrow> int \<Rightarrow> int" where
  "busySpin_loop i totalIterations ops =
     (if i < totalIterations then busySpin_loop (i + 1) totalIterations (takeSqrts ops) else ops)"
  by pat_completeness auto
termination
  by (relation "measure (\<lambda>(i, n, ops). nat (n - i))") auto

definition busySpin :: "handler_vars \<Rightarrow> u32 \<Rightarrow> int" where
  "busySpin g runtimeMilliSec =
     (let totalIterations = int64_of (iterationMultiplier g * uint runtimeMilliSec)
      in busySpin_loop 0 totalIterations 0)"

declare takeSqrts_loop.simps [simp del] busySpin_loop.simps [simp del]

text \<open>\<open>uint32(time.Since(start).Milliseconds())\<close>; \<open>since\<close> is the duration the clock read gives.\<close>

definition consumedMilliSec :: "duration \<Rightarrow> u32" where
  "consumedMilliSec since = word_of_int (since sdiv Millisecond)"

text \<open>The result of an execution: the message and the square roots taken, or the time slept.\<close>

definition TraceFunctionExecution :: "handler_vars \<Rightarrow> duration \<Rightarrow> u32 \<Rightarrow> string \<times> int" where
  "TraceFunctionExecution g since requestedMilliSec =
     (let timeConsumedMilliSec = consumedMilliSec since in
      if timeConsumedMilliSec < requestedMilliSec then
        let requestedMilliSec = requestedMilliSec - timeConsumedMilliSec
        in (''OK - '' @ hostname g, if requestedMilliSec > 0 then busySpin g requestedMilliSec else 0)
      else ('''', 0))"

definition EmptyFunctionExecution :: "handler_vars \<Rightarrow> duration \<Rightarrow> u32 \<Rightarrow> string \<times> duration" where
  "EmptyFunctionExecution g since requestedMilliSec =
     (let timeConsumedMilliSec = consumedMilliSec since in
      if timeConsumedMilliSec < requestedMilliSec then
        let requestedMilliSec = requestedMilliSec - timeConsumedMilliSec
        in (''OK - EMPTY - '' @ hostname g,
            if requestedMilliSec > 0 then int64_of (uint requestedMilliSec * Millisecond) else 0)
      else ('''', 0))"

definition readEnvironmentalVariables ::
    "(string \<Rightarrow> string option) \<Rightarrow> string option \<Rightarrow> handler_vars \<Rightarrow> handler_vars" where
  "readEnvironmentalVariables lookupEnv osHostname g =
     (let g1 = (case lookupEnv ''ITERATIONS_MULTIPLIER'' of
                  None \<Rightarrow> g
                | Some v \<Rightarrow> (case atoi v of Some intv \<Rightarrow> g\<lparr>iterationMultiplier := intv\<rparr> | None \<Rightarrow> g));
          g2 = (case lookupEnv ''FUNCTION_TYPE'' of
                  None \<Rightarrow> g1
                | Some v \<Rightarrow> if v = ''trace'' then g1\<lparr>funcType := TraceFunction\<rparr>
                            else if v = ''sleep'' then g1\<lparr>funcType := SleepFunction\<rparr> else g1)
      in g2\<lparr>hostname := (case osHostname of Some h \<Rightarrow> h | None \<Rightarrow> ''Unknown host'')\<rparr>)"

section \<open>The server\<close>

record FaasRequest =
  Message :: string
  ReqRuntimeMilliSec :: u32

record FaasReply =
  ReplyMessage :: string
  DurationMicroSec :: u32

text \<open>
  \<open>Execute\<close> with its two clock reads: \<open>since1\<close> inside the handler function and \<open>since2\<close> for the reply.
\<close>

definition funcServer_Execute :: "handler_vars \<Rightarrow> FunctionType \<Rightarrow> duration \<Rightarrow> duration \<Rightarrow> FaasRequest \<Rightarrow> FaasReply" where
  "funcServer_Execute g mode since1 since2 req =
     (let msg = (if mode = TraceFunction then fst (TraceFunctionExecution g since1 (ReqRuntimeMilliSec req))
                 else fst (EmptyFunctionExecution g since1 (ReqRuntimeMilliSec req)))
      in \<lparr> ReplyMessage = msg, DurationMicroSec = word_of_int (since2 sdiv Microsecond) \<rparr>)"

section \<open>Lemmas\<close>

lemma takeSqrts_loop_eq: "i \<le> EXEC_UNIT \<Longrightarrow> takeSqrts_loop i ops = ops + (EXEC_UNIT - i)"
proof (induction i ops rule: takeSqrts_loop.induct)
  case (1 i ops)
  then show ?case by (cases "i < EXEC_UNIT") (simp_all add: takeSqrts_loop.simps [of i] takeSqrts_loop.simps [of EXEC_UNIT])
qed

lemma busySpin_loop_eq: "i \<le> n \<Longrightarrow> busySpin_loop i n ops = ops + EXEC_UNIT * (n - i)"
proof (induction i n ops rule: busySpin_loop.induct)
  case (1 i n ops)
  have "takeSqrts ops = ops + EXEC_UNIT" by (simp add: takeSqrts_def takeSqrts_loop_eq EXEC_UNIT_def)
  with 1 show ?case by (cases "i < n") (simp_all add: busySpin_loop.simps [of i] busySpin_loop.simps [of n] algebra_simps)
qed

lemma busySpin_eq:
  assumes "0 \<le> iterationMultiplier g" "iterationMultiplier g < 2 ^ 31"
  shows "busySpin g w = 100 * iterationMultiplier g * uint w"
proof -
  let ?n = "iterationMultiplier g * uint w"
  have "?n \<le> (2 ^ 31 - 1) * 2 ^ 32"
    using assms uint_bounded [of w] by (intro mult_mono) auto
  then have "int64_of ?n = ?n" using assms by (intro int64_of_id) (auto intro: order_trans [of _ 0])
  then show ?thesis using assms by (simp add: busySpin_def busySpin_loop_eq EXEC_UNIT_def)
qed

lemma uint_consumed:
  assumes "0 \<le> since" "since < 2 ^ 32 * Millisecond"
  shows "uint (consumedMilliSec since) = since div Millisecond"
proof -
  have "since sdiv Millisecond = since div Millisecond"
    using assms by (simp add: signed_divide_int_def Millisecond_def sgn_if)
  moreover have "since div Millisecond < 2 ^ 32" "0 \<le> since div Millisecond"
    using assms by (simp_all add: Millisecond_def pos_imp_zdiv_nonneg_iff div_less_iff_less_mult)
  ultimately show ?thesis by (simp add: consumedMilliSec_def uint_word_of_int)
qed

lemma digit_value_digit: "0 \<le> d \<Longrightarrow> d < 10 \<Longrightarrow> digit_value (digit d) = Some d"
  using of_char_digit [of d] by (simp add: digit_value_def)

lemma atoi_digits_snoc: "atoi_digits m s = Some n \<Longrightarrow> atoi_digits m (s @ [c])
    = (case digit_value c of None \<Rightarrow> None | Some d \<Rightarrow> Some (10 * n + d))"
  by (induction s arbitrary: m) (auto split: option.splits)

lemma atoi_dec_pos: "0 \<le> n \<Longrightarrow> atoi_digits 0 (dec_pos n) = Some n"
proof (induction n rule: dec_pos.induct)
  case (1 n)
  show ?case
  proof (cases "n < 10")
    case True
    with 1 show ?thesis by (simp add: dec_pos.simps [of n] digit_value_digit)
  next
    case False
    with 1 have "atoi_digits 0 (dec_pos (n div 10)) = Some (n div 10)" by simp
    with False show ?thesis by (simp add: dec_pos.simps [of n] atoi_digits_snoc digit_value_digit)
  qed
qed

lemma atoi_unsigned:
  "c \<noteq> CHR ''-'' \<Longrightarrow> c \<noteq> CHR ''+'' \<Longrightarrow> atoi (c # s) = Option.bind (atoi_nat (c # s)) in_int64"
  by (cases "c # s" rule: atoi.cases) auto

lemma atoi_dec: "0 \<le> n \<Longrightarrow> n < 2 ^ 63 \<Longrightarrow> atoi (dec n) = Some n"
proof -
  assume n: "0 \<le> n" "n < 2 ^ 63"
  have ne: "dec_pos n \<noteq> []" by (simp add: dec_pos.simps [of n])
  then obtain d s where ds: "dec n = digit d # s" "0 \<le> d" "d < 10"
    using dec_pos_digits [OF n(1), of "hd (dec_pos n)"] n(1)
    by (cases "dec_pos n") (auto simp: dec_def)
  have "(of_char (CHR ''-'') :: int) = 45" "(of_char (CHR ''+'') :: int) = 43" by simp_all
  then have "digit d \<noteq> CHR ''-''" "digit d \<noteq> CHR ''+''"
    using of_char_digit [OF ds(2,3)] ds(2) by auto
  then have "atoi (dec n) = Option.bind (atoi_nat (dec n)) in_int64"
    unfolding ds(1) by (rule atoi_unsigned)
  also have "atoi_nat (dec n) = Some n"
    using atoi_dec_pos [OF n(1)] n(1) ne by (simp add: atoi_nat_def dec_def)
  finally show ?thesis using n by (simp add: in_int64_def)
qed

section \<open>Properties\<close>

text \<open>
  The work of one call. With \<open>t\<close> nanoseconds already elapsed, a trace function burns exactly
  100 times the iteration multiplier square roots for each millisecond that is left of the request,
  and none (with an empty message) when nothing is left: the unsigned subtraction never wraps and the
  loop count never overflows.
\<close>

theorem trace_function_work:
  assumes "0 \<le> t" "t < 2 ^ 32 * Millisecond" "0 \<le> iterationMultiplier g" "iterationMultiplier g < 2 ^ 31"
  shows "TraceFunctionExecution g t req =
     (if t div Millisecond < uint req
      then (''OK - '' @ hostname g, 100 * iterationMultiplier g * (uint req - t div Millisecond))
      else ('''', 0))"
proof -
  note c = uint_consumed [OF assms(1,2)]
  have "uint (req - consumedMilliSec t) = uint req - t div Millisecond" if "t div Millisecond < uint req"
    using that by (simp add: uint_sub_if_size word_size c)
  then show ?thesis
    by (auto simp: TraceFunctionExecution_def Let_def word_less_def c busySpin_eq [OF assms(3,4)])
qed

theorem trace_function_work_witness:
  "TraceFunctionExecution initial_vars (3 * Millisecond) 10 = (''OK - '', 71400)"
  using trace_function_work [of "3 * Millisecond" initial_vars 10]
  by (simp add: initial_vars_def Millisecond_def)

text \<open>
  The environment configures the server: a decimal numeral in \<open>ITERATIONS_MULTIPLIER\<close> becomes the
  multiplier, \<open>trace\<close> and \<open>sleep\<close> in \<open>FUNCTION_TYPE\<close> select the mode, any other value keeps the default,
  and a failing host name lookup is replaced.
\<close>

theorem environment_read:
  assumes "lookupEnv ''ITERATIONS_MULTIPLIER'' = Some (dec n)" "0 \<le> n" "n < 2 ^ 63"
  shows "readEnvironmentalVariables lookupEnv host g =
    \<lparr> hostname = (case host of Some h \<Rightarrow> h | None \<Rightarrow> ''Unknown host''),
      funcType = (if lookupEnv ''FUNCTION_TYPE'' = Some ''trace'' then TraceFunction
                  else if lookupEnv ''FUNCTION_TYPE'' = Some ''sleep'' then SleepFunction else funcType g),
      iterationMultiplier = n \<rparr>"
  using assms atoi_dec [OF assms(2,3)]
  by (cases g) (auto simp: readEnvironmentalVariables_def Let_def split: option.splits)

theorem environment_read_witness:
  "iterationMultiplier (readEnvironmentalVariables [''ITERATIONS_MULTIPLIER'' \<mapsto> dec 102] None initial_vars) = 102"
  using environment_read [of "[''ITERATIONS_MULTIPLIER'' \<mapsto> dec 102]" 102 None initial_vars] by simp

end
