(* ===== verification/Backend.thy ===== *)
theory Backend
  imports Prelude Float64 Workload Handler
begin

text \<open>
  \<open>pkg/backend\<close>: the executors a dispatcher sends requests through. \<open>backend.go\<close> selects the framework
  and computes the request timeout, \<open>fake.go\<close> sleeps for the requested time, and \<open>grpc.go\<close> keeps a pool
  in which every connection occurs \<open>grpcExecutorConcurrency\<close> times. The pool is a \<open>chann.Chann\<close>
  (parameter \<open>C\<close>); the outcome of dialling, of the remote call and of each clock read are arguments.
  The locale \<open>executor_contract\<close> is the contract of the Go interface \<open>Executor\<close>: a response belongs to the
  request that was executed. A step relation interleaves the goroutines that share one pool.
\<close>

section \<open>Package variables and the request timeout\<close>

record backend_vars =
  framework :: string
  baseTimeout :: duration
  timeoutFactor :: float64

definition backend_init :: backend_vars where
  "backend_init = \<lparr> framework = '''', baseTimeout = 15 * Second, timeoutFactor = Fin 5 \<rparr>"

definition Use :: "string \<Rightarrow> backend_vars \<Rightarrow> backend_vars" where
  "Use f v = v\<lparr> framework := f \<rparr>"

definition WithSLO :: "float64 \<Rightarrow> backend_vars \<Rightarrow> backend_vars" where
  "WithSLO factor v = v\<lparr> timeoutFactor := factor \<rparr>"

definition Timeout :: "backend_vars \<Rightarrow> Request \<Rightarrow> duration" where
  "Timeout v req =
     (let slo = int64_of (int_of_float (fmul (f_of_int (DurationMilliSec req)) (timeoutFactor v)) * Millisecond)
      in if slo > baseTimeout v then slo else baseTimeout v)"

section \<open>The fake backend\<close>

text \<open>\<open>Duration.Microseconds()\<close>: integer division truncates towards zero.\<close>

definition duration_Microseconds :: "duration \<Rightarrow> int" where
  "duration_Microseconds d = d sdiv Microsecond"

text \<open>
  The three clock reads of \<open>Execute\<close>: at entry, after the sleep, and inside \<open>time.Since\<close>. What is known
  of them is that the sleep lasted at least the requested time.
\<close>

record fake_clock =
  fc_start :: gotime
  fc_recv :: gotime
  fc_since :: gotime

definition fake_sleep :: "Request \<Rightarrow> duration" where
  "fake_sleep req = int64_of (DurationMilliSec req * Millisecond)"

definition fake_Execute :: "fake_clock \<Rightarrow> Request \<Rightarrow> Response" where
  "fake_Execute clk req =
     (let start = fc_start clk;
          req' = req\<lparr> GatewaySendTS := start \<rparr>
      in (mk_Response req' SUCCESS)
           \<lparr> ResGatewayRecvTS := fc_recv clk,
             RuntimeMicroSec := duration_Microseconds (time_Sub (fc_since clk) start) \<rparr>)"

section \<open>The gRPC backend\<close>

definition grpcExecutorConcurrency :: nat where
  "grpcExecutorConcurrency = 50"

record 'c grpcBackend =
  endpoint :: string
  connectionPool :: 'c

text \<open>\<open>grpc.NewClient\<close> yields an error or a connection.\<close>

type_synonym 'conn dial = "string + 'conn"

fun pool_fill :: "('conn, 'c) chann \<Rightarrow> nat \<Rightarrow> 'conn \<Rightarrow> 'c \<Rightarrow> 'c" where
  "pool_fill C 0 conn p = p"
| "pool_fill C (Suc n) conn p = pool_fill C n conn (ch_send C p conn)"

fun newClient :: "('conn, 'c) chann \<Rightarrow> 'conn dial \<Rightarrow> 'c grpcBackend \<Rightarrow> string option \<times> 'c grpcBackend" where
  "newClient C (Inl err) g = (Some err, g)"
| "newClient C (Inr conn) g =
     (None, g\<lparr> connectionPool := pool_fill C grpcExecutorConcurrency conn (connectionPool g) \<rparr>)"

definition newGrpcBackend :: "('conn, 'c) chann \<Rightarrow> 'conn dial \<Rightarrow> string \<Rightarrow> string + 'c grpcBackend" where
  "newGrpcBackend C d ep =
     (case newClient C d \<lparr> endpoint = ep, connectionPool = ch_new C \<rparr> of
        (Some err, g) \<Rightarrow> Inl err
      | (None, g) \<Rightarrow> Inr g)"

text \<open>
  \<open>getOrCreateClient\<close>. The flag \<open>ready\<close> says whether the \<open>select\<close> finds its receive case ready; an
  unbounded \<open>chann\<close> hands items over in a goroutine of its own, so the \<open>default\<close> branch can be taken
  although items are queued. The receive after \<open>newClient\<close> blocks on an empty pool.
\<close>

datatype 'conn client = GotClient 'conn | DialError string | BlockedOnPool

definition select_client :: "('conn, 'c) chann \<Rightarrow> bool \<Rightarrow> 'c grpcBackend \<Rightarrow> ('conn \<times> 'c grpcBackend) option" where
  "select_client C ready g =
     (if ready then map_option (\<lambda>(conn, p). (conn, g\<lparr> connectionPool := p \<rparr>)) (ch_recv C (connectionPool g))
      else None)"

definition take_client :: "('conn, 'c) chann \<Rightarrow> 'c grpcBackend \<Rightarrow> 'conn client \<times> 'c grpcBackend" where
  "take_client C g =
     (case ch_recv C (connectionPool g) of
        Some (conn, p) \<Rightarrow> (GotClient conn, g\<lparr> connectionPool := p \<rparr>)
      | None \<Rightarrow> (BlockedOnPool, g))"

definition getOrCreateClient ::
    "('conn, 'c) chann \<Rightarrow> bool \<Rightarrow> 'conn dial \<Rightarrow> 'c grpcBackend \<Rightarrow> 'conn client \<times> 'c grpcBackend" where
  "getOrCreateClient C ready d g =
     (case select_client C ready g of
        Some (conn, g') \<Rightarrow> (GotClient conn, g')
      | None \<Rightarrow>
          (case newClient C d g of
             (Some err, g') \<Rightarrow> (DialError err, g')
           | (None, g') \<Rightarrow> take_client C g'))"

definition release :: "('conn, 'c) chann \<Rightarrow> 'conn \<Rightarrow> 'c grpcBackend \<Rightarrow> 'c grpcBackend" where
  "release C conn g = g\<lparr> connectionPool := ch_send C (connectionPool g) conn \<rparr>"

text \<open>
  The remote call returns a reply or an error whose status code \<open>grpcstatus.Convert\<close> reads;
  \<open>codes.DeadlineExceeded\<close> is 4.
\<close>

type_synonym rpc_result = "nat + FaasReply"

definition DeadlineExceeded :: nat where
  "DeadlineExceeded = 4"

definition faas_request :: "Request \<Rightarrow> FaasRequest" where
  "faas_request req = \<lparr> Message = ''request'', ReqRuntimeMilliSec = word_of_int (DurationMilliSec req) \<rparr>"

text \<open>The part of \<open>Execute\<close> between obtaining the connection and the deferred release.\<close>

definition grpc_call :: "gotime \<Rightarrow> gotime \<Rightarrow> (FaasRequest \<Rightarrow> rpc_result) \<Rightarrow> Request \<Rightarrow> Response" where
  "grpc_call sendTS recvTS rpc req =
     (let req' = req\<lparr> GatewaySendTS := sendTS \<rparr> in
      case rpc (faas_request req) of
        Inl code \<Rightarrow> mk_Response req' (if code = DeadlineExceeded then FAIL_TIMEOUT else FAIL_SEND)
      | Inr reply \<Rightarrow>
          (mk_Response req' SUCCESS)\<lparr> ResGatewayRecvTS := recvTS,
             RuntimeMicroSec := uint (DurationMicroSec reply) \<rparr>)"

record ('conn) grpc_env =
  ge_ready :: bool
  ge_dial :: "'conn dial"
  ge_sendTS :: gotime
  ge_recvTS :: gotime
  ge_rpc :: "FaasRequest \<Rightarrow> rpc_result"

definition grpc_Execute ::
    "('conn, 'c) chann \<Rightarrow> 'conn grpc_env \<Rightarrow> Request \<Rightarrow> 'c grpcBackend \<Rightarrow> Response option \<times> 'c grpcBackend" where
  "grpc_Execute C env req g =
     (case getOrCreateClient C (ge_ready env) (ge_dial env) g of
        (DialError err, g') \<Rightarrow> (Some (mk_Response req FAIL_CONNECT), g')
      | (BlockedOnPool, g') \<Rightarrow> (None, g')
      | (GotClient conn, g') \<Rightarrow>
          (Some (grpc_call (ge_sendTS env) (ge_recvTS env) (ge_rpc env) req), release C conn g'))"

text \<open>
  \<open>Close\<close> ranges over the pool before it closes it. The loop ends at a receive that finds the pool
  drained and closed; drained but open, it waits. The fuel counts loop iterations; the outcome names
  the connections closed so far.
\<close>

datatype ('conn, 'c) close_outcome = CloseReturned "'conn list" 'c | CloseWaiting "'conn list" 'c | OutOfFuel

fun grpc_Close_loop ::
    "('conn, 'c) chann \<Rightarrow> ('c \<Rightarrow> 'c) \<Rightarrow> ('c \<Rightarrow> bool) \<Rightarrow> nat \<Rightarrow> 'conn list \<Rightarrow> 'c \<Rightarrow> ('conn, 'c) close_outcome" where
  "grpc_Close_loop C closeCh isClosed 0 acc p = OutOfFuel"
| "grpc_Close_loop C closeCh isClosed (Suc n) acc p =
     (case ch_recv C p of
        Some (conn, p') \<Rightarrow> grpc_Close_loop C closeCh isClosed n (acc @ [conn]) p'
      | None \<Rightarrow> if isClosed p then CloseReturned acc (closeCh p) else CloseWaiting acc p)"

definition grpc_Close ::
    "('conn, 'c) chann \<Rightarrow> ('c \<Rightarrow> 'c) \<Rightarrow> ('c \<Rightarrow> bool) \<Rightarrow> nat \<Rightarrow> 'c grpcBackend \<Rightarrow> ('conn, 'c) close_outcome" where
  "grpc_Close C closeCh isClosed fuel g = grpc_Close_loop C closeCh isClosed fuel [] (connectionPool g)"

section \<open>Choosing a backend\<close>

datatype 'c Executor = FakeBackend | GrpcBackend "'c grpcBackend"

definition NewBackend ::
    "('conn, 'c) chann \<Rightarrow> backend_vars \<Rightarrow> 'conn dial \<Rightarrow> string \<Rightarrow> (string + 'c Executor) go" where
  "NewBackend C v d ep =
     (if framework v = ''fake'' then Ret (Inr FakeBackend)
      else if framework v = ''grpc'' then
        Ret (case newGrpcBackend C d ep of Inl err \<Rightarrow> Inl err | Inr g \<Rightarrow> Inr (GrpcBackend g))
      else Panic (''invalid framework: '' @ framework v))"

section \<open>The contract of an executor\<close>

text \<open>
  A response answers a request when it points to that request, whose only change is the stamp
  \<open>GatewaySendTS\<close>. Both backends keep the contract.
\<close>

definition answers :: "Request \<Rightarrow> Response \<Rightarrow> bool" where
  "answers req res \<longleftrightarrow> Source res = req\<lparr> GatewaySendTS := GatewaySendTS (Source res) \<rparr>"

text \<open>A request without the two stamps the gateway puts on it.\<close>

definition core :: "Request \<Rightarrow> Request" where
  "core req = req\<lparr> GatewayRecvTS := zeroTime, GatewaySendTS := zeroTime \<rparr>"

lemma core_stamps [simp]: "core (req\<lparr> GatewayRecvTS := t \<rparr>) = core req" "core (req\<lparr> GatewaySendTS := t \<rparr>) = core req"
  by (simp_all add: core_def)

lemma answers_core: "answers req res \<Longrightarrow> core (Source res) = core req"
  unfolding answers_def by (metis core_stamps(2))

locale executor_contract =
  fixes Execute :: "'env \<Rightarrow> 'st \<Rightarrow> Request \<Rightarrow> Response option \<times> 'st"
  assumes Execute_answers: "Execute env s req = (Some res, s') \<Longrightarrow> answers req res"
begin

lemma Execute_ID: "Execute env s req = (Some res, s') \<Longrightarrow> ID (Source res) = ID req"
  using Execute_answers unfolding answers_def by (metis Request.select_convs(1) Request.surjective Request.update_convs(6))

lemma Execute_Target: "Execute env s req = (Some res, s') \<Longrightarrow> Target (Source res) = Target req"
  using Execute_answers unfolding answers_def by (metis Request.select_convs(2) Request.surjective Request.update_convs(6))

end

lemma fake_Execute_answers: "answers req (fake_Execute clk req)"
  by (simp add: answers_def fake_Execute_def Let_def)

lemma grpc_call_answers: "answers req (grpc_call t u rpc req)"
  by (simp add: answers_def grpc_call_def Let_def split: sum.splits)

interpretation fake: executor_contract "\<lambda>clk s req. (Some (fake_Execute clk req), s)"
  by unfold_locales (auto simp: fake_Execute_answers)

lemma grpc_Execute_answers:
  assumes "grpc_Execute C env req g = (Some res, g')"
  shows "answers req res"
proof -
  have "answers req (mk_Response req FAIL_CONNECT)"
    by (simp add: answers_def)
  then show ?thesis
    using assms by (auto simp: grpc_Execute_def grpc_call_answers split: prod.splits client.splits)
qed

interpretation grpc: executor_contract "\<lambda>(C, env) g req. grpc_Execute C env req g"
  by unfold_locales (auto simp: grpc_Execute_answers)

section \<open>Timeouts\<close>

lemma duration_Microseconds_nonneg: "0 \<le> d \<Longrightarrow> duration_Microseconds d = d div 1000"
  by (cases "d = 0") (simp_all add: duration_Microseconds_def Microsecond_def signed_divide_int_def sgn_if)

lemma Timeout_ge: "baseTimeout v \<le> Timeout v req"
  by (simp add: Timeout_def Let_def)

lemma Timeout_in_range:
  assumes "timeoutFactor v = Fin (of_int k)" "\<bar>DurationMilliSec req\<bar> \<le> 2 ^ 53"
    and "\<bar>DurationMilliSec req * k\<bar> \<le> 9 * 10 ^ 12"
  shows "Timeout v req = max (baseTimeout v) (DurationMilliSec req * k * Millisecond)"
proof -
  define n where "n = DurationMilliSec req * k"
  have n: "\<bar>n\<bar> \<le> 9 * 10 ^ 12"
    using assms(3) by (simp add: n_def)
  have "fmul (f_of_int (DurationMilliSec req)) (timeoutFactor v) = Fin (of_int n)"
    using assms fmul_int [of "DurationMilliSec req" k] by (simp add: n_def)
  moreover have "int_of_float (Fin (of_int n)) = n"
    using n by (intro int_of_float_int) simp_all
  moreover have "int64_of (n * Millisecond) = n * Millisecond"
    using n by (intro int64_of_id) (simp_all add: Millisecond_def)
  ultimately show ?thesis
    unfolding n_def [symmetric] by (simp add: Timeout_def max_def Let_def del: int_of_float.simps)
qed

text \<open>
  A request timeout is never below 15 s, whatever factor \<open>WithSLO\<close> set; for an integral factor and
  durations whose product with it stays below the 64-bit range it is exactly the larger of 15 s and
  the factor times the requested duration.\<close>

theorem timeout_slo:
  fixes k :: int
  assumes "\<bar>DurationMilliSec req\<bar> \<le> 2 ^ 53" "\<bar>DurationMilliSec req * k\<bar> \<le> 9 * 10 ^ 12"
  shows "15 * Second \<le> Timeout (WithSLO factor (Use f backend_init)) req
    \<and> Timeout (WithSLO (Fin (of_int k)) (Use f backend_init)) req
        = max (15 * Second) (DurationMilliSec req * k * Millisecond)"
proof
  show "15 * Second \<le> Timeout (WithSLO factor (Use f backend_init)) req"
    using Timeout_ge [of "WithSLO factor (Use f backend_init)" req]
    by (simp add: WithSLO_def Use_def backend_init_def)
  show "Timeout (WithSLO (Fin (of_int k)) (Use f backend_init)) req
      = max (15 * Second) (DurationMilliSec req * k * Millisecond)"
    using Timeout_in_range [OF _ assms, of "WithSLO (Fin (of_int k)) (Use f backend_init)"]
    by (simp add: WithSLO_def Use_def backend_init_def)
qed

definition sample_request :: Request where
  "sample_request = \<lparr> ID = ''r1'', Target = ''default/f'', DurationMilliSec = 4000, ClientSendTS = 0,
     GatewayRecvTS = 0, GatewaySendTS = 0, ClientRelTime = 0, TraceRelTime = 0 \<rparr>"

lemma sample_request_sel [simp]:
  "ID sample_request = ''r1''" "Target sample_request = ''default/f''" "DurationMilliSec sample_request = 4000"
  by (simp_all add: sample_request_def)

theorem timeout_slo_witness:
  "Timeout (WithSLO (Fin 5) (Use ''grpc'' backend_init)) sample_request = 20 * Second"
  using timeout_slo [of sample_request 5 NaN "''grpc''"]
  by (simp add: Second_def Millisecond_def)

text \<open>
  The fake backend always succeeds, and once its sleep of the requested duration is over the
  runtime it reports covers that duration.\<close>

theorem fake_runtime:
  assumes "0 \<le> DurationMilliSec req" "DurationMilliSec req < 9 * 10 ^ 12"
    and "fc_start clk + fake_sleep req \<le> fc_recv clk" "fc_recv clk \<le> fc_since clk"
  shows "Status (fake_Execute clk req) = SUCCESS
    \<and> DurationMilliSec req * 1000 \<le> RuntimeMicroSec (fake_Execute clk req)"
proof -
  let ?d = "DurationMilliSec req * 10 ^ 6"
  have "fake_sleep req = ?d"
    using assms(1,2) by (simp add: fake_sleep_def Millisecond_def)
  then have d: "?d \<le> time_Sub (fc_since clk) (fc_start clk)"
    using assms by (simp add: time_Sub_def)
  then have "?d div 1000 \<le> time_Sub (fc_since clk) (fc_start clk) div 1000"
    by (intro zdiv_mono1) simp_all
  then have "DurationMilliSec req * 1000 \<le> duration_Microseconds (time_Sub (fc_since clk) (fc_start clk))"
    using d assms(1) by (subst duration_Microseconds_nonneg) simp_all
  then show ?thesis
    by (simp add: fake_Execute_def Let_def)
qed

theorem fake_runtime_witness:
  "RuntimeMicroSec (fake_Execute \<lparr> fc_start = 10, fc_recv = 10 + 4000 * 10 ^ 6, fc_since = 11 + 4000 * 10 ^ 6 \<rparr>
      sample_request) \<ge> 4000 * 1000"
  using fake_runtime [of sample_request
      "\<lparr> fc_start = 10, fc_recv = 10 + 4000 * 10 ^ 6, fc_since = 11 + 4000 * 10 ^ 6 \<rparr>"]
  by (simp add: fake_sleep_def Millisecond_def)

section \<open>Goroutines sharing one pool\<close>

text \<open>
  Every \<open>Execute\<close> on one backend runs in a goroutine of its own. A state has the shared pool, the
  number of goroutines blocked in the receive after \<open>newClient\<close>, the connections held by goroutines
  inside the remote call, and the connections dialled so far; a dial returns a new object.
\<close>

record ('conn, 'c) pool_state =
  ps_backend :: "'c grpcBackend"
  ps_waiting :: nat
  ps_holding :: "'conn list"
  ps_dialed :: "'conn list"

inductive pool_step :: "('conn, 'c) chann \<Rightarrow> ('conn, 'c) pool_state \<Rightarrow> ('conn, 'c) pool_state \<Rightarrow> bool"
  for C :: "('conn, 'c) chann" where
  select_hit: "select_client C True (ps_backend s) = Some (conn, g) \<Longrightarrow>
     pool_step C s (s\<lparr> ps_backend := g, ps_holding := conn # ps_holding s \<rparr>)"
| select_dial: "newClient C (Inr conn) (ps_backend s) = (None, g) \<Longrightarrow> conn \<notin> set (ps_dialed s) \<Longrightarrow>
     pool_step C s (s\<lparr> ps_backend := g, ps_waiting := ps_waiting s + 1, ps_dialed := conn # ps_dialed s \<rparr>)"
| select_fail: "newClient C (Inl err) (ps_backend s) = (Some err, g) \<Longrightarrow>
     pool_step C s (s\<lparr> ps_backend := g \<rparr>)"
| take_waiting: "0 < ps_waiting s \<Longrightarrow> take_client C (ps_backend s) = (GotClient conn, g) \<Longrightarrow>
     pool_step C s (s\<lparr> ps_backend := g, ps_waiting := ps_waiting s - 1, ps_holding := conn # ps_holding s \<rparr>)"
| finish: "conn \<in> set (ps_holding s) \<Longrightarrow>
     pool_step C s (s\<lparr> ps_backend := release C conn (ps_backend s), ps_holding := remove1 conn (ps_holding s) \<rparr>)"

inductive pool_reachable :: "('conn, 'c) chann \<Rightarrow> ('conn, 'c) pool_state \<Rightarrow> bool"
  for C :: "('conn, 'c) chann" where
  pool_start: "newGrpcBackend C (Inr conn) ep = Inr g \<Longrightarrow>
     pool_reachable C \<lparr> ps_backend = g, ps_waiting = 0, ps_holding = [], ps_dialed = [conn] \<rparr>"
| pool_next: "pool_reachable C s \<Longrightarrow> pool_step C s s' \<Longrightarrow> pool_reachable C s'"

lemma newGrpcBackend_Inr:
  "newGrpcBackend C (Inr conn) ep
     = Inr \<lparr> endpoint = ep, connectionPool = pool_fill C grpcExecutorConcurrency conn (ch_new C) \<rparr>"
  by (simp add: newGrpcBackend_def)

definition pool_uses :: "('c \<Rightarrow> 'conn list) \<Rightarrow> ('conn, 'c) pool_state \<Rightarrow> 'conn \<Rightarrow> nat" where
  "pool_uses items s conn =
     count_list (items (connectionPool (ps_backend s))) conn + count_list (ps_holding s) conn"

definition pool_inv :: "('c \<Rightarrow> 'conn list) \<Rightarrow> ('conn, 'c) pool_state \<Rightarrow> bool" where
  "pool_inv items s \<longleftrightarrow> ps_dialed s \<noteq> [] \<and>
     (\<forall>conn. pool_uses items s conn = (if conn \<in> set (ps_dialed s) then grpcExecutorConcurrency else 0))"

lemma count_list_replicate: "count_list (replicate n x) y = (if x = y then n else 0)"
  by (induction n) auto

lemma pool_inv_step:
  assumes "\<And>conn. pool_uses items s' conn = pool_uses items s conn"
    and "ps_dialed s' = ps_dialed s" "pool_inv items s"
  shows "pool_inv items s'"
  using assms by (simp add: pool_inv_def)

context unbounded_chan
begin

lemma items_pool_fill: "items (pool_fill C n conn p) = items p @ replicate n conn"
  by (induction n arbitrary: p) (simp_all add: replicate_append_same)

lemma items_select:
  "select_client C ready g = Some (conn, g') \<Longrightarrow> items (connectionPool g) = conn # items (connectionPool g')"
  by (auto simp: select_client_def split: if_splits dest: recv_SomeD)

lemma items_take:
  "take_client C g = (GotClient conn, g') \<Longrightarrow> items (connectionPool g) = conn # items (connectionPool g')"
  by (auto simp: take_client_def split: option.splits dest: recv_SomeD)

lemma pool_inv_preserved:
  assumes "pool_step C s s'" "pool_inv items s"
  shows "pool_inv items s'"
  using assms(1)
proof (cases rule: pool_step.cases)
  case (select_hit conn g)
  then show ?thesis
    by (intro pool_inv_step [OF _ _ assms(2)]) (auto simp: pool_uses_def dest: items_select)
next
  case (select_dial conn g)
  then have "items (connectionPool g) = items (connectionPool (ps_backend s)) @ replicate grpcExecutorConcurrency conn"
    by (auto simp: items_pool_fill)
  then have "pool_uses items s' x = pool_uses items s x + (if x = conn then grpcExecutorConcurrency else 0)" for x
    by (simp add: select_dial(1) pool_uses_def count_list_replicate)
  then show ?thesis
    using select_dial assms(2) by (auto simp: pool_inv_def)
next
  case (select_fail err g)
  then show ?thesis
    by (intro pool_inv_step [OF _ _ assms(2)]) (auto simp: pool_uses_def)
next
  case (take_waiting conn g)
  then show ?thesis
    by (intro pool_inv_step [OF _ _ assms(2)]) (auto simp: pool_uses_def dest: items_take)
next
  case (finish conn)
  moreover have "0 < count_list (ps_holding s) conn"
    using finish(2) by (metis count_list_0_iff gr0I)
  ultimately show ?thesis
    by (intro pool_inv_step [OF _ _ assms(2)]) (auto simp: release_def pool_uses_def)
qed

lemma pool_inv_reachable: "pool_reachable C s \<Longrightarrow> pool_inv items s"
proof (induction rule: pool_reachable.induct)
  case (pool_start conn ep g)
  then show ?case
    by (auto simp: newGrpcBackend_Inr pool_inv_def pool_uses_def items_pool_fill count_list_replicate)
qed (rule pool_inv_preserved)

lemma pool_not_stuck:
  assumes "pool_inv items s"
  shows "items (connectionPool (ps_backend s)) \<noteq> [] \<or> ps_holding s \<noteq> []"
proof -
  obtain conn where "conn \<in> set (ps_dialed s)"
    using assms by (cases "ps_dialed s") (auto simp: pool_inv_def)
  then have "pool_uses items s conn = grpcExecutorConcurrency"
    using assms by (simp add: pool_inv_def)
  then show ?thesis
    by (auto simp: pool_uses_def grpcExecutorConcurrency_def)
qed

lemma take_client_ready:
  "items (connectionPool g) \<noteq> [] \<Longrightarrow> \<exists>conn g'. take_client C g = (GotClient conn, g')"
  using recv_None_iff [of "connectionPool g"] by (auto simp: take_client_def split: option.splits)

end


definition sample_pool :: "(nat, nat list) pool_state" where
  "sample_pool = \<lparr> ps_backend = \<lparr> endpoint = ''10.0.0.1:80'', connectionPool = replicate 49 7 \<rparr>, ps_waiting = 0,
     ps_holding = [7], ps_dialed = [7] \<rparr>"


section \<open>Closing the pool\<close>

context closable_chan
begin

lemma Close_loop_waits:
  assumes "\<not> closed p" "length (items p) < fuel"
  shows "\<exists>p'. grpc_Close_loop C close closed fuel acc p = CloseWaiting (acc @ items p) p' \<and> items p' = []"
  using assms
proof (induction fuel arbitrary: acc p)
  case (Suc n)
  show ?case
  proof (cases "ch_recv C p")
    case None
    then show ?thesis
      using Suc.prems recv_None_iff [of p] by simp
  next
    case (Some r)
    then obtain conn p1 where r: "ch_recv C p = Some (conn, p1)" "items p = conn # items p1"
      using recv_SomeD by (cases r) auto
    then have "\<not> closed p1" "length (items p1) < n"
      using Suc.prems closed_recv [OF r(1)] by auto
    then show ?thesis
      using Suc.IH [of p1 "acc @ [conn]"] r by auto
  qed
qed simp

end

text \<open>
  C35. \<open>Close\<close> of a gRPC backend whose pool nobody else closes never returns: with fuel for every queued
  connection it has closed all of them and then waits on the empty pool, so the statement after the
  loop, \<open>connectionPool.Close()\<close>, is not reached.\<close>

theorem close_never_returns:
  assumes "closable_chan C items closeCh isClosed" "\<not> isClosed (connectionPool g)"
    and "length (items (connectionPool g)) < fuel"
  shows "\<exists>p. grpc_Close C closeCh isClosed fuel g = CloseWaiting (items (connectionPool g)) p \<and> items p = []"
  using closable_chan.Close_loop_waits [OF assms, of "[]"] by (simp add: grpc_Close_def)

theorem close_never_returns_witness:
  "\<exists>p. grpc_Close gochan_c (\<lambda>c. (fst c, True)) snd 9 \<lparr> endpoint = ''e'', connectionPool = ([1 :: nat, 1], False) \<rparr>
     = CloseWaiting [1, 1] p \<and> fst p = []"
  using close_never_returns [OF native_c.closable_chan_axioms,
      of "\<lparr> endpoint = ''e'', connectionPool = ([1 :: nat, 1], False) \<rparr>" 9]
  by simp

section \<open>Choosing and executing\<close>

text \<open>
  \<open>NewBackend\<close> panics exactly on a framework other than \<open>fake\<close> and \<open>grpc\<close>, and fails exactly when the
  gRPC dial fails; a response of the gRPC backend is \<open>SUCCESS\<close> only when the remote call replied,
  \<open>FAIL_TIMEOUT\<close> only on an exceeded deadline and \<open>FAIL_CONNECT\<close> only when no connection could be made.\<close>

theorem backend_errors:
  "(panics (NewBackend C v d ep) \<longleftrightarrow> framework v \<noteq> ''fake'' \<and> framework v \<noteq> ''grpc'')
   \<and> (NewBackend C v d ep = Ret (Inl err) \<longleftrightarrow> framework v = ''grpc'' \<and> d = Inl err)
   \<and> map_option Status (fst (grpc_Execute C env req g)) =
       (case fst (getOrCreateClient C (ge_ready env) (ge_dial env) g) of
          DialError e \<Rightarrow> Some FAIL_CONNECT
        | BlockedOnPool \<Rightarrow> None
        | GotClient conn \<Rightarrow> Some (case ge_rpc env (faas_request req) of
             Inr reply \<Rightarrow> SUCCESS
           | Inl code \<Rightarrow> if code = 4 then FAIL_TIMEOUT else FAIL_SEND))"
proof (intro conjI)
  show "panics (NewBackend C v d ep) \<longleftrightarrow> framework v \<noteq> ''fake'' \<and> framework v \<noteq> ''grpc''"
    by (simp add: NewBackend_def)
  show "NewBackend C v d ep = Ret (Inl err) \<longleftrightarrow> framework v = ''grpc'' \<and> d = Inl err"
    by (cases d) (auto simp: NewBackend_def newGrpcBackend_def)
  show "map_option Status (fst (grpc_Execute C env req g)) =
       (case fst (getOrCreateClient C (ge_ready env) (ge_dial env) g) of
          DialError e \<Rightarrow> Some FAIL_CONNECT
        | BlockedOnPool \<Rightarrow> None
        | GotClient conn \<Rightarrow> Some (case ge_rpc env (faas_request req) of
             Inr reply \<Rightarrow> SUCCESS
           | Inl code \<Rightarrow> if code = 4 then FAIL_TIMEOUT else FAIL_SEND))"
    by (auto simp: grpc_Execute_def grpc_call_def Let_def DeadlineExceeded_def
        split: prod.splits client.splits sum.splits)
qed

end
