(* ===== verification/Dispatcher.thy ===== *)
theory Dispatcher
  imports Backend
begin

text \<open>
  \<open>pkg/gateway/dispatcher\<close>: the goroutines that take requests from a target's queue, wait for a free pod,
  execute and answer. \<open>pod.go\<close> keeps a map from endpoint keys to executors (a \<open>SharedMap\<close>, parameter \<open>S\<close>)
  and a channel of tokens (a \<open>chann.Chann\<close>, parameter \<open>T\<close>), one token per free slot of a pod;
  \<open>ksvc.go\<close> forwards to a single Knative endpoint. The system of all goroutines of one dispatcher, the
  requests in their \<open>select\<close> loops, the requests being executed and the parallel additions of a running
  \<open>Reconcile\<close>, is an executable step function; the invariants are proved over every interleaving.
  The locale \<open>request_dispatcher\<close> is what the gateway relies on, and both dispatchers provide it.
\<close>

section \<open>The pod dispatcher\<close>

definition podServiceConcurrency :: nat where
  "podServiceConcurrency = 1"

definition WorkloadServicePort :: string where
  "WorkloadServicePort = '':80''"

definition podEndpointKeyFunc :: "'a Pod_scheme \<Rightarrow> string \<times> string" where
  "podEndpointKeyFunc pod =
     (let ep = PodIP pod @ WorkloadServicePort in (Name pod @ ''@'' @ ep, ep))"

record ('m, 't) PodDispatcher =
  pd_target :: string
  pd_timeout :: duration
  endpoints :: 'm
  tokens :: 't

definition NewPodDispatcher ::
    "('m, 'e) sharedMap \<Rightarrow> (string, 't) chann \<Rightarrow> string \<Rightarrow> duration \<Rightarrow> ('m, 't) PodDispatcher" where
  "NewPodDispatcher S T tgt tmo =
     \<lparr> pd_target = tgt, pd_timeout = tmo, endpoints = sm_new S, tokens = ch_new T \<rparr>"

text \<open>
  One iteration of the loop in \<open>dispatch\<close>: the \<open>select\<close> takes the case \<open>Done\<close> of the timeout context or
  receives a token; the token of a removed pod is discarded.
\<close>

datatype select_case = CtxDone | TokenOut

datatype 'e dispatch_result = Dispatched string 'e | NoExecutor | Continue | NoToken

definition dispatch_iter ::
    "('m, 'e) sharedMap \<Rightarrow> (string, 't) chann \<Rightarrow> select_case \<Rightarrow> ('m, 't) PodDispatcher
       \<Rightarrow> 'e dispatch_result \<times> ('m, 't) PodDispatcher" where
  "dispatch_iter S T sel pd =
     (case sel of
        CtxDone \<Rightarrow> (NoExecutor, pd)
      | TokenOut \<Rightarrow>
          (case ch_recv T (tokens pd) of
             None \<Rightarrow> (NoToken, pd)
           | Some (key, t) \<Rightarrow>
               (case sm_Get S (endpoints pd) key of
                  None \<Rightarrow> (Continue, pd\<lparr> tokens := t \<rparr>)
                | Some executor \<Rightarrow> (Dispatched key executor, pd\<lparr> tokens := t \<rparr>))))"

text \<open>The whole loop on the cases its successive \<open>select\<close> statements take.\<close>

fun dispatch ::
    "('m, 'e) sharedMap \<Rightarrow> (string, 't) chann \<Rightarrow> select_case list \<Rightarrow> ('m, 't) PodDispatcher
       \<Rightarrow> 'e dispatch_result \<times> ('m, 't) PodDispatcher" where
  "dispatch S T [] pd = (Continue, pd)"
| "dispatch S T (sel # sels) pd =
     (case dispatch_iter S T sel pd of
        (Dispatched key executor, pd') \<Rightarrow> (Dispatched key executor, pd')
      | (NoExecutor, pd') \<Rightarrow> (NoExecutor, pd')
      | (_, pd') \<Rightarrow> dispatch S T sels pd')"

text \<open>The end of \<open>Dispatch\<close>: without an executor a failure is sent; after \<open>Execute\<close> the token goes back first.\<close>

definition Dispatch_fail :: "Request \<Rightarrow> Response" where
  "Dispatch_fail req = mk_Response req FAIL_DISPATCH"

definition Dispatch_done :: "(string, 't) chann \<Rightarrow> string \<Rightarrow> ('m, 't) PodDispatcher \<Rightarrow> ('m, 't) PodDispatcher" where
  "Dispatch_done T key pd = pd\<lparr> tokens := ch_send T (tokens pd) key \<rparr>"

text \<open>One \<open>Dispatch\<close> run alone: the response it sends, \<open>None\<close> while it still waits.\<close>

definition Dispatch ::
    "('m, 'e) sharedMap \<Rightarrow> (string, 't) chann \<Rightarrow> backend_vars \<Rightarrow> select_case list
       \<Rightarrow> (duration \<Rightarrow> 'e \<Rightarrow> Request \<Rightarrow> Response) \<Rightarrow> Request
       \<Rightarrow> ('m, 't) PodDispatcher \<Rightarrow> Response option \<times> ('m, 't) PodDispatcher" where
  "Dispatch S T v sels Execute req pd =
     (case dispatch S T sels pd of
        (NoExecutor, pd') \<Rightarrow> (Some (Dispatch_fail req), pd')
      | (Dispatched key executor, pd') \<Rightarrow> (Some (Execute (Timeout v req) executor req), Dispatch_done T key pd')
      | (_, pd') \<Rightarrow> (None, pd'))"

section \<open>Reconciling the endpoints\<close>

text \<open>\<open>make(map[string]string)\<close> filled from the ready pods.\<close>

definition ready_endpoints :: "'a Pod_scheme list \<Rightarrow> (string, string) gomap" where
  "ready_endpoints readyPods =
     foldl (\<lambda>m pod. let (key, ep) = podEndpointKeyFunc pod in gm_set m key ep) [] readyPods"

definition endpoint_diff :: "(string, string) gomap \<Rightarrow> (string, 'e) gomap \<Rightarrow> string list \<times> string list" where
  "endpoint_diff eps existing =
     (filter (\<lambda>key. gm_get existing key = None) (gm_keys eps),
      filter (\<lambda>key. gm_get eps key = None) (gm_keys existing))"

text \<open>
  The shared-memory operations of \<open>Reconcile\<close>, grouped by the goroutine that performs them: one per
  added key, and the deletions in the calling goroutine.
\<close>

datatype 'e rop = SetEndpoint string 'e | PutToken string | DelEndpoint string

definition exec_rop ::
    "('m, 'e) sharedMap \<Rightarrow> (string, 't) chann \<Rightarrow> 'e rop \<Rightarrow> ('m, 't) PodDispatcher \<Rightarrow> 'e list \<times> ('m, 't) PodDispatcher" where
  "exec_rop S T rop pd =
     (case rop of
        SetEndpoint key executor \<Rightarrow> ([], pd\<lparr> endpoints := sm_Set S (endpoints pd) key executor \<rparr>)
      | PutToken key \<Rightarrow> ([], pd\<lparr> tokens := ch_send T (tokens pd) key \<rparr>)
      | DelEndpoint key \<Rightarrow>
          (case sm_Del S (endpoints pd) key of
             (Some executor, m) \<Rightarrow> ([executor], pd\<lparr> endpoints := m \<rparr>)
           | (None, m) \<Rightarrow> ([], pd\<lparr> endpoints := m \<rparr>)))"

type_synonym 'e backends = "string \<Rightarrow> (string + 'e) go"

definition add_rops :: "'e backends \<Rightarrow> (string, string) gomap \<Rightarrow> string \<Rightarrow> 'e rop list go" where
  "add_rops mk eps key =
     (case mk (label eps key) of
        Panic m \<Rightarrow> Panic m
      | Ret (Inl err) \<Rightarrow> Ret []
      | Ret (Inr executor) \<Rightarrow> Ret (SetEndpoint key executor # replicate podServiceConcurrency (PutToken key)))"

definition add_err :: "'e backends \<Rightarrow> (string, string) gomap \<Rightarrow> string \<Rightarrow> string list" where
  "add_err mk eps key =
     (case mk (label eps key) of
        Ret (Inl err) \<Rightarrow> [''failed to start backend: '' @ err]
      | _ \<Rightarrow> [])"

fun go_all :: "'a go list \<Rightarrow> 'a list go" where
  "go_all [] = Ret []"
| "go_all (x # xs) = go_bind x (\<lambda>y. go_bind (go_all xs) (\<lambda>ys. Ret (y # ys)))"

definition reconcile_threads ::
    "('m, 'e) sharedMap \<Rightarrow> 'e backends \<Rightarrow> 'a Pod_scheme list \<Rightarrow> ('m, 't) PodDispatcher \<Rightarrow> 'e rop list list go" where
  "reconcile_threads S mk readyPods pd =
     (let eps = ready_endpoints readyPods;
          (add, del) = endpoint_diff eps (sm_Inner S (endpoints pd))
      in go_bind (go_all (map (add_rops mk eps) add)) (\<lambda>ts. Ret (ts @ [map DelEndpoint del])))"

definition reconcile_errs ::
    "('m, 'e) sharedMap \<Rightarrow> 'e backends \<Rightarrow> 'a Pod_scheme list \<Rightarrow> ('m, 't) PodDispatcher \<Rightarrow> string list" where
  "reconcile_errs S mk readyPods pd =
     (let eps = ready_endpoints readyPods
      in concat (map (add_err mk eps) (fst (endpoint_diff eps (sm_Inner S (endpoints pd))))))"

text \<open>
  \<open>Reconcile\<close> run alone: the executors it closes, its aggregated errors (\<open>NewAggregate\<close> of an empty list
  is nil) and the new state.
\<close>

fun exec_rops ::
    "('m, 'e) sharedMap \<Rightarrow> (string, 't) chann \<Rightarrow> 'e rop list \<Rightarrow> ('m, 't) PodDispatcher \<Rightarrow> 'e list \<times> ('m, 't) PodDispatcher" where
  "exec_rops S T [] pd = ([], pd)"
| "exec_rops S T (r # rs) pd =
     (let (c1, pd1) = exec_rop S T r pd; (c2, pd2) = exec_rops S T rs pd1 in (c1 @ c2, pd2))"

definition Reconcile ::
    "('m, 'e) sharedMap \<Rightarrow> (string, 't) chann \<Rightarrow> 'e backends \<Rightarrow> 'a Pod_scheme list \<Rightarrow> ('m, 't) PodDispatcher
       \<Rightarrow> (string list \<times> 'e list \<times> ('m, 't) PodDispatcher) go" where
  "Reconcile S T mk readyPods pd =
     go_bind (reconcile_threads S mk readyPods pd)
       (\<lambda>ts. Ret (reconcile_errs S mk readyPods pd, exec_rops S T (concat ts) pd))"

section \<open>The Knative service dispatcher\<close>

definition trimPrefix :: "string \<Rightarrow> string \<Rightarrow> string" where
  "trimPrefix s p = (if take (length p) s = p then drop (length p) s else s)"

definition kourierGatewayServicePort :: string where
  "kourierGatewayServicePort = '':80''"

record 'e KnServiceDispatcher =
  kd_target :: string
  kd_timeout :: duration
  kd_endpoint :: string
  kd_executor :: 'e

definition NewKnServiceDispatcher ::
    "'e backends \<Rightarrow> string \<Rightarrow> duration \<Rightarrow> string \<Rightarrow> (string + 'e KnServiceDispatcher) go" where
  "NewKnServiceDispatcher mk tgt tmo url =
     (let ep = trimPrefix url ''http://'' @ kourierGatewayServicePort in
      go_bind (mk ep) (\<lambda>r. Ret (case r of
          Inl err \<Rightarrow> Inl (''failed to start backend: '' @ err)
        | Inr executor \<Rightarrow>
            Inr \<lparr> kd_target = tgt, kd_timeout = tmo, kd_endpoint = ep, kd_executor = executor \<rparr>)))"

definition Kn_deadline :: "backend_vars \<Rightarrow> 'e KnServiceDispatcher \<Rightarrow> Request \<Rightarrow> duration" where
  "Kn_deadline v kd req = int64_of (kd_timeout kd + Timeout v req)"

definition Kn_Dispatch ::
    "backend_vars \<Rightarrow> (duration \<Rightarrow> 'e \<Rightarrow> Request \<Rightarrow> Response) \<Rightarrow> 'e KnServiceDispatcher \<Rightarrow> Request \<Rightarrow> Response" where
  "Kn_Dispatch v Execute kd req = Execute (Kn_deadline v kd req) (kd_executor kd) req"

section \<open>All goroutines of a pod dispatcher\<close>

text \<open>
  The queue behind \<open>reqChan\<close>, the requests in the loop of \<open>dispatch\<close>, the requests inside \<open>Execute\<close> with
  their token and executor, the responses sent to \<open>resChan\<close>, the goroutines of a running \<open>Reconcile\<close>,
  the executors handed to \<open>Close\<close>, and, for the statements only, the keys added so far.
\<close>

record ('m, 't, 'e) disp_sys =
  ds_pd :: "('m, 't) PodDispatcher"
  ds_reqs :: "Request list"
  ds_waiting :: "Request list"
  ds_running :: "(string \<times> 'e \<times> Request) list"
  ds_resps :: "Response list"
  ds_threads :: "'e rop list list"
  ds_closing :: "'e list"
  ds_added :: "string list"

definition ds_init :: "('m, 't) PodDispatcher \<Rightarrow> ('m, 't, 'e) disp_sys" where
  "ds_init pd = \<lparr> ds_pd = pd, ds_reqs = [], ds_waiting = [], ds_running = [], ds_resps = [],
     ds_threads = [], ds_closing = [], ds_added = [] \<rparr>"

datatype 'e disp_event =
  Enqueue Request | Accept | Iter nat select_case | Finish nat Response
| StartReconcile "Pod list" "'e backends" | RunOp nat

definition del_nth :: "nat \<Rightarrow> 'a list \<Rightarrow> 'a list" where
  "del_nth i xs = take i xs @ drop (Suc i) xs"

fun set_key :: "'e rop \<Rightarrow> string list" where
  "set_key (SetEndpoint key e) = [key]"
| "set_key _ = []"

text \<open>
  One step of one goroutine; \<open>None\<close> when it cannot take it. \<open>Accept\<close> is an iteration of \<open>Run\<close>, \<open>Iter\<close> an
  iteration of \<open>dispatch\<close> and what follows it when no executor is found, \<open>Finish\<close> the return of
  \<open>Execute\<close> and the two sends after it (on unbounded channels, so they do not wait),
  \<open>StartReconcile\<close> and \<open>RunOp\<close> the beginning and the parallel operations of \<open>Reconcile\<close>, which the
  controller runs one at a time per target.
\<close>

fun ds_step ::
    "('m, 'e) sharedMap \<Rightarrow> (string, 't) chann \<Rightarrow> 'e disp_event \<Rightarrow> ('m, 't, 'e) disp_sys \<Rightarrow> ('m, 't, 'e) disp_sys option" where
  "ds_step S T (Enqueue req) s = Some (s\<lparr> ds_reqs := ds_reqs s @ [req] \<rparr>)"
| "ds_step S T Accept s =
     (case ds_reqs s of
        [] \<Rightarrow> None
      | req # reqs \<Rightarrow> Some (s\<lparr> ds_reqs := reqs, ds_waiting := ds_waiting s @ [req] \<rparr>))"
| "ds_step S T (Iter i sel) s =
     (if i < length (ds_waiting s) then
        let req = ds_waiting s ! i in
        case dispatch_iter S T sel (ds_pd s) of
          (Dispatched key executor, pd) \<Rightarrow>
            Some (s\<lparr> ds_pd := pd, ds_waiting := del_nth i (ds_waiting s),
                     ds_running := ds_running s @ [(key, executor, req)] \<rparr>)
        | (NoExecutor, pd) \<Rightarrow>
            Some (s\<lparr> ds_pd := pd, ds_waiting := del_nth i (ds_waiting s),
                     ds_resps := ds_resps s @ [Dispatch_fail req] \<rparr>)
        | (Continue, pd) \<Rightarrow> Some (s\<lparr> ds_pd := pd \<rparr>)
        | (NoToken, pd) \<Rightarrow> None
      else None)"
| "ds_step S T (Finish i res) s =
     (if i < length (ds_running s) then
        case ds_running s ! i of
          (key, executor, req) \<Rightarrow>
            if answers req res then
              Some (s\<lparr> ds_pd := Dispatch_done T key (ds_pd s), ds_running := del_nth i (ds_running s),
                       ds_resps := ds_resps s @ [res] \<rparr>)
            else None
      else None)"
| "ds_step S T (StartReconcile pods mk) s =
     (if concat (ds_threads s) = [] then
        case reconcile_threads S mk pods (ds_pd s) of
          Panic m \<Rightarrow> None
        | Ret ts \<Rightarrow> Some (s\<lparr> ds_threads := ts, ds_added := ds_added s @ concat (map set_key (concat ts)) \<rparr>)
      else None)"
| "ds_step S T (RunOp i) s =
     (if i < length (ds_threads s) then
        case ds_threads s ! i of
          [] \<Rightarrow> None
        | rop # rops \<Rightarrow>
            let (cl, pd) = exec_rop S T rop (ds_pd s) in
            Some (s\<lparr> ds_pd := pd, ds_threads := (ds_threads s)[i := rops], ds_closing := ds_closing s @ cl \<rparr>)
      else None)"

fun ds_run ::
    "('m, 'e) sharedMap \<Rightarrow> (string, 't) chann \<Rightarrow> 'e disp_event list \<Rightarrow> ('m, 't, 'e) disp_sys \<Rightarrow> ('m, 't, 'e) disp_sys option" where
  "ds_run S T [] s = Some s"
| "ds_run S T (ev # evs) s = (case ds_step S T ev s of None \<Rightarrow> None | Some s' \<Rightarrow> ds_run S T evs s')"

lemma ds_run_snoc: "ds_run S T (evs @ [ev]) s = (case ds_run S T evs s of None \<Rightarrow> None | Some s' \<Rightarrow> ds_step S T ev s')"
  by (induction evs arbitrary: s) (simp_all split: option.splits)

text \<open>An invariant of the steps holds after every run.\<close>

lemma ds_run_invariant:
  assumes "P s" "ds_run S T evs s = Some s'"
    and "\<And>s ev s'. P s \<Longrightarrow> ds_step S T ev s = Some s' \<Longrightarrow> P s'"
  shows "P s'"
  using assms(1,2)
proof (induction evs arbitrary: s)
  case (Cons ev evs)
  then show ?case
    by (auto split: option.splits intro: assms(3))
qed simp

section \<open>Every request is answered once\<close>

fun enqueued :: "'e disp_event list \<Rightarrow> Request list" where
  "enqueued [] = []"
| "enqueued (Enqueue req # evs) = req # enqueued evs"
| "enqueued (_ # evs) = enqueued evs"

definition in_flight :: "('m, 't, 'e) disp_sys \<Rightarrow> Request list" where
  "in_flight s = ds_reqs s @ ds_waiting s @ map (\<lambda>(key, executor, req). req) (ds_running s)"

definition workload_of :: "('m, 't, 'e) disp_sys \<Rightarrow> Request multiset" where
  "workload_of s = mset (map core (in_flight s)) + mset (map (\<lambda>r. core (Source r)) (ds_resps s))"

lemma mset_del_nth: "i < length xs \<Longrightarrow> add_mset (xs ! i) (mset (del_nth i xs)) = mset xs"
  by (metis add_mset_add_single append_take_drop_id del_nth_def id_take_nth_drop mset.simps(2) mset_append union_mset_add_mset_right)

lemma mset_map_del_nth:
  "i < length xs \<Longrightarrow> mset (map f xs) = add_mset (f (xs ! i)) (mset (map f (del_nth i xs)))"
  by (metis image_mset_add_mset mset_del_nth mset_map)

lemma image_mset_del_nth:
  "i < length xs \<Longrightarrow> add_mset (f (xs ! i)) (image_mset f (mset (del_nth i xs))) = image_mset f (mset xs)"
  using mset_map_del_nth [of i xs f] by simp

lemma ds_step_workload:
  assumes "ds_step S T ev s = Some s'"
  shows "workload_of s' = workload_of s + mset (map core (enqueued [ev]))"
  using assms
proof (cases ev)
  case (Iter i sel)
  then show ?thesis
    using assms
    by (auto simp: workload_of_def in_flight_def Dispatch_fail_def Let_def image_mset_del_nth
        split: if_splits prod.splits dispatch_result.splits)
next
  case (Finish i res)
  then show ?thesis
    using assms
      image_mset_del_nth [of i "ds_running s" "core \<circ> (\<lambda>(key, executor, req). req)"]
    by (auto simp: workload_of_def in_flight_def answers_core split: if_splits prod.splits)
qed (auto simp: workload_of_def in_flight_def Let_def split: if_splits list.splits prod.splits go.splits)

lemma ds_run_workload:
  "ds_run S T evs s = Some s' \<Longrightarrow> workload_of s' = workload_of s + mset (map core (enqueued evs))"
proof (induction evs arbitrary: s)
  case (Cons ev evs)
  then obtain s1 where s1: "ds_step S T ev s = Some s1" "ds_run S T evs s1 = Some s'"
    by (auto split: option.splits)
  have "enqueued (ev # evs) = enqueued [ev] @ enqueued evs"
    by (cases ev) simp_all
  then show ?case
    using Cons.IH [OF s1(2)] ds_step_workload [OF s1(1)] by (simp add: ac_simps)
qed simp

text \<open>
  C11. Whatever the interleaving, with reconciles and timeouts at any point, each request handed to the
  dispatcher is either still in flight or has exactly one response: the requests received are, up to
  the gateway's own time stamps, the requests in flight together with those the responses point to.\<close>

theorem one_response_per_request:
  assumes "ds_run S T evs (ds_init pd) = Some s"
  shows "mset (map core (enqueued evs))
    = mset (map core (in_flight s)) + mset (map (\<lambda>r. core (Source r)) (ds_resps s))"
  using ds_run_workload [OF assms] by (simp add: workload_of_def in_flight_def ds_init_def)

text \<open>
  A small cluster for the witnesses: executors are numbers, one pod, a dial that always succeeds.
\<close>

definition one_pod :: Pod where
  "one_pod = \<lparr> Namespace = ''default'', Name = ''p'', Labels = [(''app'', ''f'')], PodIP = ''10.0.0.1'' \<rparr>"

definition dial_ok :: "nat backends" where
  "dial_ok ep = Ret (Inr 1)"

definition empty_dispatcher :: "((string \<times> nat) list, string list) PodDispatcher" where
  "empty_dispatcher = NewPodDispatcher gomap_shared gochan ''default/f'' (15 * Second)"

definition answer :: Response where
  "answer = mk_Response sample_request SUCCESS"

definition one_pod_events :: "nat disp_event list" where
  "one_pod_events = [Enqueue sample_request, StartReconcile [one_pod] dial_ok, RunOp 0, RunOp 0, Accept, Iter 0 TokenOut, Finish 0 answer]"

lemma one_pod_run:
  "map_option (\<lambda>s. (ds_resps s, in_flight s)) (ds_run gomap_shared gochan one_pod_events (ds_init empty_dispatcher))
     = Some ([answer], [])"
  by code_simp

theorem one_response_per_request_witness:
  "\<exists>s. ds_run gomap_shared gochan one_pod_events (ds_init empty_dispatcher) = Some s \<and> ds_resps s = [answer]
     \<and> mset (map core (enqueued one_pod_events)) = mset (map core (in_flight s)) + mset (map (\<lambda>r. core (Source r)) (ds_resps s))"
proof -
  obtain s where s: "ds_run gomap_shared gochan one_pod_events (ds_init empty_dispatcher) = Some s" "ds_resps s = [answer]"
    using one_pod_run by auto
  then show ?thesis
    using one_response_per_request [OF s(1)] by auto
qed

section \<open>Tokens\<close>

text \<open>
  The slots of an endpoint key: its queued tokens, its tokens held by running requests, and the
  tokens that goroutines of a running \<open>Reconcile\<close> have yet to send.
\<close>

definition slots :: "('t \<Rightarrow> string list) \<Rightarrow> ('m, 't, 'e) disp_sys \<Rightarrow> string \<Rightarrow> nat" where
  "slots items s key = count_list (items (tokens (ds_pd s))) key + count_list (map fst (ds_running s)) key
     + count_list (concat (ds_threads s)) (PutToken key)"

fun wf_thread :: "'e rop list \<Rightarrow> bool" where
  "wf_thread [] = True"
| "wf_thread (SetEndpoint key e # rops) = (PutToken key \<in> set rops \<and> wf_thread rops)"
| "wf_thread (_ # rops) = wf_thread rops"

lemma wf_thread_dels [simp]: "wf_thread (map DelEndpoint del)"
  by (induction del) simp_all

lemma go_all_Ret: "go_all xs = Ret ys \<longleftrightarrow> xs = map Ret ys"
proof (induction xs arbitrary: ys)
  case (Cons x xs)
  then show ?case
    by (cases ys) (auto simp: go_bind_eq_Ret)
qed auto

lemma add_rops_Ret:
  "add_rops mk eps key = Ret rops \<Longrightarrow> rops = [] \<or> (\<exists>e. mk (label eps key) = Ret (Inr e) \<and> rops = [SetEndpoint key e, PutToken key])"
  by (auto simp: add_rops_def podServiceConcurrency_def split: go.splits sum.splits)

lemma reconcile_threads_cases:
  assumes "reconcile_threads S mk pods pd = Ret ts" "t \<in> set ts"
  shows "(\<exists>key e. t = [SetEndpoint key e, PutToken key]) \<or> (\<exists>del. t = map DelEndpoint del)"
proof -
  obtain add del us where us: "go_all (map (add_rops mk (ready_endpoints pods)) add) = Ret us" "ts = us @ [map DelEndpoint del]"
    using assms(1) by (auto simp: reconcile_threads_def Let_def go_bind_eq_Ret split: prod.splits)
  have "\<exists>key. add_rops mk (ready_endpoints pods) key = Ret t" if "t \<in> set us"
  proof -
    have "Ret t \<in> set (map (add_rops mk (ready_endpoints pods)) add)"
      using us(1) that by (simp add: go_all_Ret)
    then show ?thesis
      by (metis in_set_conv_nth length_map nth_map)
  qed
  then show ?thesis
    using assms(2) us(2) add_rops_Ret by fastforce
qed

lemma reconcile_threads_puts:
  assumes "reconcile_threads S mk pods pd = Ret ts"
  shows "count_list (concat ts) (PutToken key) = count_list (concat (map set_key (concat ts))) key"
proof -
  have "\<forall>t \<in> set ts. (\<exists>key e. t = [SetEndpoint key e, PutToken key]) \<or> (\<exists>del. t = map DelEndpoint del)"
    using reconcile_threads_cases [OF assms] by blast
  then show ?thesis
  proof (induction ts)
    case (Cons t ts)
    have "count_list (map DelEndpoint del) (PutToken key) = 0 \<and> concat (map set_key (map DelEndpoint del)) = []" for del
      by (induction del) simp_all
    then show ?case
      using Cons by (auto simp: count_list_append)
  qed simp
qed

lemma wf_reconcile_threads: "reconcile_threads S mk pods pd = Ret ts \<Longrightarrow> t \<in> set ts \<Longrightarrow> wf_thread t"
  using reconcile_threads_cases [of S mk pods pd ts t] by auto

text \<open>What the dispatcher relies on: its map and its token channel keep their contracts.\<close>

locale dispatcher_env = shared_map S + tok: unbounded_chan T items
  for S :: "('m, 'e) sharedMap" and T :: "(string, 't) chann" and items :: "'t \<Rightarrow> string list"
begin

definition token_inv :: "('m, 't, 'e) disp_sys \<Rightarrow> bool" where
  "token_inv s \<longleftrightarrow> (\<forall>t \<in> set (ds_threads s). wf_thread t)
     \<and> (\<forall>key. slots items s key \<le> count_list (ds_added s) key)
     \<and> (\<forall>key. contents (endpoints (ds_pd s)) key \<noteq> None \<longrightarrow> 0 < slots items s key)"

lemma dispatch_iter_cases:
  "dispatch_iter S T sel pd = (Dispatched key e, pd') \<Longrightarrow>
     contents (endpoints pd) key = Some e \<and> endpoints pd' = endpoints pd \<and> items (tokens pd) = key # items (tokens pd')"
  "dispatch_iter S T sel pd = (NoExecutor, pd') \<Longrightarrow> pd' = pd"
  "dispatch_iter S T sel pd = (Continue, pd') \<Longrightarrow>
     \<exists>key. contents (endpoints pd) key = None \<and> endpoints pd' = endpoints pd \<and> items (tokens pd) = key # items (tokens pd')"
  by (auto simp: dispatch_iter_def split: select_case.splits option.splits dest!: tok.recv_SomeD)

lemma token_invI:
  assumes "token_inv s" "\<forall>t \<in> set (ds_threads s'). wf_thread t" "ds_added s' = ds_added s"
    and "\<And>key. slots items s' key \<le> slots items s key"
    and "\<And>key. contents (endpoints (ds_pd s')) key \<noteq> None \<Longrightarrow>
        0 < slots items s' key \<or> slots items s' key = slots items s key \<and> contents (endpoints (ds_pd s)) key \<noteq> None"
  shows "token_inv s'"
  using assms unfolding token_inv_def by (metis order_trans)

lemma token_inv_frame:
  "token_inv s \<Longrightarrow> ds_pd s' = ds_pd s \<Longrightarrow> ds_running s' = ds_running s \<Longrightarrow> ds_threads s' = ds_threads s
    \<Longrightarrow> ds_added s' = ds_added s \<Longrightarrow> token_inv s'"
  by (simp add: token_inv_def slots_def)

lemma count_concat_update:
  assumes "i < length ts" "ts ! i = r # rs"
  shows "count_list (concat ts) x = count_list (concat (ts[i := rs])) x + (if r = x then 1 else 0)"
proof -
  have "ts = take i ts @ (r # rs) # drop (Suc i) ts" "ts[i := rs] = take i ts @ rs # drop (Suc i) ts"
    using assms by (metis id_take_nth_drop, simp add: upd_conv_take_nth_drop)
  then have "count_list (concat ts) x = count_list (concat (take i ts @ (r # rs) # drop (Suc i) ts)) x"
    "count_list (concat (ts[i := rs])) x = count_list (concat (take i ts @ rs # drop (Suc i) ts)) x"
    by metis+
  then show ?thesis
    by simp
qed

lemma token_inv_iter:
  assumes "ds_step S T (Iter i sel) s = Some s'" "token_inv s"
  shows "token_inv s'"
proof -
  have i: "i < length (ds_waiting s)"
    using assms(1) by (simp split: if_splits)
  obtain r pd where r: "dispatch_iter S T sel (ds_pd s) = (r, pd)"
    by fastforce
  show ?thesis
  proof (cases r)
    case (Dispatched key e)
    then show ?thesis
      using assms r i dispatch_iter_cases(1) [of sel "ds_pd s" key e pd]
      by (intro token_invI [OF assms(2)]) (auto simp: token_inv_def slots_def Let_def)
  next
    case NoExecutor
    then show ?thesis
      using assms r i dispatch_iter_cases(2) [of sel "ds_pd s" pd]
      by (intro token_invI [OF assms(2)]) (auto simp: token_inv_def slots_def Let_def)
  next
    case Continue
    then show ?thesis
      using assms r i dispatch_iter_cases(3) [of sel "ds_pd s" pd]
      by (intro token_invI [OF assms(2)]) (auto simp: token_inv_def slots_def Let_def)
  next
    case NoToken
    then show ?thesis
      using assms r i by simp
  qed
qed

lemma count_del_nth:
  "i < length xs \<Longrightarrow> count_list (map f xs) y = count_list (map f (del_nth i xs)) y + (if f (xs ! i) = y then 1 else 0)"
  using arg_cong [OF mset_map_del_nth [of i xs f], of "\<lambda>M. count M y"]
  by (simp add: count_mset del: mset_map)

lemma token_inv_finish:
  assumes "ds_step S T (Finish i res) s = Some s'" "token_inv s"
  shows "token_inv s'"
proof -
  obtain key e req where "i < length (ds_running s)" "ds_running s ! i = (key, e, req)"
      "s' = s\<lparr> ds_pd := Dispatch_done T key (ds_pd s), ds_running := del_nth i (ds_running s), ds_resps := ds_resps s @ [res] \<rparr>"
    using assms(1) by (auto split: if_splits prod.splits)
  then have "slots items s' k = slots items s k" "endpoints (ds_pd s') = endpoints (ds_pd s)" for k
    using count_del_nth [of i "ds_running s" fst k] by (simp_all add: slots_def Dispatch_done_def)
  moreover have "ds_threads s' = ds_threads s" "ds_added s' = ds_added s"
    using assms(1) by (auto split: if_splits prod.splits)
  ultimately show ?thesis
    using assms(2) by (simp add: token_inv_def)
qed

lemma token_inv_start:
  assumes "ds_step S T (StartReconcile pods mk) s = Some s'" "token_inv s"
  shows "token_inv s'"
proof -
  obtain ts where ts: "concat (ds_threads s) = []" "reconcile_threads S mk pods (ds_pd s) = Ret ts"
      "s' = s\<lparr> ds_threads := ts, ds_added := ds_added s @ concat (map set_key (concat ts)) \<rparr>"
    using assms(1) by (auto split: if_splits go.splits)
  then have "slots items s' k = slots items s k + count_list (concat (map set_key (concat ts))) k" for k
    using reconcile_threads_puts [OF ts(2), of k] arg_cong [OF ts(1), of "\<lambda>xs. count_list xs (PutToken k)"]
    unfolding slots_def by (simp del: concat_eq_Nil_conv)
  then show ?thesis
    using assms(2) ts(3) wf_reconcile_threads [OF ts(2)] by (auto simp: token_inv_def)
qed

lemma exec_rop_contents:
  "contents (endpoints (snd (exec_rop S T rop pd))) k =
     (case rop of
        SetEndpoint key e \<Rightarrow> if k = key then Some e else contents (endpoints pd) k
      | PutToken key \<Rightarrow> contents (endpoints pd) k
      | DelEndpoint key \<Rightarrow> if k = key then None else contents (endpoints pd) k)"
proof (cases rop)
  case (DelEndpoint key)
  then have "endpoints (snd (exec_rop S T rop pd)) = snd (sm_Del S (endpoints pd) key)"
    by (simp add: exec_rop_def split: prod.splits option.splits)
  then show ?thesis
    using DelEndpoint by simp
qed (simp_all add: exec_rop_def)

lemma token_inv_op:
  assumes "ds_step S T (RunOp i) s = Some s'" "token_inv s"
  shows "token_inv s'"
proof -
  obtain rop rops where i: "i < length (ds_threads s)" "ds_threads s ! i = rop # rops"
    using assms(1) by (auto split: if_splits list.splits)
  obtain cl pd where e: "exec_rop S T rop (ds_pd s) = (cl, pd)"
    by fastforce
  have s': "s' = s\<lparr> ds_pd := pd, ds_threads := (ds_threads s)[i := rops], ds_closing := ds_closing s @ cl \<rparr>"
    using assms(1) i e by simp
  have wf: "wf_thread (rop # rops)" "\<forall>t \<in> set (ds_threads s). wf_thread t"
    using assms(2) i by (auto simp: token_inv_def dest: nth_mem)
  then have "wf_thread rops"
    by (cases rop) simp_all
  then have wf': "\<forall>t \<in> set (ds_threads s'). wf_thread t"
    using wf s' by (auto dest!: set_update_subset_insert [THEN subsetD])
  have cnt: "count_list (concat (ds_threads s)) x = count_list (concat ((ds_threads s)[i := rops])) x + (if rop = x then 1 else 0)" for x
    by (rule count_concat_update [OF i])
  have le: "slots items s' k = slots items s k" for k
    using cnt [of "PutToken k"] e s' by (cases rop) (auto simp: slots_def exec_rop_def split: prod.splits option.splits)
  have "0 < slots items s' k" if "rop = SetEndpoint k ex" for k ex
  proof -
    have "PutToken k \<in> set (concat ((ds_threads s)[i := rops]))"
      using wf(1) that i(1) by (auto simp: set_update_memI intro!: bexI [of _ rops])
    then have "count_list (concat ((ds_threads s)[i := rops])) (PutToken k) \<noteq> 0"
      by (simp only: count_list_0_iff not_not)
    then show ?thesis
      unfolding slots_def s' by simp
  qed
  moreover have "(\<exists>ex. rop = SetEndpoint k ex) \<or> contents (endpoints (ds_pd s)) k \<noteq> None"
    if "contents (endpoints (ds_pd s')) k \<noteq> None" for k
    using that exec_rop_contents [of rop "ds_pd s" k] e s' by (cases rop) (auto split: if_splits)
  ultimately have "0 < slots items s' k \<or> slots items s' k = slots items s k \<and> contents (endpoints (ds_pd s)) k \<noteq> None"
    if "contents (endpoints (ds_pd s')) k \<noteq> None" for k
    using that le by blast
  then show ?thesis
    using le by (intro token_invI [OF assms(2) wf']) (simp_all add: s')
qed

lemma token_inv_step:
  assumes "token_inv s" "ds_step S T ev s = Some s'"
  shows "token_inv s'"
proof (cases ev)
  case (Enqueue req)
  then show ?thesis
    using assms(2) by (intro token_inv_frame [OF assms(1)]) auto
next
  case Accept
  then show ?thesis
    using assms(2) by (intro token_inv_frame [OF assms(1)]) (auto split: list.splits)
next
  case (Iter i sel)
  then show ?thesis
    using assms token_inv_iter by blast
next
  case (Finish i res)
  then show ?thesis
    using assms token_inv_finish by blast
next
  case (StartReconcile pods mk)
  then show ?thesis
    using assms token_inv_start by blast
next
  case (RunOp i)
  then show ?thesis
    using assms token_inv_op by blast
qed

lemma token_inv_run:
  assumes "ds_run S T evs (ds_init (NewPodDispatcher S T tgt tmo)) = Some s"
  shows "token_inv s"
  using _ assms token_inv_step
proof (rule ds_run_invariant)
  show "token_inv (ds_init (NewPodDispatcher S T tgt tmo))"
    by (simp add: token_inv_def ds_init_def NewPodDispatcher_def slots_def)
qed

end

interpretation native_disp: dispatcher_env gomap_shared gochan "\<lambda>c. c"
  by unfold_locales

context dispatcher_env
begin

lemma idle_slots:
  assumes "ds_run S T evs (ds_init (NewPodDispatcher S T tgt tmo)) = Some s" "concat (ds_threads s) = []"
  shows "(sm_Get S (endpoints (ds_pd s)) key \<noteq> None \<longrightarrow>
            key \<in> set (items (tokens (ds_pd s))) \<or> key \<in> fst ` set (ds_running s))
    \<and> count_list (map fst (ds_running s)) key \<le> count_list (ds_added s) key"
proof -
  have inv: "token_inv s"
    by (rule token_inv_run [OF assms(1)])
  have "slots items s key = count_list (items (tokens (ds_pd s))) key + count_list (map fst (ds_running s)) key"
    using arg_cong [OF assms(2), of "\<lambda>xs. count_list xs (PutToken key)"] by (simp add: slots_def del: concat_eq_Nil_conv)
  then show ?thesis
    using inv unfolding token_inv_def
    by (metis Get_inner add_is_0 add_leD2 count_notin image_set less_numeral_extra(3))
qed

text \<open>A dispatch returns the executor its token's key is mapped to, and finds one while there is one.\<close>

lemma dispatch_live:
  "dispatch S T sels pd = (Dispatched key e, pd') \<Longrightarrow> sm_Get S (endpoints pd) key = Some e \<and> endpoints pd' = endpoints pd"
proof (induction sels arbitrary: pd)
  case (Cons sel sels)
  obtain r pd1 where r: "dispatch_iter S T sel pd = (r, pd1)"
    by fastforce
  moreover from r have "endpoints pd1 = endpoints pd"
    by (auto simp: dispatch_iter_def split: select_case.splits option.splits prod.splits)
  ultimately show ?case
    using Cons.IH [of pd1] Cons.prems dispatch_iter_cases(1) [of sel pd] by (cases r) auto
qed simp

lemma dispatch_finds:
  assumes "items (tokens pd) = dead @ key # rest" "sm_Get S (endpoints pd) key = Some e"
    and "\<forall>k \<in> set dead. sm_Get S (endpoints pd) k = None"
  shows "\<exists>pd'. dispatch S T (replicate (length dead) TokenOut @ TokenOut # sels) pd = (Dispatched key e, pd') \<and> items (tokens pd') = rest"
  using assms
proof (induction dead arbitrary: pd)
  case Nil
  then show ?case
    using tok.recv_oldest [of "tokens pd" key rest] by (auto simp: dispatch_iter_def)
next
  case (Cons k dead)
  then obtain t where "ch_recv T (tokens pd) = Some (k, t)" "items t = dead @ key # rest"
    using tok.recv_oldest [of "tokens pd" k "dead @ key # rest"] by auto
  then show ?case
    using Cons.IH [of "pd\<lparr> tokens := t \<rparr>"] Cons.prems by (simp add: dispatch_iter_def)
qed

end

text \<open>
  C10. Tokens are conserved: when no reconcile is running, every endpoint the dispatcher knows has a
  token queued or held by a running request, so its capacity is never lost; and the requests running
  on an endpoint key are never more than the number of times that key was added, so a pod that is
  added once never executes two requests at a time (\<open>podServiceConcurrency\<close> is 1).\<close>

theorem token_capacity:
  assumes "dispatcher_env S T items"
    and "ds_run S T evs (ds_init (NewPodDispatcher S T tgt tmo)) = Some s" "concat (ds_threads s) = []"
  shows "(sm_Get S (endpoints (ds_pd s)) key \<noteq> None \<longrightarrow>
            key \<in> set (items (tokens (ds_pd s))) \<or> key \<in> fst ` set (ds_running s))
    \<and> count_list (map fst (ds_running s)) key \<le> count_list (ds_added s) key"
  by (rule dispatcher_env.idle_slots [OF assms])

lemma one_pod_run_idle:
  "map_option (\<lambda>s. (concat (ds_threads s), endpoints (ds_pd s), tokens (ds_pd s), ds_added s))
     (ds_run gomap_shared gochan one_pod_events (ds_init empty_dispatcher))
     = Some ([], [(''p@10.0.0.1:80'', 1)], [''p@10.0.0.1:80''], [''p@10.0.0.1:80''])"
  by code_simp

theorem token_capacity_witness:
  "\<exists>s. ds_run gomap_shared gochan one_pod_events (ds_init empty_dispatcher) = Some s
     \<and> sm_Get gomap_shared (endpoints (ds_pd s)) ''p@10.0.0.1:80'' = Some 1
     \<and> (''p@10.0.0.1:80'' \<in> set (tokens (ds_pd s)) \<or> ''p@10.0.0.1:80'' \<in> fst ` set (ds_running s))"
proof -
  obtain s where s: "ds_run gomap_shared gochan one_pod_events (ds_init empty_dispatcher) = Some s"
      "concat (ds_threads s) = []" "endpoints (ds_pd s) = [(''p@10.0.0.1:80'', 1)]"
    using one_pod_run_idle by auto
  have "sm_Get gomap_shared (endpoints (ds_pd s)) ''p@10.0.0.1:80'' = Some 1"
    using s(3) by (simp add: gm_get_def)
  then show ?thesis
    using token_capacity [OF native_disp.dispatcher_env_axioms s(1) [unfolded empty_dispatcher_def] s(2), of "''p@10.0.0.1:80''"] s(1)
    by (auto simp: empty_dispatcher_def)
qed

definition readd_events :: "nat disp_event list" where
  "readd_events = [StartReconcile [one_pod] dial_ok, RunOp 0, RunOp 0, StartReconcile [] dial_ok, RunOp 0,
     StartReconcile [one_pod] dial_ok, RunOp 0, RunOp 0, Enqueue sample_request, Enqueue sample_request,
     Accept, Accept, Iter 0 TokenOut, Iter 0 TokenOut]"


text \<open>
  C27. \<open>dispatch\<close> only returns the executor that the key of the received token is currently mapped to, so
  a removed pod gets no request; and when the queue holds a live token it is returned after exactly
  the dead ones before it were discarded.\<close>

theorem dispatch_live_token:
  assumes "dispatcher_env S T items"
  shows "(dispatch S T sels pd = (Dispatched key e, pd') \<longrightarrow>
            sm_Get S (endpoints pd) key = Some e \<and> endpoints pd' = endpoints pd)
    \<and> (items (tokens pd) = dead @ key # rest \<longrightarrow> sm_Get S (endpoints pd) key = Some e \<longrightarrow>
        (\<forall>k \<in> set dead. sm_Get S (endpoints pd) k = None) \<longrightarrow>
        (\<exists>pd''. dispatch S T (replicate (length dead) TokenOut @ [TokenOut]) pd = (Dispatched key e, pd'')
           \<and> items (tokens pd'') = rest))"
  using dispatcher_env.dispatch_live [OF assms] dispatcher_env.dispatch_finds [OF assms, where sels = "[]"] by blast

definition two_tokens :: "((string \<times> nat) list, string list) PodDispatcher" where
  "two_tokens = empty_dispatcher\<lparr> endpoints := [(''live'', 3)], tokens := [''gone'', ''live'', ''live''] \<rparr>"

theorem dispatch_live_token_witness:
  "\<exists>pd. dispatch gomap_shared gochan [TokenOut, TokenOut] two_tokens = (Dispatched ''live'' 3, pd) \<and> tokens pd = [''live'']"
  using dispatch_live_token [OF native_disp.dispatcher_env_axioms, of "[]" two_tokens "''live''" 3 two_tokens "[''gone'']" "[''live'']"]
  by (simp add: two_tokens_def gm_get_def)

section \<open>What Reconcile does\<close>

definition new_executor :: "'e backends \<Rightarrow> (string, string) gomap \<Rightarrow> string \<Rightarrow> 'e option" where
  "new_executor mk eps key = (case mk (label eps key) of Ret (Inr e) \<Rightarrow> Some e | _ \<Rightarrow> None)"

lemma add_rops_new:
  "add_rops mk eps key = Ret rops \<Longrightarrow>
     rops = (case new_executor mk eps key of None \<Rightarrow> [] | Some e \<Rightarrow> [SetEndpoint key e, PutToken key])"
  by (auto simp: add_rops_def new_executor_def podServiceConcurrency_def split: go.splits sum.splits)

lemma ready_endpoints_snoc:
  "ready_endpoints (pods @ [pod]) = gm_set (ready_endpoints pods) (fst (podEndpointKeyFunc pod)) (snd (podEndpointKeyFunc pod))"
  by (simp add: ready_endpoints_def split: prod.splits)

lemma ready_endpoints_dom: "dom (map_of (ready_endpoints pods)) = (\<lambda>pod. fst (podEndpointKeyFunc pod)) ` set pods"
proof (induction pods rule: rev_induct)
  case Nil
  then show ?case
    by (simp add: ready_endpoints_def)
next
  case (snoc pod pods)
  then show ?case
    by (simp add: ready_endpoints_snoc del: fun_upd_apply)
qed

lemma ready_endpoints_distinct: "distinct (gm_keys (ready_endpoints pods))"
proof (induction pods rule: rev_induct)
  case Nil
  then show ?case
    by (simp add: ready_endpoints_def gm_keys_def)
next
  case (snoc pod pods)
  then show ?case
    by (simp add: ready_endpoints_snoc distinct_gm_set)
qed

lemma exec_rops_append:
  "exec_rops S T (xs @ ys) pd =
     (fst (exec_rops S T xs pd) @ fst (exec_rops S T ys (snd (exec_rops S T xs pd))), snd (exec_rops S T ys (snd (exec_rops S T xs pd))))"
  by (induction xs arbitrary: pd) (simp_all add: Let_def split: prod.splits)

context dispatcher_env
begin

lemma exec_adds:
  assumes "distinct add" "go_all (map (add_rops mk eps) add) = Ret ts"
  shows "contents (endpoints (snd (exec_rops S T (concat ts) pd))) =
      contents (endpoints pd) ++ (\<lambda>k. if k \<in> set add then new_executor mk eps k else None)"
    and "items (tokens (snd (exec_rops S T (concat ts) pd))) =
      items (tokens pd) @ filter (\<lambda>k. new_executor mk eps k \<noteq> None) add"
  using assms
proof (induction add arbitrary: ts pd)
  case (Cons key add)
  {
    case 1
    then obtain rops us where us: "add_rops mk eps key = Ret rops" "go_all (map (add_rops mk eps) add) = Ret us" "ts = rops # us"
      by (auto simp: go_bind_eq_Ret)
    show ?case
      using Cons.IH(1) [OF _ us(2)] 1 us(3) add_rops_new [OF us(1)]
      by (auto simp: exec_rops_append exec_rop_def fun_eq_iff map_add_def split: option.splits)
  next
    case 2
    then obtain rops us where us: "add_rops mk eps key = Ret rops" "go_all (map (add_rops mk eps) add) = Ret us" "ts = rops # us"
      by (auto simp: go_bind_eq_Ret)
    show ?case
      using Cons.IH(2) [OF _ us(2)] 2 us(3) add_rops_new [OF us(1)]
      by (auto simp: exec_rops_append exec_rop_def split: option.splits)
  }
qed (simp_all add: map_add_def)

lemma exec_dels_tokens: "tokens (snd (exec_rops S T (map DelEndpoint del) pd)) = tokens pd"
  by (induction del arbitrary: pd) (simp_all add: Let_def split_beta exec_rop_def split: prod.splits option.splits)

lemma exec_dels:
  "contents (endpoints (snd (exec_rops S T (map DelEndpoint del) pd))) k = (if k \<in> set del then None else contents (endpoints pd) k)"
  by (induction del arbitrary: pd) (simp_all add: Let_def split_beta exec_rop_contents)

lemma Reconcile_spec:
  assumes "Reconcile S T mk pods pd = Ret (errs, cl, pd')"
  shows "contents (endpoints pd') k =
      (if k \<in> dom (map_of (ready_endpoints pods))
       then (case contents (endpoints pd) k of Some e \<Rightarrow> Some e | None \<Rightarrow> new_executor mk (ready_endpoints pods) k)
       else None)"
    and "\<exists>new. items (tokens pd') = items (tokens pd) @ new \<and> distinct new
      \<and> set new = {k. contents (endpoints pd) k = None \<and> contents (endpoints pd') k \<noteq> None}"
proof -
  let ?eps = "ready_endpoints pods" and ?ex = "sm_Inner S (endpoints pd)"
  define add where "add = filter (\<lambda>key. gm_get ?ex key = None) (gm_keys ?eps)"
  define del where "del = filter (\<lambda>key. gm_get ?eps key = None) (gm_keys ?ex)"
  obtain ts where ts: "go_all (map (add_rops mk ?eps) add) = Ret ts"
      "(cl, pd') = exec_rops S T (concat ts @ map DelEndpoint del) pd"
    using assms by (auto simp: Reconcile_def reconcile_threads_def endpoint_diff_def Let_def go_bind_eq_Ret add_def del_def)
  have d: "distinct add"
    by (simp add: add_def ready_endpoints_distinct)
  have a: "set add = {k. contents (endpoints pd) k = None \<and> k \<in> dom (map_of ?eps)}"
    by (auto simp: add_def set_gm_keys gm_get_map_of)
  have "contents (endpoints pd') k =
      (if k \<in> set del then None else (contents (endpoints pd) ++ (\<lambda>k. if k \<in> set add then new_executor mk ?eps k else None)) k)" for k
    using ts(2) exec_adds(1) [OF d ts(1)] by (simp add: exec_rops_append exec_dels)
  moreover have "set del = {k. contents (endpoints pd) k \<noteq> None \<and> k \<notin> dom (map_of ?eps)}"
    by (auto simp: del_def set_gm_keys gm_get_map_of)
  ultimately show *: "contents (endpoints pd') k =
      (if k \<in> dom (map_of ?eps) then (case contents (endpoints pd) k of Some e \<Rightarrow> Some e | None \<Rightarrow> new_executor mk ?eps k) else None)" for k
    using a by (auto simp: map_add_def split: option.splits)
  have "items (tokens pd') = items (tokens pd) @ filter (\<lambda>k. new_executor mk ?eps k \<noteq> None) add"
    using ts(2) exec_adds(2) [OF d ts(1)] by (simp add: exec_rops_append exec_dels_tokens)
  moreover have "set (filter (\<lambda>k. new_executor mk ?eps k \<noteq> None) add) = {k. contents (endpoints pd) k = None \<and> contents (endpoints pd') k \<noteq> None}"
    using a * by auto
  ultimately show "\<exists>new. items (tokens pd') = items (tokens pd) @ new \<and> distinct new
      \<and> set new = {k. contents (endpoints pd) k = None \<and> contents (endpoints pd') k \<noteq> None}"
    using d distinct_filter by blast
qed

lemma Reconcile_errs:
  assumes "Reconcile S T mk pods pd = Ret (errs, cl, pd')"
  shows "errs = [] \<longleftrightarrow> dom (contents (endpoints pd')) = dom (map_of (ready_endpoints pods))"
proof -
  let ?eps = "ready_endpoints pods"
  have np: "\<not> panics (mk (label ?eps k))" if "contents (endpoints pd) k = None" "k \<in> dom (map_of ?eps)" for k
  proof -
    obtain ts where ts: "go_all (map (add_rops mk ?eps) (filter (\<lambda>key. gm_get (sm_Inner S (endpoints pd)) key = None) (gm_keys ?eps))) = Ret ts"
      using assms by (auto simp: Reconcile_def reconcile_threads_def endpoint_diff_def Let_def go_bind_eq_Ret)
    have "k \<in> set (filter (\<lambda>key. gm_get (sm_Inner S (endpoints pd)) key = None) (gm_keys ?eps))"
      using that by (simp add: gm_get_map_of set_gm_keys)
    then have "add_rops mk ?eps k \<in> set (map (add_rops mk ?eps) (filter (\<lambda>key. gm_get (sm_Inner S (endpoints pd)) key = None) (gm_keys ?eps)))"
      by (simp only: list.set_map image_eqI)
    then have "add_rops mk ?eps k \<in> set (map Ret ts)"
      using ts by (simp only: go_all_Ret)
    then show ?thesis
      by (auto simp: add_rops_def split: go.splits)
  qed
  have "errs = concat (map (add_err mk ?eps) (filter (\<lambda>key. gm_get (sm_Inner S (endpoints pd)) key = None) (gm_keys ?eps)))"
    using assms by (auto simp: Reconcile_def reconcile_errs_def endpoint_diff_def Let_def go_bind_eq_Ret)
  then have "errs = [] \<longleftrightarrow> (\<forall>k. contents (endpoints pd) k = None \<and> k \<in> dom (map_of ?eps) \<longrightarrow> add_err mk ?eps k = [])"
    by (simp add: set_gm_keys gm_get_map_of) blast
  also have "\<dots> \<longleftrightarrow> (\<forall>k. contents (endpoints pd) k = None \<and> k \<in> dom (map_of ?eps) \<longrightarrow> new_executor mk ?eps k \<noteq> None)"
  proof -
    have "add_err mk ?eps k = [] \<longleftrightarrow> new_executor mk ?eps k \<noteq> None" if "\<not> panics (mk (label ?eps k))" for k
      using that by (auto simp: add_err_def new_executor_def split: go.splits sum.splits)
    then show ?thesis
      using np by blast
  qed
  also have "\<dots> \<longleftrightarrow> dom (contents (endpoints pd')) = dom (map_of ?eps)"
  proof -
    have "k \<in> dom (contents (endpoints pd')) \<longleftrightarrow>
        k \<in> dom (map_of ?eps) \<and> (contents (endpoints pd) k \<noteq> None \<or> new_executor mk ?eps k \<noteq> None)" for k
      unfolding domIff [where m = "contents (endpoints pd')"] Reconcile_spec(1) [OF assms]
      by (simp split: option.splits)
    then show ?thesis
      unfolding set_eq_iff by blast
  qed
  finally show ?thesis .
qed

end

text \<open>
  After \<open>Reconcile\<close> the dispatcher knows exactly the keys of the ready pods: known ones keep their
  executor, new ones have the executor their backend gave (or are missing when it failed), all others
  are gone; each newly added key has one new token and nobody else has; and the error is nil exactly
  when every ready pod has an endpoint.\<close>

theorem reconcile_endpoints:
  assumes "dispatcher_env S T items" "Reconcile S T mk pods pd = Ret (errs, cl, pd')"
  shows "sm_Get S (endpoints pd') k =
      (if k \<in> (\<lambda>pod. fst (podEndpointKeyFunc pod)) ` set pods
       then (case sm_Get S (endpoints pd) k of Some e \<Rightarrow> Some e | None \<Rightarrow> new_executor mk (ready_endpoints pods) k)
       else None)
    \<and> (\<exists>new. items (tokens pd') = items (tokens pd) @ new \<and> distinct new
        \<and> set new = {k. sm_Get S (endpoints pd) k = None \<and> sm_Get S (endpoints pd') k \<noteq> None})
    \<and> (errs = [] \<longleftrightarrow> {k. sm_Get S (endpoints pd') k \<noteq> None} = (\<lambda>pod. fst (podEndpointKeyFunc pod)) ` set pods)"
  unfolding shared_map.Get_inner [OF dispatcher_env.axioms(1) [OF assms(1)]] ready_endpoints_dom [symmetric]
  using dispatcher_env.Reconcile_spec [OF assms] dispatcher_env.Reconcile_errs [OF assms]
    dom_def [of "map_of (sm_Inner S (endpoints pd'))"]
  by (intro conjI) (simp_all only:)

theorem reconcile_endpoints_witness:
  "\<exists>pd. Reconcile gomap_shared gochan dial_ok [one_pod] two_tokens = Ret ([], [3], pd)
     \<and> sm_Get gomap_shared (endpoints pd) ''live'' = None"
proof -
  have r: "Reconcile gomap_shared gochan dial_ok [one_pod] two_tokens
      = Ret ([], [3], two_tokens\<lparr> endpoints := [(''p@10.0.0.1:80'', 1)], tokens := [''gone'', ''live'', ''live'', ''p@10.0.0.1:80''] \<rparr>)"
    by code_simp
  then show ?thesis
    using reconcile_endpoints [OF native_disp.dispatcher_env_axioms r, of "''live''"]
    by (simp add: one_pod_def podEndpointKeyFunc_def WorkloadServicePort_def Let_def)
qed

section \<open>All goroutines of a Knative dispatcher\<close>

record kn_sys =
  ks_reqs :: "Request list"
  ks_running :: "Request list"
  ks_resps :: "Response list"

text \<open>The same events: there is no token loop and nothing to reconcile.\<close>

fun kn_step :: "backend_vars \<Rightarrow> (duration \<Rightarrow> 'e \<Rightarrow> Request \<Rightarrow> Response) \<Rightarrow> 'e KnServiceDispatcher \<Rightarrow> 'e disp_event \<Rightarrow> kn_sys \<Rightarrow> kn_sys option" where
  "kn_step v Execute kd (Enqueue req) s = Some (s\<lparr> ks_reqs := ks_reqs s @ [req] \<rparr>)"
| "kn_step v Execute kd Accept s =
     (case ks_reqs s of
        [] \<Rightarrow> None
      | req # reqs \<Rightarrow> Some (s\<lparr> ks_reqs := reqs, ks_running := ks_running s @ [req] \<rparr>))"
| "kn_step v Execute kd (Finish i res) s =
     (if i < length (ks_running s) then
        Some (s\<lparr> ks_running := del_nth i (ks_running s),
                 ks_resps := ks_resps s @ [Kn_Dispatch v Execute kd (ks_running s ! i)] \<rparr>)
      else None)"
| "kn_step v Execute kd _ s = None"

section \<open>The contract of a dispatcher\<close>

text \<open>
  What the gateway relies on: a request put into the queue stays in flight until one response to it
  appears, no step invents or drops a request, and taking a response changes nothing else.
\<close>

locale request_dispatcher =
  fixes step :: "'ev \<Rightarrow> 's \<Rightarrow> 's option" and put :: "Request \<Rightarrow> 'ev" and injected :: "'ev \<Rightarrow> Request list"
    and pending :: "'s \<Rightarrow> Request list" and responses :: "'s \<Rightarrow> Response list" and pop :: "'s \<Rightarrow> 's"
  assumes conserve: "step ev s = Some s' \<Longrightarrow>
      mset (map core (pending s')) + mset (map (\<lambda>r. core (Source r)) (responses s'))
        = mset (map core (pending s)) + mset (map (\<lambda>r. core (Source r)) (responses s)) + mset (map core (injected ev))"
    and put_ok: "step (put req) s \<noteq> None"
    and put_injects: "injected (put req) = [req]"
    and pop_responses: "responses (pop s) = tl (responses s)"
    and pop_pending: "pending (pop s) = pending s"
begin

definition load :: "'s \<Rightarrow> Request multiset" where
  "load s = mset (map core (pending s)) + mset (map (\<lambda>r. core (Source r)) (responses s))"

lemma load_put: "step (put req) s = Some s' \<Longrightarrow> load s' = add_mset (core req) (load s)"
  using conserve [of "put req" s s'] by (simp add: load_def put_injects)

lemma load_step: "step ev s = Some s' \<Longrightarrow> injected ev = [] \<Longrightarrow> load s' = load s"
  using conserve [of ev s s'] by (simp add: load_def)

lemma load_pop: "responses s = r # rs \<Longrightarrow> load s = add_mset (core (Source r)) (load (pop s))"
  by (simp add: load_def pop_responses pop_pending)

end

definition ds_pop :: "('m, 't, 'e) disp_sys \<Rightarrow> ('m, 't, 'e) disp_sys" where
  "ds_pop s = s\<lparr> ds_resps := tl (ds_resps s) \<rparr>"

definition kn_pop :: "kn_sys \<Rightarrow> kn_sys" where
  "kn_pop s = s\<lparr> ks_resps := tl (ks_resps s) \<rparr>"

lemma pod_request_dispatcher:
  "request_dispatcher (ds_step S T) Enqueue (\<lambda>ev. enqueued [ev]) in_flight ds_resps ds_pop"
proof
  show "mset (map core (in_flight s')) + mset (map (\<lambda>r. core (Source r)) (ds_resps s'))
      = mset (map core (in_flight s)) + mset (map (\<lambda>r. core (Source r)) (ds_resps s)) + mset (map core (enqueued [ev]))"
    if "ds_step S T ev s = Some s'" for ev s s'
    using ds_step_workload [OF that] by (simp add: workload_of_def)
qed (simp_all add: ds_pop_def in_flight_def)

interpretation pod_disp: request_dispatcher "ds_step gomap_shared gochan" Enqueue "\<lambda>ev. enqueued [ev]" in_flight ds_resps ds_pop
  by (rule pod_request_dispatcher)

lemma kn_request_dispatcher:
  assumes "\<And>d e req. answers req (Execute d e req)"
  shows "request_dispatcher (kn_step v Execute kd) Enqueue (\<lambda>ev. enqueued [ev]) (\<lambda>s. ks_reqs s @ ks_running s) ks_resps kn_pop"
proof
  show "mset (map core (ks_reqs s' @ ks_running s')) + mset (map (\<lambda>r. core (Source r)) (ks_resps s'))
      = mset (map core (ks_reqs s @ ks_running s)) + mset (map (\<lambda>r. core (Source r)) (ks_resps s)) + mset (map core (enqueued [ev]))"
    if "kn_step v Execute kd ev s = Some s'" for ev s s'
    using that answers_core [OF assms]
    by (cases ev) (auto simp: Kn_Dispatch_def image_mset_del_nth split: list.splits if_splits)
qed (simp_all add: kn_pop_def)

text \<open>The Knative dispatcher over the fake backend.\<close>

interpretation kn_disp: request_dispatcher "kn_step v (\<lambda>d clk req. fake_Execute clk req) kd" Enqueue "\<lambda>ev. enqueued [ev]"
  "\<lambda>s. ks_reqs s @ ks_running s" ks_resps kn_pop
  by (rule kn_request_dispatcher) (rule fake_Execute_answers)

text \<open>
  The Knative dispatcher addresses the service's host on the gateway port whether or not the URL
  carries the \<open>http://\<close> scheme, and bounds each
  request by its own timeout plus the request's.\<close>

theorem kn_endpoint:
  assumes "take 7 host \<noteq> ''http://''" "mk (host @ '':80'') = Ret (Inr e)" "0 \<le> tmo" "tmo \<le> 2 ^ 62"
    and "0 \<le> DurationMilliSec req" "DurationMilliSec req * 5 \<le> 10 ^ 12"
  shows "\<exists>kd. NewKnServiceDispatcher mk tgt tmo (''http://'' @ host) = Ret (Inr kd)
    \<and> NewKnServiceDispatcher mk tgt tmo host = Ret (Inr kd)
    \<and> kd_endpoint kd = host @ '':80''
    \<and> Kn_Dispatch backend_init Execute kd req
        = Execute (tmo + max (15 * Second) (DurationMilliSec req * 5 * Millisecond)) e req"
proof -
  let ?kd = "\<lparr> kd_target = tgt, kd_timeout = tmo, kd_endpoint = host @ '':80'', kd_executor = e \<rparr>"
  have "NewKnServiceDispatcher mk tgt tmo (''http://'' @ host) = Ret (Inr ?kd)"
      "NewKnServiceDispatcher mk tgt tmo host = Ret (Inr ?kd)"
    using assms(1,2) by (simp_all add: NewKnServiceDispatcher_def trimPrefix_def kourierGatewayServicePort_def Let_def numeral_eq_Suc)
  moreover have "Timeout backend_init req = max (15 * Second) (DurationMilliSec req * 5 * Millisecond)"
    using Timeout_in_range [of backend_init 5 req] assms(5,6) by (simp add: backend_init_def)
  moreover have "int64_of (tmo + max (15 * Second) (DurationMilliSec req * 5 * Millisecond))
      = tmo + max (15 * Second) (DurationMilliSec req * 5 * Millisecond)"
    using assms(3-6) by (intro int64_of_id) (simp_all add: Second_def Millisecond_def)
  ultimately show ?thesis
    by (intro exI [of _ ?kd]) (simp add: Kn_Dispatch_def Kn_deadline_def)
qed

theorem kn_endpoint_witness:
  "\<exists>kd. NewKnServiceDispatcher (\<lambda>ep. Ret (Inr ep)) ''t'' (10 * Second) ''http://f.default'' = Ret (Inr kd)
     \<and> kd_endpoint kd = ''f.default:80''
     \<and> Kn_Dispatch backend_init (\<lambda>d e req. mk_Response req SUCCESS) kd sample_request = mk_Response sample_request SUCCESS"
  using kn_endpoint [of "''f.default''" "\<lambda>ep. Ret (Inr ep)" "''f.default:80''" "10 * Second" sample_request "''t''"
      "\<lambda>d e req. mk_Response req SUCCESS"]
  by (auto simp: Second_def)

end
