(* ===== verification/Trace.thy ===== *)
theory Trace
  imports Workload
begin

text \<open>
  \<open>pkg/workload/conversion.go\<close>: loading an Azure trace through the Dirigent loader and translating the
  per-minute inter-arrival times into absolute arrival times. The loader's configuration reader,
  trace parser and specification generator (the \<open>invitro\<close> submodule) are parameters. The lemmas show
  when loading fails, that the translation is a per-minute prefix sum over all invocations in order,
  and that arrivals stay in order within their minute and never precede it.
\<close>

section \<open>The loader's data\<close>

record RuntimeSpec =
  Runtime :: int

record FunctionSpecification =
  IAT :: "float64 list"
  PerMinuteCount :: "int list"
  RuntimeSpecification :: "RuntimeSpec list"

text \<open>\<open>Specification\<close> is a pointer that the parser leaves nil.\<close>

record Function =
  FnName :: string
  Specification :: "FunctionSpecification option"

datatype IatDistribution = Exponential | Uniform | Equidistant
datatype TraceGranularity = MinuteGranularity | SecondGranularity

record LoaderConfiguration =
  Platform :: string
  ExperimentDuration :: int
  WarmupDuration :: int
  TracePath :: string
  IATDistribution :: string
  Granularity :: string
  Seed :: int

section \<open>Translation\<close>

text \<open>The loop over the requests of one minute; \<open>n\<close> iterations are left. An index beyond a slice panics.\<close>

fun minute_loop ::
    "FunctionSpecification \<Rightarrow> float64 \<Rightarrow> nat \<Rightarrow> nat \<Rightarrow> float64 \<Rightarrow> InvocationSpec list \<Rightarrow> (nat \<times> InvocationSpec list) go" where
  "minute_loop rawSpec startOfThisMinute 0 reqIndex elapsed invs = Ret (reqIndex, invs)"
| "minute_loop rawSpec startOfThisMinute (Suc n) reqIndex elapsed invs =
     (if length (IAT rawSpec) \<le> reqIndex then Panic ''index out of range''
      else let elapsed' = fadd elapsed (fdiv (IAT rawSpec ! reqIndex) (Fin 1000000));
               absArrivalTime = fadd startOfThisMinute elapsed'
           in if length (RuntimeSpecification rawSpec) \<le> reqIndex then Panic ''index out of range''
              else minute_loop rawSpec startOfThisMinute n (reqIndex + 1) elapsed'
                     (invs @ [\<lparr> ArrivalTimeSec = absArrivalTime,
                                RuntimeMilliSec = Runtime (RuntimeSpecification rawSpec ! reqIndex) \<rparr>]))"

fun minutes_loop ::
    "FunctionSpecification \<Rightarrow> nat \<Rightarrow> int list \<Rightarrow> nat \<Rightarrow> InvocationSpec list \<Rightarrow> (nat \<times> InvocationSpec list) go" where
  "minutes_loop rawSpec minute [] reqIndex invs = Ret (reqIndex, invs)"
| "minutes_loop rawSpec minute (nReqsThisMinute # counts) reqIndex invs =
     go_bind (minute_loop rawSpec (fmul (f_of_int (int minute)) (Fin 60)) (nat nReqsThisMinute) reqIndex (Fin 0) invs)
       (\<lambda>(reqIndex', invs'). minutes_loop rawSpec (minute + 1) counts reqIndex' invs')"

definition TranslateDirigentFunction :: "Function \<Rightarrow> TraceSpec go" where
  "TranslateDirigentFunction function =
     (case Specification function of
        None \<Rightarrow> Panic ''nil pointer dereference''
      | Some rawSpec \<Rightarrow>
          go_bind (minutes_loop rawSpec 0 (PerMinuteCount rawSpec) 0 [])
            (\<lambda>(reqIndex, invs).
               if length invs \<noteq> length (IAT rawSpec) then Panic ''Invocation count mismatch''
               else Ret \<lparr> DurationMinutes = int (length (PerMinuteCount rawSpec)), Invocations = invs \<rparr>))"

section \<open>Loading\<close>

definition determineDurationToParse :: "int \<Rightarrow> int \<Rightarrow> int" where
  "determineDurationToParse runtimeDuration warmupDuration =
     (if warmupDuration > 0 then 1 + warmupDuration else 0) + runtimeDuration"

definition parseIATDistribution :: "LoaderConfiguration \<Rightarrow> (IatDistribution \<times> bool) go" where
  "parseIATDistribution cfg =
     (if IATDistribution cfg = ''exponential'' then Ret (Exponential, False)
      else if IATDistribution cfg = ''exponential_shift'' then Ret (Exponential, True)
      else if IATDistribution cfg = ''uniform'' then Ret (Uniform, False)
      else if IATDistribution cfg = ''uniform_shift'' then Ret (Uniform, True)
      else if IATDistribution cfg = ''equidistant'' then Ret (Equidistant, False)
      else Panic ''Unsupported IAT distribution.'')"

definition parseTraceGranularity :: "LoaderConfiguration \<Rightarrow> TraceGranularity go" where
  "parseTraceGranularity cfg =
     (if Granularity cfg = ''minute'' then Ret MinuteGranularity
      else if Granularity cfg = ''second'' then Ret SecondGranularity
      else Panic ''Invalid trace granularity parameter.'')"

text \<open>
  The packages of the submodule: the parser for a trace path, YAML path and duration, and the
  specification generator, whose random source is its state \<open>'g\<close>.
\<close>

record 'g loader =
  ld_parse :: "string \<Rightarrow> string \<Rightarrow> int \<Rightarrow> string \<Rightarrow> Function list"
  ld_newGenerator :: "int \<Rightarrow> 'g"
  ld_generate :: "'g \<Rightarrow> Function \<Rightarrow> IatDistribution \<Rightarrow> bool \<Rightarrow> TraceGranularity \<Rightarrow> FunctionSpecification \<times> 'g"

fun generate_all :: "'g loader \<Rightarrow> IatDistribution \<Rightarrow> bool \<Rightarrow> TraceGranularity \<Rightarrow> 'g \<Rightarrow> Function list \<Rightarrow> Function list go" where
  "generate_all L iatd shiftIAT gran g [] = Ret []"
| "generate_all L iatd shiftIAT gran g (function # functions) =
     (let (spec, g') = ld_generate L g function iatd shiftIAT gran in
      if length (IAT spec) \<noteq> length (RuntimeSpecification spec)
      then Panic ''IAT and runtime spec array length mismatch''
      else go_bind (generate_all L iatd shiftIAT gran g' functions)
             (\<lambda>fs. Ret (function\<lparr> Specification := Some spec \<rparr> # fs)))"

definition LoadDirigentTraceFromConfig :: "'g loader \<Rightarrow> LoaderConfiguration \<Rightarrow> Function list go" where
  "LoadDirigentTraceFromConfig L cfg =
     (if Platform cfg \<noteq> ''Dirigent'' then Panic ''Invalid loader platform''
      else if ExperimentDuration cfg < 1 then Panic ''Runtime duration should be longer, at least a minute.''
      else
        let durationToParse = determineDurationToParse (ExperimentDuration cfg) (WarmupDuration cfg);
            yamlPath = '''';
            functions = ld_parse L (TracePath cfg) yamlPath durationToParse (Platform cfg)
        in go_bind (parseIATDistribution cfg) (\<lambda>(iatDistribution, shiftIAT).
           go_bind (parseTraceGranularity cfg) (\<lambda>traceGranularity.
             if traceGranularity \<noteq> MinuteGranularity then Panic ''Expect minute granularity for Azure traces''
             else generate_all L iatDistribution shiftIAT traceGranularity (ld_newGenerator L (Seed cfg)) functions)))"

fun translate_all :: "Function list \<Rightarrow> TraceSpec list go" where
  "translate_all [] = Ret []"
| "translate_all (function # functions) =
     go_bind (TranslateDirigentFunction function)
       (\<lambda>spec. go_bind (translate_all functions) (\<lambda>specs. Ret (spec # specs)))"

definition LoadTraceFromConfig :: "'g loader \<Rightarrow> LoaderConfiguration \<Rightarrow> TraceSpec list go" where
  "LoadTraceFromConfig L cfg = go_bind (LoadDirigentTraceFromConfig L cfg) translate_all"

section \<open>The translation as a prefix sum per minute\<close>

definition elapsed :: "float64 list \<Rightarrow> float64" where
  "elapsed iats = foldl (\<lambda>e x. fadd e (fdiv x (Fin 1000000))) (Fin 0) iats"

text \<open>The requests of the minute \<open>m\<close> that begins at index \<open>i\<close> and has \<open>n\<close> requests.\<close>

definition minute_slice :: "FunctionSpecification \<Rightarrow> nat \<Rightarrow> nat \<Rightarrow> nat \<Rightarrow> InvocationSpec list" where
  "minute_slice raw m i n =
     map (\<lambda>j. \<lparr> ArrivalTimeSec = fadd (fmul (f_of_int (int m)) (Fin 60)) (elapsed (take (Suc j) (drop i (IAT raw)))),
                RuntimeMilliSec = Runtime (RuntimeSpecification raw ! (i + j)) \<rparr>) [0..<n]"

fun slices :: "FunctionSpecification \<Rightarrow> nat \<Rightarrow> nat \<Rightarrow> int list \<Rightarrow> InvocationSpec list list" where
  "slices raw m i [] = []"
| "slices raw m i (c # cs) = minute_slice raw m i (nat c) # slices raw (m + 1) (i + nat c) cs"

definition count_total :: "int list \<Rightarrow> nat" where
  "count_total cs = sum_list (map nat cs)"

lemma count_total_simps [simp]: "count_total [] = 0" "count_total (c # cs) = nat c + count_total cs"
  by (simp_all add: count_total_def)

lemma slices_length [simp]: "length (slices raw m i cs) = length cs"
  by (induction cs arbitrary: m i) simp_all

lemma concat_slices_length [simp]: "length (concat (slices raw m i cs)) = count_total cs"
  by (induction cs arbitrary: m i) (simp_all add: minute_slice_def)

lemma slices_nth:
  "k < length cs \<Longrightarrow> slices raw m i cs ! k = minute_slice raw (m + k) (i + count_total (take k cs)) (nat (cs ! k))"
proof (induction cs arbitrary: m i k)
  case (Cons c cs)
  then show ?case
    by (cases k) (simp_all add: add.assoc)
qed simp

lemma minute_loop_ref:
  assumes "i + n \<le> length (IAT raw)" "length (RuntimeSpecification raw) = length (IAT raw)" "i\<^sub>0 + k = i"
  shows "minute_loop raw (fmul (f_of_int (int m)) (Fin 60)) n i (elapsed (take k (drop i\<^sub>0 (IAT raw)))) (invs @ minute_slice raw m i\<^sub>0 k)
    = Ret (i + n, invs @ minute_slice raw m i\<^sub>0 (k + n))"
  using assms
proof (induction n arbitrary: i k)
  case (Suc n)
  have "take (Suc k) (drop i\<^sub>0 (IAT raw)) = take k (drop i\<^sub>0 (IAT raw)) @ [IAT raw ! i]"
    using Suc.prems by (simp add: take_Suc_conv_app_nth)
  then have e: "fadd (elapsed (take k (drop i\<^sub>0 (IAT raw)))) (fdiv (IAT raw ! i) (Fin 1000000)) = elapsed (take (Suc k) (drop i\<^sub>0 (IAT raw)))"
    by (simp add: elapsed_def)
  then show ?case
    using Suc.IH [of "i + 1" "Suc k"] Suc.prems by (simp add: Let_def minute_slice_def)
qed simp

lemma minute_loop_short:
  assumes "length (IAT raw) < i + n" "length (RuntimeSpecification raw) = length (IAT raw)" "i \<le> length (IAT raw)"
  shows "panics (minute_loop raw st n i e invs)"
  using assms by (induction n arbitrary: i e invs) (simp_all add: Let_def)

lemma minutes_loop_ref:
  assumes "length (RuntimeSpecification raw) = length (IAT raw)" "i + count_total cs \<le> length (IAT raw)"
  shows "minutes_loop raw m cs i invs = Ret (i + count_total cs, invs @ concat (slices raw m i cs))"
  using assms
proof (induction cs arbitrary: m i invs)
  case (Cons c cs)
  have "minute_loop raw (fmul (f_of_int (int m)) (Fin 60)) (nat c) i (Fin 0) invs
      = Ret (i + nat c, invs @ minute_slice raw m i (nat c))"
    using minute_loop_ref [of i "nat c" raw i 0 m invs] Cons.prems by (simp add: elapsed_def minute_slice_def)
  then show ?case
    using Cons.IH [of "i + nat c" "m + 1"] Cons.prems by (simp add: add.assoc)
qed simp

lemma minutes_loop_short:
  assumes "length (RuntimeSpecification raw) = length (IAT raw)" "length (IAT raw) < i + count_total cs" "i \<le> length (IAT raw)"
  shows "panics (minutes_loop raw m cs i invs)"
  using assms
proof (induction cs arbitrary: m i invs)
  case (Cons c cs)
  show ?case
  proof (cases "length (IAT raw) < i + nat c")
    case True
    then show ?thesis
      using minute_loop_short [of raw i "nat c"] Cons.prems by (simp add: panics_go_bind)
  next
    case False
    then show ?thesis
      using minute_loop_ref [of i "nat c" raw i 0 m invs] Cons.prems Cons.IH [of "i + nat c"]
      by (simp add: elapsed_def minute_slice_def)
  qed
qed simp

lemma Translate_Ret:
  assumes "Specification fn = Some raw" "length (RuntimeSpecification raw) = length (IAT raw)"
  shows "TranslateDirigentFunction fn =
      Ret \<lparr> DurationMinutes = int (length (PerMinuteCount raw)), Invocations = concat (slices raw 0 0 (PerMinuteCount raw)) \<rparr>
    \<longleftrightarrow> count_total (PerMinuteCount raw) = length (IAT raw)"
    and "panics (TranslateDirigentFunction fn) \<longleftrightarrow> count_total (PerMinuteCount raw) \<noteq> length (IAT raw)"
proof -
  consider "count_total (PerMinuteCount raw) \<le> length (IAT raw)" | "length (IAT raw) < count_total (PerMinuteCount raw)"
    by linarith
  then show "TranslateDirigentFunction fn =
      Ret \<lparr> DurationMinutes = int (length (PerMinuteCount raw)), Invocations = concat (slices raw 0 0 (PerMinuteCount raw)) \<rparr>
    \<longleftrightarrow> count_total (PerMinuteCount raw) = length (IAT raw)"
    and "panics (TranslateDirigentFunction fn) \<longleftrightarrow> count_total (PerMinuteCount raw) \<noteq> length (IAT raw)"
    using minutes_loop_ref [OF assms(2), of 0 "PerMinuteCount raw" 0 "[]"] minutes_loop_short [OF assms(2), of 0 "PerMinuteCount raw" 0 "[]"]
    by (cases; fastforce simp: TranslateDirigentFunction_def assms(1) panics_iff)+
qed

text \<open>
  C26. For a function whose runtimes match its inter-arrival times in number, translation fails exactly
  when the per-minute counts do not add up to that number (too many requests run over the slice, too
  few are a fatal mismatch); otherwise it returns one invocation per inter-arrival time, in order: per
  minute, the start of the minute plus the prefix sums of its inter-arrival times.\<close>

theorem translation_is_prefix_sum:
  assumes "Specification fn = Some raw" "length (RuntimeSpecification raw) = length (IAT raw)"
  shows "(panics (TranslateDirigentFunction fn) \<longleftrightarrow> count_total (PerMinuteCount raw) \<noteq> length (IAT raw))
    \<and> (\<forall>spec. TranslateDirigentFunction fn = Ret spec \<longrightarrow>
          DurationMinutes spec = int (length (PerMinuteCount raw))
          \<and> Invocations spec = concat (slices raw 0 0 (PerMinuteCount raw))
          \<and> length (Invocations spec) = length (IAT raw))"
proof -
  have "count_total (PerMinuteCount raw) = length (IAT raw)" if "TranslateDirigentFunction fn = Ret spec" for spec
    using that Translate_Ret(2) [OF assms] by auto
  then show ?thesis
    using Translate_Ret [OF assms] by auto
qed

definition sample_spec :: FunctionSpecification where
  "sample_spec = \<lparr> IAT = [Fin 500000, Fin 250000, Fin 1000000], PerMinuteCount = [2, 1],
     RuntimeSpecification = [\<lparr> Runtime = 10 \<rparr>, \<lparr> Runtime = 20 \<rparr>, \<lparr> Runtime = 30 \<rparr>] \<rparr>"

definition sample_function :: Function where
  "sample_function = \<lparr> FnName = ''f'', Specification = Some sample_spec \<rparr>"

theorem translation_is_prefix_sum_witness:
  "\<not> panics (TranslateDirigentFunction sample_function)"
  using translation_is_prefix_sum [of sample_function sample_spec]
  by (simp add: sample_function_def sample_spec_def)

section \<open>Arrival times\<close>

text \<open>An inter-arrival time within a minute, in microseconds.\<close>

fun iat_ok :: "float64 \<Rightarrow> bool" where
  "iat_ok (Fin q) = (0 \<le> q \<and> q \<le> 60000000)"
| "iat_ok _ = False"

lemma iat_seconds:
  assumes "iat_ok x"
  shows "\<exists>d. fdiv x (Fin 1000000) = Fin d \<and> 0 \<le> d \<and> d \<le> 60"
proof -
  obtain q where q: "x = Fin q" "0 \<le> q" "q \<le> 60000000"
    using assms by (cases x) auto
  have le: "q / 1000000 \<le> of_int 60"
    using q by simp
  then have "moderate (q / 1000000)"
    using q(2) moderate_between [OF moderate_of_int [of 60] _ le] by simp
  then show ?thesis
    using q binary64.nonneg [of "q / 1000000"] binary64.le_int [OF le] by simp
qed

lemma fadd_nonneg:
  fixes m n :: int
  assumes "0 \<le> x" "x \<le> of_int m" "0 \<le> y" "y \<le> of_int n" "m + n \<le> 2 ^ 53"
  shows "fadd (Fin x) (Fin y) = Fin (rnd64 (x + y)) \<and> 0 \<le> rnd64 (x + y) \<and> rnd64 (x + y) \<le> of_int (m + n)"
proof -
  have le: "x + y \<le> of_int (m + n)"
    using assms by simp
  have mn: "0 \<le> m" "0 \<le> n"
    using assms(1-4) by (metis of_int_0_le_iff order_trans)+
  have "moderate (x + y)"
    using assms mn moderate_between [OF moderate_of_int [of "m + n"] _ le] by simp
  then show ?thesis
    using assms mn binary64.nonneg [of "x + y"] binary64.le_int [OF le] by simp
qed

lemma elapsed_snoc: "elapsed (xs @ [x]) = fadd (elapsed xs) (fdiv x (Fin 1000000))"
  by (simp add: elapsed_def)

lemma elapsed_bound:
  assumes "\<forall>x \<in> set iats. iat_ok x" "length iats \<le> 2 ^ 40"
  shows "\<exists>e. elapsed iats = Fin e \<and> 0 \<le> e \<and> e \<le> of_int (60 * int (length iats)) \<and> rnd64 e = e"
  using assms
proof (induction iats rule: rev_induct)
  case Nil
  then show ?case
    by (simp add: elapsed_def)
next
  case (snoc x iats)
  then obtain e where e: "elapsed iats = Fin e" "0 \<le> e" "e \<le> of_int (60 * int (length iats))"
    by auto
  obtain d where d: "fdiv x (Fin 1000000) = Fin d" "0 \<le> d" "d \<le> of_int 60"
    using iat_seconds [of x] snoc.prems by auto
  have "60 * int (length iats) + 60 \<le> 2 ^ 53"
    using snoc.prems(2) by simp
  then show ?case
    using fadd_nonneg [OF e(2,3) d(2,3)] e d by (simp add: elapsed_snoc binary64.idem)
qed

lemma elapsed_mono:
  assumes "\<forall>y \<in> set (iats @ [x]). iat_ok y" "length iats < 2 ^ 40"
  shows "\<exists>e e'. elapsed iats = Fin e \<and> elapsed (iats @ [x]) = Fin e' \<and> e \<le> e'"
proof -
  obtain e where e: "elapsed iats = Fin e" "0 \<le> e" "e \<le> of_int (60 * int (length iats))" "rnd64 e = e"
    using elapsed_bound [of iats] assms by auto
  obtain d where d: "fdiv x (Fin 1000000) = Fin d" "0 \<le> d" "d \<le> of_int 60"
    using iat_seconds [of x] assms(1) by auto
  have "60 * int (length iats) + 60 \<le> 2 ^ 53"
    using assms(2) by simp
  then show ?thesis
    using fadd_nonneg [OF e(2,3) d(2,3)] e d binary64.add_increases [OF d(2) e(4)] by (simp add: elapsed_snoc)
qed

definition arrival :: "nat \<Rightarrow> float64 list \<Rightarrow> float64" where
  "arrival m iats = fadd (fmul (f_of_int (int m)) (Fin 60)) (elapsed iats)"

lemma arrival_bound:
  assumes "m \<le> 2 ^ 40" "\<forall>x \<in> set iats. iat_ok x" "length iats \<le> 2 ^ 40" "elapsed iats = Fin e"
  shows "arrival m iats = Fin (rnd64 (of_int (60 * int m) + e))
    \<and> of_int (60 * int m) \<le> rnd64 (of_int (60 * int m) + e)
    \<and> rnd64 (of_int (60 * int m) + e) \<le> of_int (60 * int m + 60 * int (length iats))"
proof -
  have e: "0 \<le> e" "e \<le> of_int (60 * int (length iats))"
    using elapsed_bound [OF assms(2,3)] assms(4) by auto
  have s: "fmul (f_of_int (int m)) (Fin 60) = Fin (of_int (60 * int m))"
    using fmul_int [of "int m" 60] assms(1) by (simp add: mult.commute)
  have b: "60 * int m + 60 * int (length iats) \<le> 2 ^ 53" "\<bar>60 * int m\<bar> \<le> 2 ^ 53"
    using assms(1,3) by simp_all
  show ?thesis
    unfolding arrival_def s assms(4)
    using fadd_nonneg [OF _ order_refl e b(1)] binary64.ge_int [OF _ b(2), of "of_int (60 * int m) + e"] e(1) by simp
qed

lemma count_total_take: "m < length cs \<Longrightarrow> count_total (take m cs) + nat (cs ! m) \<le> count_total cs"
proof (induction cs arbitrary: m)
  case (Cons c cs)
  then show ?case
    by (cases m) auto
qed simp

text \<open>
  When every inter-arrival time lies within a minute, the arrivals of minute \<open>m\<close> never precede
  second \<open>60 m\<close>, lie at most a minute per request after it, and do not decrease within the minute,
  rounding included.\<close>

theorem arrivals_ordered:
  assumes "Specification fn = Some raw" "length (RuntimeSpecification raw) = length (IAT raw)"
    and "TranslateDirigentFunction fn = Ret spec"
    and "\<forall>x \<in> set (IAT raw). iat_ok x" "length (IAT raw) \<le> 2 ^ 40" "length (PerMinuteCount raw) \<le> 2 ^ 40"
    and "m < length (PerMinuteCount raw)" "j < nat (PerMinuteCount raw ! m)"
  shows "\<exists>ms. Invocations spec = concat ms \<and> length (ms ! m) = nat (PerMinuteCount raw ! m)
    \<and> (\<exists>a. ArrivalTimeSec (ms ! m ! j) = Fin a \<and> of_int (60 * int m) \<le> a \<and> a \<le> of_int (60 * int m + 60 * (int j + 1))
        \<and> (0 < j \<longrightarrow> (\<exists>b. ArrivalTimeSec (ms ! m ! (j - 1)) = Fin b \<and> b \<le> a)))"
proof -
  let ?ms = "slices raw 0 0 (PerMinuteCount raw)" and ?i = "count_total (take m (PerMinuteCount raw))"
  have n: "count_total (PerMinuteCount raw) = length (IAT raw)"
    using Translate_Ret(2) [OF assms(1,2)] assms(3) by auto
  then have inv: "Invocations spec = concat ?ms"
    using Translate_Ret(1) [OF assms(1,2)] assms(3) by simp
  have ms: "?ms ! m = minute_slice raw m ?i (nat (PerMinuteCount raw ! m))"
    using slices_nth [OF assms(7), of raw 0 0] by simp
  have len: "?i + nat (PerMinuteCount raw ! m) \<le> length (IAT raw)"
    using n count_total_take [OF assms(7)] by simp
  let ?xs = "\<lambda>k. take k (drop ?i (IAT raw))"
  have ok: "\<forall>x \<in> set (?xs k). iat_ok x" "length (?xs k) \<le> 2 ^ 40" for k
    using assms(4,5) by (auto dest: in_set_takeD in_set_dropD)
  have at: "ArrivalTimeSec (?ms ! m ! k) = arrival m (?xs (Suc k))" if "k < nat (PerMinuteCount raw ! m)" for k
    using that by (simp add: ms minute_slice_def arrival_def)
  have snoc: "?xs (Suc j) = ?xs j @ [IAT raw ! (?i + j)]" and jlen: "length (?xs j) = j" "length (?xs (Suc j)) = Suc j"
    using len assms(8) by (simp_all add: take_Suc_conv_app_nth)
  obtain e e' where e: "elapsed (?xs j) = Fin e" "elapsed (?xs (Suc j)) = Fin e'" "e \<le> e'"
    using elapsed_mono [of "?xs j" "IAT raw ! (?i + j)"] ok [of "Suc j"] jlen(2) unfolding snoc by auto
  have m: "m \<le> 2 ^ 40"
    using assms(6,7) by linarith
  note aj = arrival_bound [OF m ok(1) ok(2) e(2)]
  have prev: "\<exists>b. ArrivalTimeSec (?ms ! m ! (j - 1)) = Fin b \<and> b \<le> rnd64 (of_int (60 * int m) + e')" if "0 < j"
    using that arrival_bound [OF m ok(1) ok(2) e(1)] at [of "j - 1"] assms(8) e(3) by (auto intro: rnd64_mono)
  have "length (?ms ! m) = nat (PerMinuteCount raw ! m)"
    by (simp add: ms minute_slice_def)
  moreover have "ArrivalTimeSec (?ms ! m ! j) = Fin (rnd64 (of_int (60 * int m) + e'))"
      "of_int (60 * int m) \<le> rnd64 (of_int (60 * int m) + e')"
      "rnd64 (of_int (60 * int m) + e') \<le> of_int (60 * int m + 60 * (int j + 1))"
    using aj at [OF assms(8)] unfolding jlen(2) by (simp_all add: algebra_simps)
  ultimately show ?thesis
    using inv prev by blast
qed

theorem arrivals_ordered_witness:
  "\<exists>spec ms a b. TranslateDirigentFunction sample_function = Ret spec \<and> Invocations spec = concat ms
     \<and> ArrivalTimeSec (ms ! 0 ! 1) = Fin a \<and> ArrivalTimeSec (ms ! 0 ! 0) = Fin b \<and> b \<le> a"
proof -
  obtain spec where spec: "TranslateDirigentFunction sample_function = Ret spec"
    using Translate_Ret(2) [of sample_function sample_spec]
    by (cases "TranslateDirigentFunction sample_function") (simp_all add: sample_function_def sample_spec_def)
  have "Specification sample_function = Some sample_spec" "length (RuntimeSpecification sample_spec) = length (IAT sample_spec)"
      "\<forall>x \<in> set (IAT sample_spec). iat_ok x" "length (IAT sample_spec) \<le> 2 ^ 40" "length (PerMinuteCount sample_spec) \<le> 2 ^ 40"
      "0 < length (PerMinuteCount sample_spec)" "1 < nat (PerMinuteCount sample_spec ! 0)"
    by (simp_all add: sample_function_def sample_spec_def)
  from arrivals_ordered [OF this(1,2) spec this(3-7)] spec show ?thesis
    by auto
qed

section \<open>Loading succeeds exactly on a valid configuration\<close>

definition valid_config :: "LoaderConfiguration \<Rightarrow> bool" where
  "valid_config cfg \<longleftrightarrow> Platform cfg = ''Dirigent'' \<and> 1 \<le> ExperimentDuration cfg \<and> Granularity cfg = ''minute''
     \<and> IATDistribution cfg \<in> {''exponential'', ''exponential_shift'', ''uniform'', ''uniform_shift'', ''equidistant''}"

text \<open>The generator draws as many runtimes as inter-arrival times, and as many as the minutes ask for.\<close>

definition generator_ok :: "'g loader \<Rightarrow> bool" where
  "generator_ok L \<longleftrightarrow> (\<forall>g fn iatd shiftIAT gran. let spec = fst (ld_generate L g fn iatd shiftIAT gran) in
     length (RuntimeSpecification spec) = length (IAT spec) \<and> count_total (PerMinuteCount spec) = length (IAT spec))"

lemma generate_all_ok:
  assumes "generator_ok L"
  shows "\<exists>fs. generate_all L iatd shiftIAT gran g fns = Ret fs \<and> map FnName fs = map FnName fns
    \<and> (\<forall>fn \<in> set fs. \<exists>spec. Specification fn = Some spec
        \<and> length (RuntimeSpecification spec) = length (IAT spec) \<and> count_total (PerMinuteCount spec) = length (IAT spec))"
proof (induction fns arbitrary: g)
  case (Cons fn fns)
  obtain spec g' where s: "ld_generate L g fn iatd shiftIAT gran = (spec, g')"
    by fastforce
  then have "length (RuntimeSpecification spec) = length (IAT spec)" "count_total (PerMinuteCount spec) = length (IAT spec)"
    using assms unfolding generator_ok_def Let_def by (metis fst_conv)+
  then show ?case
    using Cons.IH [of g'] s by auto
qed simp

lemma translate_all_ok:
  assumes "\<forall>fn \<in> set fs. \<exists>spec. Specification fn = Some spec
        \<and> length (RuntimeSpecification spec) = length (IAT spec) \<and> count_total (PerMinuteCount spec) = length (IAT spec)"
  shows "\<exists>specs. translate_all fs = Ret specs \<and> length specs = length fs"
  using assms
proof (induction fs)
  case (Cons fn fs)
  then obtain raw where "Specification fn = Some raw" "length (RuntimeSpecification raw) = length (IAT raw)"
      "count_total (PerMinuteCount raw) = length (IAT raw)"
    by auto
  then show ?case
    using Cons Translate_Ret(1) [of fn raw] by auto
qed simp

lemma parseIATDistribution_Ret:
  "(\<exists>r. parseIATDistribution cfg = Ret r)
     \<longleftrightarrow> IATDistribution cfg \<in> {''exponential'', ''exponential_shift'', ''uniform'', ''uniform_shift'', ''equidistant''}"
  by (simp add: parseIATDistribution_def) blast

text \<open>
  With a generator that keeps its lengths, loading fails exactly on an invalid configuration: a
  platform other than Dirigent, a duration below a minute, a granularity other than the minute or an
  unknown distribution; otherwise it yields one trace per function parsed for the experiment plus, when
  there is a warm-up, the warm-up and one profiling minute.\<close>

theorem load_iff_valid:
  assumes "generator_ok L"
  shows "(panics (LoadTraceFromConfig L cfg) \<longleftrightarrow> \<not> valid_config cfg)
    \<and> (\<forall>specs. LoadTraceFromConfig L cfg = Ret specs \<longrightarrow>
        length specs = length (ld_parse L (TracePath cfg) '''' (ExperimentDuration cfg
          + (if 0 < WarmupDuration cfg then WarmupDuration cfg + 1 else 0)) ''Dirigent''))"
proof (cases "valid_config cfg")
  case True
  then obtain iatd shiftIAT where "parseIATDistribution cfg = Ret (iatd, shiftIAT)"
    using parseIATDistribution_Ret [of cfg] by (auto simp: valid_config_def)
  moreover from True have "parseTraceGranularity cfg = Ret MinuteGranularity"
    by (simp add: valid_config_def parseTraceGranularity_def)
  ultimately have l: "LoadDirigentTraceFromConfig L cfg = generate_all L iatd shiftIAT MinuteGranularity (ld_newGenerator L (Seed cfg))
      (ld_parse L (TracePath cfg) '''' (determineDurationToParse (ExperimentDuration cfg) (WarmupDuration cfg)) ''Dirigent'')"
    using True by (simp add: LoadDirigentTraceFromConfig_def valid_config_def)
  obtain fs where fs: "LoadDirigentTraceFromConfig L cfg = Ret fs"
      "map FnName fs = map FnName (ld_parse L (TracePath cfg) '''' (determineDurationToParse (ExperimentDuration cfg) (WarmupDuration cfg)) ''Dirigent'')"
      "\<forall>fn \<in> set fs. \<exists>spec. Specification fn = Some spec
        \<and> length (RuntimeSpecification spec) = length (IAT spec) \<and> count_total (PerMinuteCount spec) = length (IAT spec)"
    unfolding l using generate_all_ok [OF assms] by blast
  obtain specs where "translate_all fs = Ret specs" "length specs = length fs"
    using translate_all_ok [OF fs(3)] by blast
  then show ?thesis
    using True fs(1) map_eq_imp_length_eq [OF fs(2)]
    by (simp add: LoadTraceFromConfig_def determineDurationToParse_def algebra_simps)
next
  case False
  then have "panics (LoadDirigentTraceFromConfig L cfg)"
    using parseIATDistribution_Ret [of cfg]
    by (cases "parseIATDistribution cfg")
      (auto simp: LoadDirigentTraceFromConfig_def valid_config_def parseTraceGranularity_def Let_def)
  then show ?thesis
    using False by (auto simp: LoadTraceFromConfig_def panics_iff)
qed

definition sample_loader :: "unit loader" where
  "sample_loader = \<lparr> ld_parse = (\<lambda>path yaml d platform. [\<lparr> FnName = path, Specification = None \<rparr>]),
     ld_newGenerator = (\<lambda>seed. ()), ld_generate = (\<lambda>g fn iatd sh gran. (sample_spec, ())) \<rparr>"

definition sample_config :: LoaderConfiguration where
  "sample_config = \<lparr> Platform = ''Dirigent'', ExperimentDuration = 2, WarmupDuration = 0, TracePath = ''data'',
     IATDistribution = ''exponential'', Granularity = ''minute'', Seed = 42 \<rparr>"

theorem load_iff_valid_witness:
  "generator_ok sample_loader \<and> \<not> panics (LoadTraceFromConfig sample_loader sample_config)"
proof -
  have g: "generator_ok sample_loader"
    by (simp add: generator_ok_def sample_loader_def sample_spec_def)
  then show ?thesis
    using load_iff_valid [OF g, of sample_config] by (simp add: valid_config_def sample_config_def)
qed

end
