(* ===== verification/WorkQueue.thy ===== *)
theory WorkQueue
  imports Prelude
begin

text \<open>
  \<open>k8s.io/client-go/util/workqueue\<close>, the queue between event handlers and workers in the autoscaler and
  in the node agent: a record of the operations the sources call and the locale \<open>work_queue\<close> with the
  documented behaviour they rely on. Adding a key that is already waiting merges with it; a key
  handed to a worker is not handed out again before \<open>Done\<close>, and one added meanwhile waits until then.
  An interpretation on a plain list shows that the contract can be met.
\<close>

record ('k, 'q) workqueue =
  wq_new :: 'q
  wq_Add :: "'q \<Rightarrow> 'k \<Rightarrow> 'q"
  wq_Get :: "'q \<Rightarrow> ('k \<times> 'q) option"
  wq_Done :: "'q \<Rightarrow> 'k \<Rightarrow> 'q"
  wq_Forget :: "'q \<Rightarrow> 'k \<Rightarrow> 'q"

locale work_queue =
  fixes Q :: "('k, 'q, 'x) workqueue_scheme" and dirty :: "'q \<Rightarrow> 'k set" and processing :: "'q \<Rightarrow> 'k set"
  assumes new_empty: "dirty (wq_new Q) = {}" "processing (wq_new Q) = {}"
    and Add_dirty: "dirty (wq_Add Q q k) = insert k (dirty q)"
    and Add_processing: "processing (wq_Add Q q k) = processing q"
    and Get_takes: "wq_Get Q q = Some (k, q') \<Longrightarrow>
      k \<in> dirty q \<and> k \<notin> processing q \<and> dirty q' = dirty q - {k} \<and> processing q' = insert k (processing q)"
    and Get_blocks: "wq_Get Q q = None \<longleftrightarrow> dirty q \<subseteq> processing q"
    and Done_dirty: "dirty (wq_Done Q q k) = dirty q"
    and Done_processing: "processing (wq_Done Q q k) = processing q - {k}"
    and Forget_dirty: "dirty (wq_Forget Q q k) = dirty q"
    and Forget_processing: "processing (wq_Forget Q q k) = processing q"
begin

lemmas queue_simps [simp] = new_empty Add_dirty Add_processing Done_dirty Done_processing Forget_dirty Forget_processing

lemma added_is_served:
  "k \<notin> processing q \<Longrightarrow> \<exists>k' q'. wq_Get Q (wq_Add Q q k) = Some (k', q')"
  using Get_blocks [of "wq_Add Q q k"] by fastforce

lemma finished_is_served:
  "k \<in> dirty q \<Longrightarrow> \<exists>k' q'. wq_Get Q (wq_Done Q q k) = Some (k', q')"
  using Get_blocks [of "wq_Done Q q k"] by fastforce

end

text \<open>The list of waiting keys and the keys being processed.\<close>

definition list_queue :: "('k, 'k list \<times> 'k list) workqueue" where
  "list_queue = \<lparr>
     wq_new = ([], []),
     wq_Add = (\<lambda>q k. if k \<in> set (fst q) then q else (fst q @ [k], snd q)),
     wq_Get = (\<lambda>q. case filter (\<lambda>k. k \<notin> set (snd q)) (fst q) of
                [] \<Rightarrow> None
              | k # ks \<Rightarrow> Some (k, (filter (\<lambda>x. x \<noteq> k) (fst q), k # snd q))),
     wq_Done = (\<lambda>q k. (fst q, filter (\<lambda>x. x \<noteq> k) (snd q))),
     wq_Forget = (\<lambda>q k. q) \<rparr>"

lemma list_queue_sel [simp]:
  "wq_new list_queue = ([], [])"
  "wq_Add list_queue = (\<lambda>q k. if k \<in> set (fst q) then q else (fst q @ [k], snd q))"
  "wq_Get list_queue = (\<lambda>q. case filter (\<lambda>k. k \<notin> set (snd q)) (fst q) of
                [] \<Rightarrow> None
              | k # ks \<Rightarrow> Some (k, (filter (\<lambda>x. x \<noteq> k) (fst q), k # snd q)))"
  "wq_Done list_queue = (\<lambda>q k. (fst q, filter (\<lambda>x. x \<noteq> k) (snd q)))"
  "wq_Forget list_queue = (\<lambda>q k. q)"
  by (simp_all add: list_queue_def)

lemma filter_ConsD: "filter P xs = y # ys \<Longrightarrow> y \<in> set xs \<and> P y"
  by (auto simp: filter_eq_Cons_iff)

interpretation lq: work_queue list_queue "\<lambda>q. set (fst q)" "\<lambda>q. set (snd q)"
proof
  show "k \<in> set (fst q) \<and> k \<notin> set (snd q) \<and> set (fst q') = set (fst q) - {k} \<and> set (snd q') = insert k (set (snd q))"
    if "wq_Get list_queue q = Some (k, q')" for q k q'
    using that by (auto split: list.splits dest: filter_ConsD)
  show "wq_Get list_queue q = None \<longleftrightarrow> set (fst q) \<subseteq> set (snd q)" for q
    by (auto split: list.splits simp: filter_empty_conv dest: filter_ConsD)
qed auto

section \<open>Delays\<close>

text \<open>
  \<open>TypedRateLimitingInterface\<close>: the work queue with \<open>AddAfter\<close> and \<open>AddRateLimited\<close>, which keep a key aside
  until its delay is over; \<open>wq_Ripe\<close> is the queue's own timer, which then adds it.
\<close>

record ('k, 'q) ratequeue = "('k, 'q) workqueue" +
  wq_AddAfter :: "'q \<Rightarrow> 'k \<Rightarrow> duration \<Rightarrow> 'q"
  wq_AddRateLimited :: "'q \<Rightarrow> 'k \<Rightarrow> 'q"
  wq_Ripe :: "'q \<Rightarrow> 'k \<Rightarrow> 'q"

locale rate_limited_queue = work_queue Q dirty processing
  for Q :: "('k, 'q, 'x) ratequeue_scheme" and dirty :: "'q \<Rightarrow> 'k set" and processing :: "'q \<Rightarrow> 'k set" +
  fixes delayed :: "'q \<Rightarrow> 'k set"
  assumes new_delayed: "delayed (wq_new Q) = {}"
    and Add_delayed: "delayed (wq_Add Q q k) = delayed q"
    and Get_delayed: "wq_Get Q q = Some (k, q') \<Longrightarrow> delayed q' = delayed q"
    and Done_delayed: "delayed (wq_Done Q q k) = delayed q"
    and Forget_delayed: "delayed (wq_Forget Q q k) = delayed q"
    and AddAfter_delayed: "0 < d \<Longrightarrow> delayed (wq_AddAfter Q q k d) = insert k (delayed q)"
    and AddAfter_rest: "0 < d \<Longrightarrow> dirty (wq_AddAfter Q q k d) = dirty q" "0 < d \<Longrightarrow> processing (wq_AddAfter Q q k d) = processing q"
    and AddRateLimited_delayed: "delayed (wq_AddRateLimited Q q k) = insert k (delayed q)"
    and AddRateLimited_rest: "dirty (wq_AddRateLimited Q q k) = dirty q" "processing (wq_AddRateLimited Q q k) = processing q"
    and Ripe_dirty: "dirty (wq_Ripe Q q k) = (if k \<in> delayed q then insert k (dirty q) else dirty q)"
    and Ripe_delayed: "delayed (wq_Ripe Q q k) = delayed q - {k}"
    and Ripe_processing: "processing (wq_Ripe Q q k) = processing q"
begin

lemmas delay_simps [simp] = new_delayed Add_delayed Done_delayed Forget_delayed AddAfter_delayed AddAfter_rest
  AddRateLimited_delayed AddRateLimited_rest Ripe_dirty Ripe_delayed Ripe_processing

lemma retried_is_served:
  "k \<notin> processing q \<Longrightarrow> \<exists>k' q'. wq_Get Q (wq_Ripe Q (wq_AddRateLimited Q q k) k) = Some (k', q')"
  using Get_blocks [of "wq_Ripe Q (wq_AddRateLimited Q q k) k"]
  by fastforce

end

text \<open>The list queue beside the list of the keys kept aside.\<close>

definition list_ratequeue :: "('k, ('k list \<times> 'k list) \<times> 'k list) ratequeue" where
  "list_ratequeue = \<lparr>
     wq_new = (wq_new list_queue, []),
     wq_Add = (\<lambda>q k. (wq_Add list_queue (fst q) k, snd q)),
     wq_Get = (\<lambda>q. map_option (\<lambda>(k, b). (k, (b, snd q))) (wq_Get list_queue (fst q))),
     wq_Done = (\<lambda>q k. (wq_Done list_queue (fst q) k, snd q)),
     wq_Forget = (\<lambda>q k. (wq_Forget list_queue (fst q) k, snd q)),
     wq_AddAfter = (\<lambda>q k d. if 0 < d then (fst q, k # snd q) else (wq_Add list_queue (fst q) k, snd q)),
     wq_AddRateLimited = (\<lambda>q k. (fst q, k # snd q)),
     wq_Ripe = (\<lambda>q k. (if k \<in> set (snd q) then wq_Add list_queue (fst q) k else fst q, filter (\<lambda>x. x \<noteq> k) (snd q))) \<rparr>"

lemma list_ratequeue_sel [simp]:
  "wq_new list_ratequeue = (([], []), [])"
  "wq_Add list_ratequeue = (\<lambda>q k. (wq_Add list_queue (fst q) k, snd q))"
  "wq_Get list_ratequeue = (\<lambda>q. map_option (\<lambda>(k, b). (k, (b, snd q))) (wq_Get list_queue (fst q)))"
  "wq_Done list_ratequeue = (\<lambda>q k. (wq_Done list_queue (fst q) k, snd q))"
  "wq_Forget list_ratequeue = (\<lambda>q k. (fst q, snd q))"
  "wq_AddAfter list_ratequeue = (\<lambda>q k d. if 0 < d then (fst q, k # snd q) else (wq_Add list_queue (fst q) k, snd q))"
  "wq_AddRateLimited list_ratequeue = (\<lambda>q k. (fst q, k # snd q))"
  "wq_Ripe list_ratequeue = (\<lambda>q k. (if k \<in> set (snd q) then wq_Add list_queue (fst q) k else fst q, filter (\<lambda>x. x \<noteq> k) (snd q)))"
  by (simp_all add: list_ratequeue_def)

interpretation lrq: rate_limited_queue list_ratequeue "\<lambda>q. set (fst (fst q))" "\<lambda>q. set (snd (fst q))" "\<lambda>q. set (snd q)"
proof
  show "k \<in> set (fst (fst q)) \<and> k \<notin> set (snd (fst q)) \<and> set (fst (fst q')) = set (fst (fst q)) - {k}
      \<and> set (snd (fst q')) = insert k (set (snd (fst q)))"
    if "wq_Get list_ratequeue q = Some (k, q')" for q k q'
    using that lq.Get_takes [of "fst q" k "fst q'"] by (auto simp del: list_queue_sel)
  show "wq_Get list_ratequeue q = None \<longleftrightarrow> set (fst (fst q)) \<subseteq> set (snd (fst q))" for q
    using lq.Get_blocks [of "fst q"] by (simp del: list_queue_sel)
qed auto

end
