(* ===== verification/Autoscaler.thy ===== *)
theory Autoscaler
  imports KPA WorkQueue Backend
begin

text \<open>
  \<open>pkg/autoscaler\<close>: the autoscalers around the deciders. \<open>interface.go\<close> is the common machinery (request
  callbacks, periodic ticks, a work queue and the workers that scale), \<open>kpa.go\<close> builds it for Knative's
  rule, \<open>onetime.go\<close> scales each target once, and \<open>scaler/deployment.go\<close> writes the scale subresource.
  The Kubernetes client is a parameter: the answers it gives during an operation are the functions of a
  record, the updates it is asked for are returned. The Go interfaces \<open>Decider\<close> and \<open>Scaler\<close> are records
  of operations with the locales \<open>decider\<close> and \<open>scaler\<close> as their contracts.
\<close>

section \<open>The API client\<close>

record Deployment = ObjectMeta +
  Deleting :: bool
  Replicas :: "int option"
  TemplateLabels :: labels

record k8s_client =
  cl_Get :: "NamespacedName \<Rightarrow> string + Deployment"
  cl_List :: "string \<Rightarrow> labels \<Rightarrow> string + Pod list"
  cl_UpdateScale :: "Deployment \<Rightarrow> int \<Rightarrow> string option"

section \<open>The deployment scaler\<close>

text \<open>The result with the updates of the scale subresource that were sent.\<close>

type_synonym scale_result = "(string + bool) \<times> (NamespacedName \<times> int) list"

definition Scale :: "k8s_client \<Rightarrow> string \<Rightarrow> int \<Rightarrow> scale_result go" where
  "Scale cl key desired =
     go_bind (NamespacedNameFromKey key) (\<lambda>nn. Ret
       (case cl_Get cl nn of
          Inl err \<Rightarrow> (Inl (''failed to get deployment '' @ key @ '': '' @ err), [])
        | Inr deployment \<Rightarrow>
            if Deleting deployment then (Inl (''deployment '' @ key @ '' is being deleted''), [])
            else if Replicas deployment = Some (int32_of desired) then (Inr False, [])
            else (case cl_UpdateScale cl deployment (int32_of desired) of
                    Some err \<Rightarrow> (Inl err, [(nn, int32_of desired)])
                  | None \<Rightarrow> (Inr True, [(nn, int32_of desired)]))))"

section \<open>Deciders behind the interface\<close>

record 'd Decider =
  dec_ReqIn :: "gotime \<Rightarrow> 'd \<Rightarrow> float64 \<times> 'd"
  dec_ReqOut :: "gotime \<Rightarrow> 'd \<Rightarrow> float64 \<times> 'd"
  dec_Activate :: "'d \<Rightarrow> bool \<times> 'd"
  dec_Reconcile :: "gotime \<Rightarrow> int \<Rightarrow> 'd \<Rightarrow> (string + int) \<times> 'd"
  dec_Desired :: "'d \<Rightarrow> int"

definition KPA_ops :: "'b timed_buckets \<Rightarrow> 'w time_window \<Rightarrow> ('b, 'w) KPADecider Decider" where
  "KPA_ops B W = \<lparr>
     dec_ReqIn = KPA_ReqIn, dec_ReqOut = KPA_ReqOut, dec_Activate = Activate,
     dec_Reconcile = (\<lambda>now ready k. case KPA_Reconcile B W now ready k of (n, k') \<Rightarrow> (Inr n, k')),
     dec_Desired = Desired \<rparr>"

section \<open>The autoscaler\<close>

text \<open>
  \<open>started\<close> says that \<open>Run\<close> has set \<open>runCtx\<close>; \<open>tickers\<close> are the goroutines \<open>tickAutoScaler\<close> that were started
  and \<open>updates\<close> the scale updates sent, both observations of the environment.
\<close>

record ('d, 'q) autoscalerImpl =
  as_framework :: string
  async :: bool
  as_tickInterval :: duration
  deciders :: "(string, 'd) gomap"
  queue :: 'q
  started :: bool
  tickers :: "string list"
  updates :: "(NamespacedName \<times> int) list"

definition maxConcurrentScalers :: nat where
  "maxConcurrentScalers = 16"

type_synonym scale_op = "string \<Rightarrow> int \<Rightarrow> scale_result go"

definition count_ready :: "(Pod \<Rightarrow> bool) \<Rightarrow> Pod list \<Rightarrow> int" where
  "count_ready isPodReady pods = int (length (filter isPodReady pods))"

definition set_decider :: "string \<Rightarrow> 'd \<Rightarrow> ('d, 'q) autoscalerImpl \<Rightarrow> ('d, 'q) autoscalerImpl" where
  "set_decider key d s = s\<lparr> deciders := gm_set (deciders s) key d \<rparr>"

definition scale ::
    "'d Decider \<Rightarrow> (Pod \<Rightarrow> bool) \<Rightarrow> k8s_client \<Rightarrow> scale_op \<Rightarrow> gotime \<Rightarrow> string \<Rightarrow> ('d, 'q) autoscalerImpl
       \<Rightarrow> (string option \<times> ('d, 'q) autoscalerImpl) go" where
  "scale D isPodReady cl sc now key s =
     (case gm_get (deciders s) key of
        None \<Rightarrow> Panic (''Scaling error: no decider for key '' @ key)
      | Some d \<Rightarrow>
          go_bind (NamespacedNameFromKey key) (\<lambda>nn.
            case cl_Get cl nn of
              Inl err \<Rightarrow> Ret (Some (''failed to get deployment '' @ key @ '': '' @ err), s)
            | Inr target \<Rightarrow>
                (case cl_List cl (Namespace target) (TemplateLabels target) of
                   Inl err \<Rightarrow> Ret (Some (''failed to list pods for key '' @ key @ '': '' @ err), s)
                 | Inr pods \<Rightarrow>
                     (case dec_Reconcile D now (count_ready isPodReady pods) d of
                        (Inl err, d') \<Rightarrow>
                          Ret (Some (''failed to get desired scale for key '' @ key @ '': '' @ err), set_decider key d' s)
                      | (Inr desired, d') \<Rightarrow>
                          go_bind (sc key desired) (\<lambda>(r, us).
                            let s' = (set_decider key d' s)\<lparr> updates := updates s @ us \<rparr> in
                            case r of
                              Inl err \<Rightarrow> Ret (Some (''failed to scale '' @ key @ '': '' @ err), s')
                            | Inr scaled \<Rightarrow>
                                if scaled \<and> Replicas target = None then Panic ''nil pointer dereference''
                                else Ret (None, s'))))))"

text \<open>\<open>strings.Contains\<close>.\<close>

fun has_prefix :: "string \<Rightarrow> string \<Rightarrow> bool" where
  "has_prefix [] s = True"
| "has_prefix (c # cs) [] = False"
| "has_prefix (c # cs) (d # ds) = (c = d \<and> has_prefix cs ds)"

fun contains :: "string \<Rightarrow> string \<Rightarrow> bool" where
  "contains [] sub = has_prefix sub []"
| "contains (c # cs) sub = (has_prefix sub (c # cs) \<or> contains cs sub)"

text \<open>
  \<open>processNextItem\<close> in two steps, so that workers can interleave: taking a key from the queue (\<open>None\<close> while
  it blocks or after shutdown), and scaling it with the deferred \<open>Forget\<close> and \<open>Done\<close>.
\<close>

definition take_item :: "(string, 'q) workqueue \<Rightarrow> ('d, 'q) autoscalerImpl \<Rightarrow> (string \<times> ('d, 'q) autoscalerImpl) option" where
  "take_item Q s = map_option (\<lambda>(key, q). (key, s\<lparr> queue := q \<rparr>)) (wq_Get Q (queue s))"

definition finish_item ::
    "(string, 'q) workqueue \<Rightarrow> 'd Decider \<Rightarrow> (Pod \<Rightarrow> bool) \<Rightarrow> k8s_client \<Rightarrow> scale_op \<Rightarrow> gotime \<Rightarrow> string \<Rightarrow> ('d, 'q) autoscalerImpl
       \<Rightarrow> ('d, 'q) autoscalerImpl go" where
  "finish_item Q D isPodReady cl sc now key s =
     go_bind (scale D isPodReady cl sc now key s) (\<lambda>(err, s').
       case err of
         Some e \<Rightarrow>
           if contains e ''mvcc'' then Panic e
           else Ret (s'\<lparr> queue := wq_Done Q (wq_Forget Q (queue s') key) key \<rparr>)
       | None \<Rightarrow> Ret (s'\<lparr> queue := wq_Done Q (wq_Forget Q (queue s') key) key \<rparr>))"

definition processNextItem ::
    "(string, 'q) workqueue \<Rightarrow> 'd Decider \<Rightarrow> (Pod \<Rightarrow> bool) \<Rightarrow> k8s_client \<Rightarrow> scale_op \<Rightarrow> gotime \<Rightarrow> ('d, 'q) autoscalerImpl
       \<Rightarrow> (bool \<times> ('d, 'q) autoscalerImpl) go" where
  "processNextItem Q D isPodReady cl sc now s =
     (case take_item Q s of
        None \<Rightarrow> Ret (False, s)
      | Some (key, s') \<Rightarrow> go_bind (finish_item Q D isPodReady cl sc now key s') (\<lambda>s''. Ret (True, s'')))"

definition Run :: "('d, 'q) autoscalerImpl \<Rightarrow> ('d, 'q) autoscalerImpl" where
  "Run s = s\<lparr> started := True \<rparr>"

text \<open>One tick of the goroutine \<open>tickAutoScaler(key)\<close>.\<close>

definition tickAutoScaler :: "(string, 'q) workqueue \<Rightarrow> string \<Rightarrow> ('d, 'q) autoscalerImpl \<Rightarrow> ('d, 'q) autoscalerImpl" where
  "tickAutoScaler Q key s = s\<lparr> queue := wq_Add Q (queue s) key \<rparr>"

definition ReqIn ::
    "(string, 'q) workqueue \<Rightarrow> 'd Decider \<Rightarrow> gotime \<Rightarrow> Request \<Rightarrow> ('d, 'q) autoscalerImpl \<Rightarrow> ('d, 'q) autoscalerImpl go" where
  "ReqIn Q D now req s =
     (if \<not> started s then Panic ''autoscaler not started''
      else let key = Target req in
        case gm_get (deciders s) key of
          None \<Rightarrow> Panic (''Req in id '' @ ID req @ '': no decider for key '' @ key)
        | Some d \<Rightarrow>
            let (v, d1) = dec_ReqIn D now d;
                (first, d2) = dec_Activate D d1;
                s1 = set_decider key d2 s;
                s2 = (if first then s1\<lparr> tickers := tickers s1 @ [key] \<rparr> else s1)
            in Ret (if \<not> async s2 \<and> dec_Desired D d2 = 0
                    then s2\<lparr> queue := wq_Add Q (queue s2) key \<rparr> else s2))"

definition ReqOut :: "'d Decider \<Rightarrow> gotime \<Rightarrow> Response \<Rightarrow> ('d, 'q) autoscalerImpl \<Rightarrow> ('d, 'q) autoscalerImpl go" where
  "ReqOut D now res s =
     (if \<not> started s then Panic ''autoscaler not started''
      else let key = Target (Source res) in
        case gm_get (deciders s) key of
          None \<Rightarrow> Panic (''Req out id '' @ ID (Source res) @ '': no decider for key '' @ key)
        | Some d \<Rightarrow> let (v, d') = dec_ReqOut D now d in Ret (set_decider key d' s))"

section \<open>The Knative autoscaler\<close>

record KnativeAutoscalerConfig =
  Async :: bool
  TargetConcurrency :: float64
  MaxScaleUpRate :: float64
  MaxScaleDownRate :: float64
  StableWindowSeconds :: float64
  PanicWindowPercentage :: float64
  PanicThresholdPercentage :: float64
  ScaleDownDelaySeconds :: int
  TickIntervalSeconds :: int

text \<open>\<open>Complete\<close> on a possibly nil configuration; the client it stores is the model's client parameter.\<close>

definition KPA_Complete :: "KnativeAutoscalerConfig option \<Rightarrow> KnativeAutoscalerConfig go" where
  "KPA_Complete cfg =
     (case cfg of
        None \<Rightarrow> Panic ''nil pointer dereference''
      | Some c \<Rightarrow> Ret (if TargetConcurrency c = Fin 0 then c\<lparr> TargetConcurrency := Fin 100 \<rparr> else c))"

definition seconds_of_float :: "float64 \<Rightarrow> duration" where
  "seconds_of_float x = int64_of (int_of_float x * Second)"

definition kpa_stableWindow :: "KnativeAutoscalerConfig \<Rightarrow> duration" where
  "kpa_stableWindow cfg = seconds_of_float (StableWindowSeconds cfg)"

definition kpa_panicWindow :: "KnativeAutoscalerConfig \<Rightarrow> duration" where
  "kpa_panicWindow cfg = seconds_of_float (fmul (fdiv (PanicWindowPercentage cfg) (Fin 100)) (StableWindowSeconds cfg))"

definition NewKnativeAutoscaler ::
    "(string, 'q) workqueue \<Rightarrow> 'b timed_buckets \<Rightarrow> 'w time_window \<Rightarrow> KnativeAutoscalerConfig \<Rightarrow> string list
       \<Rightarrow> (('b, 'w) KPADecider, 'q) autoscalerImpl" where
  "NewKnativeAutoscaler Q B W cfg keys =
     (let tick = int64_of (TickIntervalSeconds cfg * Second);
          scaleDownDelay = int64_of (ScaleDownDelaySeconds cfg * Second);
          mk = (\<lambda>key. NewKPADecider B W key (TargetConcurrency cfg) (MaxScaleUpRate cfg) (MaxScaleDownRate cfg)
                  (kpa_stableWindow cfg) (kpa_panicWindow cfg) (fdiv (PanicThresholdPercentage cfg) (Fin 100))
                  scaleDownDelay tick)
      in \<lparr> as_framework = ''kpa'', async = Async cfg, as_tickInterval = tick,
           deciders = foldl (\<lambda>m key. gm_set m key (mk key)) [] keys,
           queue = wq_new Q, started = False, tickers = [], updates = [] \<rparr>)"

section \<open>The one-time autoscaler\<close>

definition onetimeInitialScale :: int where
  "onetimeInitialScale = 1"

record OneTimeAutoscalerConfig =
  InitialScale :: int

definition OneTime_Complete :: "OneTimeAutoscalerConfig option \<Rightarrow> OneTimeAutoscalerConfig" where
  "OneTime_Complete cfg = (case cfg of None \<Rightarrow> \<lparr> InitialScale = onetimeInitialScale \<rparr> | Some c \<Rightarrow> c)"

text \<open>\<open>scalings\<close> are the goroutines started to call \<open>Scale\<close>, with their arguments.\<close>

record OneTimeAutoscaler =
  seen :: "(string, bool) gomap"
  initialScale :: int
  scalings :: "(string \<times> int) list"

definition NewOneTimeAutoscaler :: "OneTimeAutoscalerConfig \<Rightarrow> string list \<Rightarrow> OneTimeAutoscaler" where
  "NewOneTimeAutoscaler cfg keys =
     \<lparr> seen = foldl (\<lambda>m key. gm_set m key False) [] keys, initialScale = InitialScale cfg, scalings = [] \<rparr>"

definition OneTime_ReqIn :: "Request \<Rightarrow> OneTimeAutoscaler \<Rightarrow> OneTimeAutoscaler" where
  "OneTime_ReqIn req s =
     (let key = Target req in
      if gm_get (seen s) key = Some True then s
      else s\<lparr> seen := gm_set (seen s) key True, scalings := scalings s @ [(key, initialScale s)] \<rparr>)"

definition OneTime_ReqOut :: "Response \<Rightarrow> OneTimeAutoscaler \<Rightarrow> OneTimeAutoscaler" where
  "OneTime_ReqOut res s = s"

section \<open>Contracts of the interfaces\<close>

text \<open>
  A scaler asks for at most one update, of the deployment the key names and with the desired count
  cut to 32 bits, and reports a change exactly when it asked for one that succeeded.
\<close>

locale scaler =
  fixes ScaleOp :: "'env \<Rightarrow> scale_op"
  assumes changed: "ScaleOp env key desired = Ret (Inr True, us) \<Longrightarrow>
      \<exists>nn. NamespacedNameFromKey key = Ret nn \<and> us = [(nn, int32_of desired)]"
    and unchanged: "ScaleOp env key desired = Ret (Inr False, us) \<Longrightarrow> us = []"
    and failed: "ScaleOp env key desired = Ret (Inl err, us) \<Longrightarrow> length us \<le> 1"

lemma Scale_cases:
  assumes "Scale cl key desired = Ret (r, us)"
  obtains nn where "NamespacedNameFromKey key = Ret nn"
    "r = Inr True \<Longrightarrow> us = [(nn, int32_of desired)]"
    "r = Inr False \<Longrightarrow> us = [] \<and> (\<exists>dep. cl_Get cl nn = Inr dep \<and> \<not> Deleting dep \<and> Replicas dep = Some (int32_of desired))"
    "length us \<le> 1"
proof -
  obtain nn where "NamespacedNameFromKey key = Ret nn"
    using assms by (auto simp: Scale_def go_bind_eq_Ret)
  then show thesis
    using assms by (intro that) (auto simp: Scale_def split: sum.splits if_splits option.splits)
qed

interpretation deployment: scaler Scale
proof
  show "\<exists>nn. NamespacedNameFromKey key = Ret nn \<and> us = [(nn, int32_of desired)]"
    if "Scale cl key desired = Ret (Inr True, us)" for cl key desired us
    using that by (auto elim: Scale_cases)
  show "us = []" if "Scale cl key desired = Ret (Inr False, us)" for cl key desired us
    using that by (auto elim: Scale_cases)
  show "length us \<le> 1" if "Scale cl key desired = Ret (Inl err, us)" for cl key desired err us
    using that by (auto elim: Scale_cases)
qed

text \<open>
  A decider is activated by one call of \<open>Activate\<close> only, nothing deactivates it, and after a decision
  \<open>Desired\<close> returns it, cut to 32 bits.
\<close>

locale decider =
  fixes D :: "'d Decider" and live :: "'d \<Rightarrow> bool"
  assumes Activate_first: "fst (dec_Activate D d) \<longleftrightarrow> \<not> live d"
    and Activate_live: "live (snd (dec_Activate D d))"
    and ReqIn_live: "live (snd (dec_ReqIn D now d)) = live d"
    and ReqOut_live: "live (snd (dec_ReqOut D now d)) = live d"
    and Reconcile_live: "live (snd (dec_Reconcile D now ready d)) = live d"
    and Reconcile_Desired: "dec_Reconcile D now ready d = (Inr n, d') \<Longrightarrow> dec_Desired D d' = int32_of n"

lemma update_active:
  "active (snd (apply_delay W now n k)) = active k" "active (snd (apply_mode a c k)) = active k"
  "active (update_panicTime now b k) = active k"
  by (simp_all add: apply_delay_def apply_mode_def update_panicTime_def Let_def split: option.splits)

lemma KPA_Reconcile_active: "active (snd (KPA_Reconcile B W now ready k)) = active k"
  by (simp add: KPA_Reconcile_eq Let_def update_active split_beta)

lemma KPA_Reconcile_Desired: "Desired (snd (KPA_Reconcile B W now ready k)) = int32_of (fst (KPA_Reconcile B W now ready k))"
  by (simp add: KPA_Reconcile_eq Desired_def Let_def split_beta)

lemma KPA_ops_sel [simp]:
  "dec_ReqIn (KPA_ops B W) = KPA_ReqIn" "dec_ReqOut (KPA_ops B W) = KPA_ReqOut" "dec_Activate (KPA_ops B W) = Activate"
  "dec_Desired (KPA_ops B W) = Desired"
  "dec_Reconcile (KPA_ops B W) now ready k = (Inr (fst (KPA_Reconcile B W now ready k)), snd (KPA_Reconcile B W now ready k))"
  by (simp_all add: KPA_ops_def split_beta)

interpretation kpa: decider "KPA_ops B W" "\<lambda>k. active k \<noteq> 0"
proof
  show "dec_Desired (KPA_ops B W) d' = int32_of n"
    if "dec_Reconcile (KPA_ops B W) now ready d = (Inr n, d')" for now ready d n d'
    using that by (auto simp: KPA_Reconcile_Desired)
qed (auto simp: Activate_def KPA_ReqIn_def KPA_ReqOut_def KPA_Reconcile_active split_beta)

section \<open>Scaling applies the decision\<close>

context decider
begin

lemma scale_applies:
  assumes "scale D isPodReady cl (Scale cl') now key s = Ret (None, s')"
  shows "\<exists>d d' nn dep pods. gm_get (deciders s) key = Some d \<and> NamespacedNameFromKey key = Ret nn
    \<and> cl_Get cl nn = Inr dep \<and> cl_List cl (Namespace dep) (TemplateLabels dep) = Inr pods
    \<and> d' = snd (dec_Reconcile D now (count_ready isPodReady pods) d)
    \<and> s' = (set_decider key d' s)\<lparr> updates := updates s' \<rparr>
    \<and> (updates s' = updates s @ [(nn, dec_Desired D d')]
       \<or> updates s' = updates s \<and> (\<exists>dep'. cl_Get cl' nn = Inr dep' \<and> \<not> Deleting dep' \<and> Replicas dep' = Some (dec_Desired D d')))"
proof -
  obtain d where d: "gm_get (deciders s) key = Some d"
    using assms by (auto simp: scale_def split: option.splits)
  obtain nn where nn: "NamespacedNameFromKey key = Ret nn"
    using assms d by (cases "NamespacedNameFromKey key") (simp_all add: scale_def)
  obtain dep where dep: "cl_Get cl nn = Inr dep"
    using assms d nn by (cases "cl_Get cl nn") (simp_all add: scale_def)
  obtain pods where pods: "cl_List cl (Namespace dep) (TemplateLabels dep) = Inr pods"
    using assms d nn dep by (cases "cl_List cl (Namespace dep) (TemplateLabels dep)") (simp_all add: scale_def)
  obtain desired d' where r: "dec_Reconcile D now (count_ready isPodReady pods) d = (Inr desired, d')"
    using assms d nn dep pods by (auto simp: scale_def split: prod.splits sum.splits)
  obtain scaled us where sc: "Scale cl' key desired = Ret (Inr scaled, us)"
    and s': "s' = (set_decider key d' s)\<lparr> updates := updates s @ us \<rparr>"
    using assms d nn dep pods r
    by (cases "Scale cl' key desired") (auto simp: scale_def Let_def split: sum.splits if_splits)
  have des: "dec_Desired D d' = int32_of desired"
    by (rule Reconcile_Desired [OF r])
  have "us = [(nn, dec_Desired D d')]
      \<or> us = [] \<and> (\<exists>dep'. cl_Get cl' nn = Inr dep' \<and> \<not> Deleting dep' \<and> Replicas dep' = Some (dec_Desired D d'))"
    by (rule Scale_cases [OF sc]) (use nn des in \<open>cases scaled; simp\<close>)
  then show ?thesis
    using d nn dep pods r s'
    by (intro exI [of _ d] exI [of _ d'] exI [of _ nn] exI [of _ dep] exI [of _ pods]) auto
qed

end

text \<open>
  C15. A scaling round that ends without error brings the deployment to the decision: with the number
  of ready pods the API lists, the decider computes its next state, and either one update of the scale
  subresource with exactly the decider's \<open>Desired\<close> value is sent for the deployment the key names, or that
  deployment already has this many replicas and nothing is sent. Nothing but the key's decider changes.\<close>

theorem scale_applies_decision:
  assumes "scale (KPA_ops B W) isPodReady cl (Scale cl') now key s = Ret (None, s')"
  shows "\<exists>d d' nn dep pods. gm_get (deciders s) key = Some d \<and> NamespacedNameFromKey key = Ret nn
    \<and> cl_Get cl nn = Inr dep \<and> cl_List cl (Namespace dep) (TemplateLabels dep) = Inr pods
    \<and> d' = snd (KPA_Reconcile B W now (count_ready isPodReady pods) d)
    \<and> s' = (set_decider key d' s)\<lparr> updates := updates s' \<rparr>
    \<and> (updates s' = updates s @ [(nn, Desired d')]
       \<or> updates s' = updates s \<and> (\<exists>dep'. cl_Get cl' nn = Inr dep' \<and> \<not> Deleting dep' \<and> Replicas dep' = Some (Desired d')))"
  using kpa.scale_applies [OF assms] by simp

text \<open>The API of a cluster with one deployment of three replicas and two ready pods.\<close>

definition sample_deployment :: Deployment where
  "sample_deployment = \<lparr> Namespace = ''default'', Name = ''f'', Labels = [], Deleting = False, Replicas = Some 3,
     TemplateLabels = [(''app'', ''f'')] \<rparr>"

definition sample_client :: k8s_client where
  "sample_client = \<lparr> cl_Get = (\<lambda>nn. Inr sample_deployment),
     cl_List = (\<lambda>ns ls. Inr [\<lparr> Namespace = ns, Name = ''p'', Labels = ls, PodIP = ''10.0.0.1'' \<rparr>]),
     cl_UpdateScale = (\<lambda>dep n. None) \<rparr>"

definition sample_autoscaler :: "((float64, int list) KPADecider, string list \<times> string list) autoscalerImpl" where
  "sample_autoscaler = \<lparr> as_framework = ''kpa'', async = False, as_tickInterval = 2 * Second,
     deciders = [(''default/f'', sample_decider 0)], queue = ([], []), started = True, tickers = [], updates = [] \<rparr>"

theorem scale_applies_decision_witness:
  "\<exists>s' (d' :: (float64, int list) KPADecider). scale (KPA_ops last_value all_values) (\<lambda>p. True) sample_client (Scale sample_client) 7 ''default/f'' sample_autoscaler = Ret (None, s')
     \<and> (updates s' = [((''default'', ''f''), Desired d')] \<or> updates s' = [])"
proof -
  have nn: "NamespacedNameFromKey ''default/f'' = Ret (''default'', ''f'')"
    by code_simp
  have "\<exists>s'. scale (KPA_ops last_value all_values) (\<lambda>p. True) sample_client (Scale sample_client) 7 ''default/f'' sample_autoscaler = Ret (None, s')"
    using nn by (simp add: scale_def sample_autoscaler_def gm_get_def sample_client_def sample_deployment_def Scale_def Let_def)
  then obtain s' where s': "scale (KPA_ops last_value all_values) (\<lambda>p. True) sample_client (Scale sample_client) 7 ''default/f'' sample_autoscaler = Ret (None, s')"
    by blast
  obtain d' :: "(float64, int list) KPADecider" and nn' where d': "NamespacedNameFromKey ''default/f'' = Ret nn'"
      "updates s' = updates sample_autoscaler @ [(nn', Desired d')] \<or> updates s' = updates sample_autoscaler"
    using scale_applies_decision [OF s'] by (elim exE conjE) (rule that; blast)
  have "updates sample_autoscaler = []"
    by (simp add: sample_autoscaler_def)
  then show ?thesis
    using s' d' nn by (intro exI [of _ s'] exI [of _ d']) simp
qed

section \<open>All goroutines of an autoscaler\<close>

text \<open>
  The request callbacks, the tickers and the workers. A state has the autoscaler and the keys that
  workers hold between \<open>Get\<close> and \<open>Done\<close>; the result \<open>None\<close> means the event cannot happen.
\<close>

datatype as_event =
  AReqIn gotime Request | AReqOut gotime Response | ATick string | ATake
| AFinish string k8s_client scale_op gotime

fun as_step ::
    "(string, 'q) workqueue \<Rightarrow> 'd Decider \<Rightarrow> (Pod \<Rightarrow> bool) \<Rightarrow> as_event \<Rightarrow> ('d, 'q) autoscalerImpl \<times> string list
       \<Rightarrow> (('d, 'q) autoscalerImpl \<times> string list) go option" where
  "as_step Q D isPodReady (AReqIn now req) (s, ws) = Some (go_bind (ReqIn Q D now req s) (\<lambda>s'. Ret (s', ws)))"
| "as_step Q D isPodReady (AReqOut now res) (s, ws) = Some (go_bind (ReqOut D now res s) (\<lambda>s'. Ret (s', ws)))"
| "as_step Q D isPodReady (ATick key) (s, ws) =
     (if key \<in> set (tickers s) then Some (Ret (tickAutoScaler Q key s, ws)) else None)"
| "as_step Q D isPodReady ATake (s, ws) =
     (if length ws < maxConcurrentScalers then map_option (\<lambda>(key, s'). Ret (s', key # ws)) (take_item Q s) else None)"
| "as_step Q D isPodReady (AFinish key cl sc now) (s, ws) =
     (if key \<in> set ws then Some (go_bind (finish_item Q D isPodReady cl sc now key s) (\<lambda>s'. Ret (s', remove1 key ws)))
      else None)"

inductive as_reachable ::
    "(string, 'q) workqueue \<Rightarrow> 'd Decider \<Rightarrow> (Pod \<Rightarrow> bool) \<Rightarrow> ('d, 'q) autoscalerImpl \<Rightarrow> ('d, 'q) autoscalerImpl \<times> string list \<Rightarrow> bool"
  for Q D isPodReady s\<^sub>0 where
  as_start: "as_reachable Q D isPodReady s\<^sub>0 (Run s\<^sub>0, [])"
| as_next: "as_reachable Q D isPodReady s\<^sub>0 st \<Longrightarrow> as_step Q D isPodReady ev st = Some (Ret st')
    \<Longrightarrow> as_reachable Q D isPodReady s\<^sub>0 st'"

lemma set_decider_sel [simp]:
  "deciders (set_decider key d s) = gm_set (deciders s) key d" "queue (set_decider key d s) = queue s"
  "tickers (set_decider key d s) = tickers s" "started (set_decider key d s) = started s"
  "async (set_decider key d s) = async s" "updates (set_decider key d s) = updates s"
  by (simp_all add: set_decider_def)

lemma ReqIn_eq:
  assumes "started s" "map_of (deciders s) (Target req) = Some d"
  shows "ReqIn Q D now req s = Ret
    (let s1 = set_decider (Target req) (snd (dec_Activate D (snd (dec_ReqIn D now d)))) s;
         s2 = (if fst (dec_Activate D (snd (dec_ReqIn D now d))) then s1\<lparr> tickers := tickers s1 @ [Target req] \<rparr> else s1)
     in if \<not> async s2 \<and> dec_Desired D (snd (dec_Activate D (snd (dec_ReqIn D now d)))) = 0
        then s2\<lparr> queue := wq_Add Q (queue s2) (Target req) \<rparr> else s2)"
  using assms by (simp add: ReqIn_def gm_get_def Let_def split_beta)

text \<open>A scaling round replaces at most the decider of its key, by the result of \<open>Reconcile\<close>, and sends updates.\<close>

lemma scale_frame:
  assumes "scale D isPodReady cl sc now key s = Ret (err, s')"
  shows "\<exists>d us. gm_get (deciders s) key = Some d
    \<and> (s' = s \<or> (\<exists>n. s' = (set_decider key (snd (dec_Reconcile D now n d)) s)\<lparr> updates := updates s @ us \<rparr>))"
proof -
  obtain d where d: "gm_get (deciders s) key = Some d"
    using assms by (auto simp: scale_def split: option.splits)
  obtain nn where nn: "NamespacedNameFromKey key = Ret nn"
    using assms d by (cases "NamespacedNameFromKey key") (simp_all add: scale_def)
  show ?thesis
  proof (cases "s' = s")
    case False
    then obtain dep where dep: "cl_Get cl nn = Inr dep"
      using assms d nn by (cases "cl_Get cl nn") (simp_all add: scale_def)
    then obtain pods where pods: "cl_List cl (Namespace dep) (TemplateLabels dep) = Inr pods"
      using assms d nn False by (cases "cl_List cl (Namespace dep) (TemplateLabels dep)") (simp_all add: scale_def)
    obtain r d' where r: "dec_Reconcile D now (count_ready isPodReady pods) d = (r, d')"
      by fastforce
    then have d': "d' = snd (dec_Reconcile D now (count_ready isPodReady pods) d)"
      by simp
    have "\<exists>us. s' = (set_decider key d' s)\<lparr> updates := updates s @ us \<rparr>"
    proof (cases r)
      case (Inl e)
      then have "s' = set_decider key d' s"
        using assms d nn dep pods r by (simp add: scale_def)
      then show ?thesis
        by (intro exI [of _ "[]"]) (simp add: set_decider_def)
    next
      case (Inr desired)
      then show ?thesis
        using assms d nn dep pods r
        by (cases "sc key desired") (auto simp: scale_def Let_def split: sum.splits if_splits)
    qed
    then show ?thesis
      unfolding d' using d by blast
  qed (use d in blast)
qed

locale autoscaler_env = decider D live + work_queue Q dirty processing
  for D :: "'d Decider" and live :: "'d \<Rightarrow> bool" and Q :: "(string, 'q) workqueue"
    and dirty :: "'q \<Rightarrow> string set" and processing :: "'q \<Rightarrow> string set"
begin

definition live_keys :: "('d, 'q) autoscalerImpl \<Rightarrow> string set" where
  "live_keys s = {k. \<exists>d. map_of (deciders s) k = Some d \<and> live d}"

definition as_inv :: "string set \<Rightarrow> ('d, 'q) autoscalerImpl \<Rightarrow> string list \<Rightarrow> bool" where
  "as_inv K s ws \<longleftrightarrow> dom (map_of (deciders s)) = K \<and> dirty (queue s) \<subseteq> K \<and> processing (queue s) = set ws
     \<and> distinct ws \<and> set ws \<subseteq> K \<and> distinct (tickers s) \<and> set (tickers s) = live_keys s"

lemma live_keys_set:
  "live_keys (set_decider key d s) = (if live d then insert key (live_keys s) else live_keys s - {key})"
  by (auto simp: live_keys_def)

lemma live_keys_same: "map_of (deciders s) key = Some d \<Longrightarrow> live d' = live d \<Longrightarrow> live_keys (set_decider key d' s) = live_keys s"
  by (auto simp: live_keys_def)

lemma live_keys_updates [simp]: "live_keys (s\<lparr> updates := us \<rparr>) = live_keys s" "live_keys (s\<lparr> queue := q \<rparr>) = live_keys s"
  "live_keys (s\<lparr> tickers := ts \<rparr>) = live_keys s"
  by (simp_all add: live_keys_def)

lemma as_inv_set_decider:
  assumes "map_of (deciders s) key = Some d" "live d' = live d" "as_inv K s ws"
  shows "as_inv K ((set_decider key d' s)\<lparr> updates := us \<rparr>) ws"
  using assms live_keys_same [OF assms(1,2)] by (auto simp: as_inv_def split: if_splits)

lemma as_inv_ReqIn:
  assumes "ReqIn Q D now req s = Ret s'" "as_inv K s ws"
  shows "as_inv K s' ws"
proof -
  have st: "started s"
    using assms(1) by (auto simp: ReqIn_def split: if_splits)
  obtain d where d: "map_of (deciders s) (Target req) = Some d"
    using assms(1) by (auto simp: ReqIn_def Let_def gm_get_def split: if_splits option.splits)
  let ?d1 = "snd (dec_ReqIn D now d)"
  let ?d2 = "snd (dec_Activate D ?d1)"
  let ?s1 = "set_decider (Target req) ?d2 s"
  have k: "Target req \<in> K" "dom (map_of (deciders ?s1)) = K"
    using d assms(2) by (auto simp: as_inv_def)
  have f: "fst (dec_Activate D ?d1) \<longleftrightarrow> Target req \<notin> live_keys s"
    using d by (simp add: Activate_first ReqIn_live live_keys_def)
  have l: "live_keys ?s1 = insert (Target req) (live_keys s)"
    by (simp add: live_keys_set Activate_live)
  have s': "s' = (let s2 = (if fst (dec_Activate D ?d1) then ?s1\<lparr> tickers := tickers ?s1 @ [Target req] \<rparr> else ?s1)
       in if \<not> async s2 \<and> dec_Desired D ?d2 = 0 then s2\<lparr> queue := wq_Add Q (queue s2) (Target req) \<rparr> else s2)"
    using assms(1) unfolding ReqIn_eq [OF st d] by (simp add: Let_def)
  show ?thesis
    using assms(2) k f l unfolding s' Let_def as_inv_def by (auto simp: insert_absorb)
qed

lemma as_inv_ReqOut:
  assumes "ReqOut D now res s = Ret s'" "as_inv K s ws"
  shows "as_inv K s' ws"
proof -
  let ?key = "Target (Source res)"
  obtain d where d: "map_of (deciders s) ?key = Some d" and s': "s' = set_decider ?key (snd (dec_ReqOut D now d)) s"
    using assms(1) by (auto simp: ReqOut_def Let_def gm_get_def split_beta split: if_splits option.splits)
  have "s\<lparr> updates := updates s \<rparr> = s"
    by simp
  then show ?thesis
    using as_inv_set_decider [OF d ReqOut_live assms(2), where us = "updates s"] unfolding s' set_decider_def by simp
qed

lemma as_inv_finish:
  assumes "finish_item Q D isPodReady cl sc now key s = Ret s'" "as_inv K s ws" "key \<in> set ws"
  shows "as_inv K s' (remove1 key ws)"
proof -
  obtain err s1 where s1: "scale D isPodReady cl sc now key s = Ret (err, s1)"
    and s': "s' = s1\<lparr> queue := wq_Done Q (wq_Forget Q (queue s1) key) key \<rparr>"
    using assms(1) by (auto simp: finish_item_def go_bind_eq_Ret split: option.splits if_splits)
  have "as_inv K s1 ws"
  proof -
    obtain d us where d: "map_of (deciders s) key = Some d"
      and cases: "s1 = s \<or> (\<exists>n. s1 = (set_decider key (snd (dec_Reconcile D now n d)) s)\<lparr> updates := updates s @ us \<rparr>)"
      using scale_frame [OF s1] by (auto simp: gm_get_def)
    then show ?thesis
      using assms(2) as_inv_set_decider [OF d Reconcile_live assms(2)] by blast
  qed
  then show ?thesis
    using assms(3) unfolding s' as_inv_def by (auto simp: set_remove1_eq distinct_remove1)
qed

lemma as_inv_step:
  assumes "as_inv K s ws" "as_step Q D isPodReady ev (s, ws) = Some (Ret (s', ws'))"
  shows "as_inv K s' ws'"
proof (cases ev)
  case (AReqIn now req)
  then show ?thesis
    using assms as_inv_ReqIn by (auto simp: go_bind_eq_Ret)
next
  case (AReqOut now res)
  then show ?thesis
    using assms as_inv_ReqOut by (auto simp: go_bind_eq_Ret)
next
  case (ATick key)
  then show ?thesis
    using assms by (auto simp: tickAutoScaler_def as_inv_def live_keys_def split: if_splits)
next
  case ATake
  then obtain key q where "wq_Get Q (queue s) = Some (key, q)" "s' = s\<lparr> queue := q \<rparr>" "ws' = key # ws"
    using assms(2) by (auto simp: take_item_def split: if_splits)
  then show ?thesis
    using assms(1) Get_takes [of "queue s" key q] by (auto simp: as_inv_def)
next
  case (AFinish key cl sc now)
  then show ?thesis
    using assms as_inv_finish by (auto simp: go_bind_eq_Ret split: if_splits)
qed

lemma as_inv_reachable:
  assumes "as_reachable Q D isPodReady s\<^sub>0 (s, ws)"
    and "queue s\<^sub>0 = wq_new Q" "tickers s\<^sub>0 = []" "live_keys s\<^sub>0 = {}"
  shows "as_inv (dom (map_of (deciders s\<^sub>0))) s ws"
proof -
  have "case st of (s, ws) \<Rightarrow> as_inv (dom (map_of (deciders s\<^sub>0))) s ws" if "as_reachable Q D isPodReady s\<^sub>0 st" for st
    using that
  proof (induction rule: as_reachable.induct)
    case as_start
    then show ?case
      using assms(2-4) by (simp add: as_inv_def Run_def live_keys_def)
  next
    case (as_next st ev st')
    then show ?case
      using as_inv_step by (cases st; cases st') blast
  qed
  then show ?thesis
    using assms(1) by blast
qed

end

lemma kpa_deciders:
  "map_of (foldl (\<lambda>m key. gm_set m key (f key)) m keys) = (\<lambda>k. if k \<in> set keys then Some (f k) else map_of m k)"
  by (induction keys arbitrary: m) auto

lemma NewKnativeAutoscaler_inactive:
  "map_of (deciders (NewKnativeAutoscaler Q B W cfg keys)) k = Some d \<Longrightarrow> active d = 0"
  by (auto simp: NewKnativeAutoscaler_def Let_def kpa_deciders NewKPADecider_def split: if_splits)

lemma dom_NewKnativeAutoscaler: "dom (map_of (deciders (NewKnativeAutoscaler Q B W cfg keys))) = set keys"
  by (auto simp: NewKnativeAutoscaler_def Let_def kpa_deciders split: if_splits)

interpretation kpa_env: autoscaler_env "KPA_ops B W" "\<lambda>k. active k \<noteq> 0" list_queue "\<lambda>q. set (fst q)" "\<lambda>q. set (snd q)"
  by unfold_locales

text \<open>
  C22. In every interleaving of requests, ticks and workers of a started Knative autoscaler: no two
  workers scale the same key at once, a key has at most one ticker and has one exactly when its
  decider is active, and every key that waits or is being scaled is one of the registered keys, so a
  worker never runs into the panic on a missing decider.\<close>

theorem autoscaler_safety:
  fixes B :: "'b timed_buckets" and W :: "'w time_window"
  assumes "work_queue Q dirty processing"
    and "as_reachable Q (KPA_ops B W) isPodReady (NewKnativeAutoscaler Q B W cfg keys) (s, ws)"
  shows "distinct ws \<and> distinct (tickers s) \<and> dirty (queue s) \<union> set ws \<subseteq> set keys
    \<and> (\<forall>key. key \<in> set (tickers s) \<longleftrightarrow> (\<exists>d. gm_get (deciders s) key = Some d \<and> active d \<noteq> 0))
    \<and> (\<forall>key \<in> dirty (queue s) \<union> set ws. gm_get (deciders s) key \<noteq> None)"
proof -
  have env: "autoscaler_env (KPA_ops B W) (\<lambda>k. active k \<noteq> 0) Q dirty processing"
    by (intro autoscaler_env.intro kpa.decider_axioms assms(1))
  have "autoscaler_env.live_keys (\<lambda>k. active k \<noteq> 0) (NewKnativeAutoscaler Q B W cfg keys) = {}"
    unfolding autoscaler_env.live_keys_def [OF env] using NewKnativeAutoscaler_inactive by fastforce
  then have "autoscaler_env.as_inv (\<lambda>k. active k \<noteq> 0) dirty processing (set keys) s ws"
    using autoscaler_env.as_inv_reachable [OF env assms(2)]
    by (simp add: dom_NewKnativeAutoscaler) (simp add: NewKnativeAutoscaler_def Let_def)
  then show ?thesis
    unfolding autoscaler_env.as_inv_def [OF env] autoscaler_env.live_keys_def [OF env] gm_get_map_of
    by (auto simp: domIff)
qed

definition sample_kpa_config :: KnativeAutoscalerConfig where
  "sample_kpa_config = \<lparr> Async = False, TargetConcurrency = Fin 1, MaxScaleUpRate = Fin 1000, MaxScaleDownRate = Fin 2,
     StableWindowSeconds = Fin 60, PanicWindowPercentage = Fin 10, PanicThresholdPercentage = Fin 200,
     ScaleDownDelaySeconds = 0, TickIntervalSeconds = 2 \<rparr>"

theorem autoscaler_safety_witness:
  "\<exists>s. as_reachable list_queue (KPA_ops last_value all_values) (\<lambda>p. True)
        (NewKnativeAutoscaler list_queue last_value all_values sample_kpa_config [''default/f'']) (s, [''default/f''])
     \<and> set (tickers s) \<union> set (fst (queue s)) \<subseteq> {''default/f''}"
proof -
  let ?D = "KPA_ops last_value all_values"
  let ?s0 = "NewKnativeAutoscaler list_queue last_value all_values sample_kpa_config [''default/f'']"
  let ?R = "as_reachable list_queue ?D (\<lambda>p. True) ?s0"
  let ?d = "snd (Activate (snd (KPA_ReqIn 7 (the (gm_get (deciders ?s0) ''default/f'')))))"
  have "?R (Run ?s0, [])"
    by (rule as_start)
  moreover have "as_step list_queue ?D (\<lambda>p. True) (AReqIn 7 sample_request) (Run ?s0, [])
      = Some (Ret ((set_decider ''default/f'' ?d (Run ?s0))\<lparr> tickers := [''default/f''], queue := ([''default/f''], []) \<rparr>, []))"
    by (simp add: ReqIn_def Run_def NewKnativeAutoscaler_def NewKPADecider_def Let_def gm_get_def gm_set_def sample_request_def
        KPA_ReqIn_def Activate_def Desired_def sample_kpa_config_def set_decider_def split_beta)
  ultimately have 1: "?R ((set_decider ''default/f'' ?d (Run ?s0))\<lparr> tickers := [''default/f''], queue := ([''default/f''], []) \<rparr>, [])"
    by (rule as_next)
  have "?R ((set_decider ''default/f'' ?d (Run ?s0))\<lparr> tickers := [''default/f''], queue := ([], [''default/f'']) \<rparr>, [''default/f''])"
    by (rule as_next [OF 1, of ATake]) (simp add: take_item_def maxConcurrentScalers_def)
  moreover note autoscaler_safety [OF lq.work_queue_axioms calculation]
  ultimately show ?thesis
    by (intro exI conjI) (assumption, auto)
qed

text \<open>
  A request reaches its decider or panics: \<open>ReqIn\<close> panics exactly when the autoscaler was not started
  or the target has no decider. Otherwise the first request of a target starts its ticker, and with
  synchronous scaling a target whose desired scale is zero is put into the queue at once, so a worker
  can pick a key without waiting for a tick.\<close>

theorem request_triggers_scaling:
  assumes "work_queue Q dirty processing"
  shows "(panics (ReqIn Q (KPA_ops B W) now req s) \<longleftrightarrow> \<not> started s \<or> gm_get (deciders s) (Target req) = None)
    \<and> (\<forall>d s'. gm_get (deciders s) (Target req) = Some d \<longrightarrow> ReqIn Q (KPA_ops B W) now req s = Ret s' \<longrightarrow>
        tickers s' = (if active d = 0 then tickers s @ [Target req] else tickers s)
        \<and> (\<exists>d'. gm_get (deciders s') (Target req) = Some d' \<and> active d' \<noteq> 0 \<and> Desired d' = Desired d)
        \<and> (\<not> async s \<longrightarrow> Desired d = 0 \<longrightarrow> Target req \<in> dirty (queue s')
            \<and> (Target req \<notin> processing (queue s) \<longrightarrow> wq_Get Q (queue s') \<noteq> None)))"
proof (intro conjI allI impI)
  show "panics (ReqIn Q (KPA_ops B W) now req s) \<longleftrightarrow> \<not> started s \<or> gm_get (deciders s) (Target req) = None"
    by (simp add: ReqIn_def Let_def split_beta split: option.splits)
next
  fix d s'
  assume d: "gm_get (deciders s) (Target req) = Some d" and s': "ReqIn Q (KPA_ops B W) now req s = Ret s'"
  have st: "started s"
    using s' by (auto simp: ReqIn_def split: if_splits)
  let ?d2 = "snd (Activate (snd (KPA_ReqIn now d)))"
  have d2: "fst (Activate (snd (KPA_ReqIn now d))) \<longleftrightarrow> active d = 0" "active ?d2 \<noteq> 0" "Desired ?d2 = Desired d"
    by (simp_all add: Activate_def KPA_ReqIn_def Desired_def split_beta)
  note eq = s' [unfolded ReqIn_eq [OF st d [unfolded gm_get_map_of]]]
  show "tickers s' = (if active d = 0 then tickers s @ [Target req] else tickers s)"
    using eq d2(1) by (auto simp: Let_def)
  show "\<exists>d'. gm_get (deciders s') (Target req) = Some d' \<and> active d' \<noteq> 0 \<and> Desired d' = Desired d"
    using eq d2 by (intro exI [of _ ?d2]) (auto simp: Let_def gm_get_map_of)
  assume a: "\<not> async s" "Desired d = 0"
  have q: "queue s' = wq_Add Q (queue s) (Target req)"
    using eq d2(3) a by (auto simp: Let_def)
  show "Target req \<in> dirty (queue s')"
    by (simp add: q work_queue.Add_dirty [OF assms])
  show "wq_Get Q (queue s') \<noteq> None" if "Target req \<notin> processing (queue s)"
    using work_queue.added_is_served [OF assms that] by (auto simp: q)
qed

theorem request_triggers_scaling_witness:
  "\<not> panics (ReqIn list_queue (KPA_ops last_value all_values) 7 sample_request sample_autoscaler)"
  using request_triggers_scaling [OF lq.work_queue_axioms, of last_value all_values 7 sample_request sample_autoscaler]
  by (simp add: sample_autoscaler_def gm_get_def)

section \<open>The one-time autoscaler\<close>

lemma OneTime_ReqIn_simps:
  "initialScale (OneTime_ReqIn req s) = initialScale s"
  "gm_get (seen (OneTime_ReqIn req s)) k = Some True \<longleftrightarrow> gm_get (seen s) k = Some True \<or> k = Target req"
  "scalings (OneTime_ReqIn req s) =
     (if gm_get (seen s) (Target req) = Some True then scalings s else scalings s @ [(Target req, initialScale s)])"
  by (auto simp: OneTime_ReqIn_def Let_def gm_get_map_of)

lemma onetime_fold:
  assumes "\<forall>k. gm_get (seen s) k = Some True \<longleftrightarrow> k \<in> fst ` set (scalings s)" "distinct (map fst (scalings s))"
    and "\<forall>(k, n) \<in> set (scalings s). n = initialScale s"
  shows "let s' = foldl (\<lambda>s r. OneTime_ReqIn r s) s reqs in
    distinct (map fst (scalings s')) \<and> fst ` set (scalings s') = fst ` set (scalings s) \<union> Target ` set reqs
    \<and> (\<forall>(k, n) \<in> set (scalings s'). n = initialScale s)"
  using assms
proof (induction reqs arbitrary: s)
  case (Cons req reqs)
  let ?s = "OneTime_ReqIn req s"
  have "\<forall>k. gm_get (seen ?s) k = Some True \<longleftrightarrow> k \<in> fst ` set (scalings ?s)"
    "distinct (map fst (scalings ?s))" "\<forall>(k, n) \<in> set (scalings ?s). n = initialScale ?s"
    "fst ` set (scalings ?s) = insert (Target req) (fst ` set (scalings s))"
    using Cons.prems by (auto simp: OneTime_ReqIn_simps)
  then show ?case
    using Cons.IH [of ?s] by (simp add: OneTime_ReqIn_simps(1) Let_def)
qed (simp add: Let_def)

text \<open>
  Whatever requests arrive, the one-time autoscaler starts exactly one scaling per target that was
  requested, to the configured initial scale, and none for the others.\<close>

theorem onetime_scales_once:
  "let s = foldl (\<lambda>s r. OneTime_ReqIn r s) (NewOneTimeAutoscaler cfg keys) reqs in
     distinct (map fst (scalings s)) \<and> set (map fst (scalings s)) = set (map Target reqs)
     \<and> set (map snd (scalings s)) \<subseteq> {InitialScale cfg}"
proof -
  have "gm_get (seen (NewOneTimeAutoscaler cfg keys)) k \<noteq> Some True" for k
    by (simp add: NewOneTimeAutoscaler_def gm_get_map_of kpa_deciders)
  then show ?thesis
    using onetime_fold [of "NewOneTimeAutoscaler cfg keys" reqs] by (fastforce simp: NewOneTimeAutoscaler_def Let_def)
qed

section \<open>The Knative configuration\<close>

lemma seconds_of_float_mono:
  assumes "0 \<le> x" "x \<le> y" "y \<le> 2 ^ 33"
  shows "seconds_of_float (Fin x) = \<lfloor>x\<rfloor> * Second \<and> 0 \<le> seconds_of_float (Fin x) \<and> seconds_of_float (Fin x) \<le> seconds_of_float (Fin y)"
proof -
  have "0 \<le> \<lfloor>x\<rfloor>" "\<lfloor>x\<rfloor> \<le> \<lfloor>y\<rfloor>" "\<lfloor>y\<rfloor> \<le> \<lfloor>2 ^ 33 :: rat\<rfloor>"
    using assms by (auto intro: floor_mono)
  then have b: "0 \<le> \<lfloor>x\<rfloor>" "\<lfloor>x\<rfloor> \<le> \<lfloor>y\<rfloor>" "\<lfloor>y\<rfloor> \<le> 2 ^ 33"
    by simp_all
  have "seconds_of_float (Fin z) = \<lfloor>z\<rfloor> * Second" if "0 \<le> z" "0 \<le> \<lfloor>z\<rfloor>" "\<lfloor>z\<rfloor> \<le> 2 ^ 33" for z
  proof -
    have "int_of_float (Fin z) = \<lfloor>z\<rfloor>"
      using that by (simp add: rat_trunc_def)
    moreover have "int64_of (n * Second) = n * Second" if "0 \<le> n" "n \<le> 2 ^ 33" for n
      using that by (intro int64_of_id) (simp_all add: Second_def)
    ultimately show ?thesis
      using that(2,3) unfolding seconds_of_float_def by presburger
  qed
  then show ?thesis
    using b assms by (auto simp: Second_def)
qed

text \<open>
  For a stable window of up to \<open>2^33\<close> seconds and a panic percentage between 0 and 100 the panic
  window that the autoscaler derives is never negative and never longer than the stable window, both
  are whole seconds, and \<open>Complete\<close> replaces a zero target concurrency by 100 and panics on a nil
  configuration.\<close>

theorem knative_windows:
  assumes "StableWindowSeconds cfg = Fin w" "0 \<le> w" "w \<le> 2 ^ 33" "rnd64 w = w"
    and "PanicWindowPercentage cfg = Fin p" "0 \<le> p" "p \<le> 100"
  shows "0 \<le> kpa_panicWindow cfg \<and> kpa_panicWindow cfg \<le> kpa_stableWindow cfg
    \<and> kpa_stableWindow cfg = \<lfloor>w\<rfloor> * Second \<and> (\<exists>n. kpa_panicWindow cfg = n * Second)
    \<and> (\<exists>c. KPA_Complete (Some cfg) = Ret c \<and> TargetConcurrency c \<noteq> Fin 0 \<and> (TargetConcurrency cfg \<noteq> Fin 0 \<longrightarrow> c = cfg))
    \<and> panics (KPA_Complete None)"
proof -
  let ?q = "rnd64 (p / 100)"
  have "moderate (p / 100)"
    using assms(6,7) moderate_between [OF moderate_of_int [of 1], of "p / 100"] by simp
  moreover have q: "0 \<le> ?q" "?q \<le> 1"
    using assms(6,7) binary64.nonneg [of "p / 100"] binary64.le_int [of "p / 100" 1] by simp_all
  ultimately have div: "fdiv (Fin p) (Fin 100) = Fin ?q"
    by simp
  have m: "0 \<le> ?q * w" "?q * w \<le> w"
    using q assms(2) by (simp_all add: mult_left_le_one_le)
  moreover have "moderate w"
    using assms(2,3) moderate_between [OF moderate_of_int [of "2 ^ 33"], of w] by simp
  ultimately have "moderate (?q * w)"
    using moderate_between by blast
  then have mul: "fmul (Fin ?q) (Fin w) = Fin (rnd64 (?q * w))"
    by simp
  have "0 \<le> rnd64 (?q * w)" "rnd64 (?q * w) \<le> w"
    using binary64.nonneg [OF m(1)] binary64.mono [OF m(2)] assms(4) by simp_all
  then have "kpa_panicWindow cfg = \<lfloor>rnd64 (?q * w)\<rfloor> * Second \<and> 0 \<le> kpa_panicWindow cfg \<and> kpa_panicWindow cfg \<le> kpa_stableWindow cfg"
    using seconds_of_float_mono [OF _ _ assms(3)]
    unfolding kpa_panicWindow_def kpa_stableWindow_def assms(1,5) div mul by blast
  moreover have "kpa_stableWindow cfg = \<lfloor>w\<rfloor> * Second"
    using seconds_of_float_mono [OF assms(2) order_refl assms(3)] by (simp add: kpa_stableWindow_def assms(1))
  ultimately show ?thesis
    by (auto simp: KPA_Complete_def)
qed

theorem knative_windows_witness:
  "0 \<le> kpa_panicWindow sample_kpa_config \<and> kpa_stableWindow sample_kpa_config = 60 * Second"
  using knative_windows [of sample_kpa_config 60 10] binary64.exact_int [of 60]
  by (simp add: sample_kpa_config_def)

end
