(* ===== verification/Gateway.thy ===== *)
theory Gateway
  imports Autoscaler Dispatcher
begin

text \<open>
  \<open>pkg/gateway\<close>: the channels between the client, the dispatchers and the autoscaler. \<open>interface.go\<close> keeps
  the buffers of every target and relays requests and responses; \<open>k8s.go\<close> builds it over pod dispatchers
  and an autoscaler and reconciles the ready pods; \<open>knative.go\<close> builds it over Knative services; the
  flags that choose among them are checked in \<open>experiments/trace/main.go\<close>. A buffer is a \<open>chann.Chann\<close>
  (parameters \<open>CQ\<close> and \<open>CS\<close>). The whole system of relays and dispatchers is a step function over an
  abstract dispatcher, the locale \<open>request_dispatcher\<close>, and the end-to-end properties hold for both.
\<close>

section \<open>Buffers\<close>

record ('rq, 'rs) gatewayImpl =
  internalInputBuffers :: "(string, 'rq) gomap"
  internalOutputBuffers :: "(string, 'rs) gomap"
  externalInputs :: "(string, 'rq) gomap"
  externalOutput :: 'rs

definition newGatewayImpl :: "(Response, 'rs) chann \<Rightarrow> ('rq, 'rs) gatewayImpl" where
  "newGatewayImpl CS = \<lparr> internalInputBuffers = [], internalOutputBuffers = [], externalInputs = [], externalOutput = ch_new CS \<rparr>"

text \<open>The method call on the nil buffer of an unregistered target panics.\<close>

definition RequestChan :: "('rq, 'rs) gatewayImpl \<Rightarrow> string \<Rightarrow> 'rq go" where
  "RequestChan g target =
     (case gm_get (externalInputs g) target of None \<Rightarrow> Panic ''nil pointer dereference'' | Some c \<Rightarrow> Ret c)"

definition ResponseChan :: "('rq, 'rs) gatewayImpl \<Rightarrow> string \<Rightarrow> 'rs" where
  "ResponseChan g target = externalOutput g"

definition gateway_Close :: "('rq \<Rightarrow> 'rq) \<Rightarrow> ('rs \<Rightarrow> 'rs) \<Rightarrow> ('rq, 'rs) gatewayImpl \<Rightarrow> ('rq, 'rs) gatewayImpl" where
  "gateway_Close closeQ closeS g =
     g\<lparr> externalOutput := closeS (externalOutput g), externalInputs := map (\<lambda>(k, c). (k, closeQ c)) (externalInputs g) \<rparr>"

definition internalBuffers :: "('rq, 'rs) gatewayImpl \<Rightarrow> string \<Rightarrow> ('rq \<times> 'rs) go" where
  "internalBuffers g key =
     (case (gm_get (internalInputBuffers g) key, gm_get (internalOutputBuffers g) key) of
        (Some c, Some d) \<Rightarrow> Ret (c, d)
      | _ \<Rightarrow> Panic ''nil pointer dereference'')"

definition register :: "(Request, 'rq) chann \<Rightarrow> (Response, 'rs) chann \<Rightarrow> string \<Rightarrow> ('rq, 'rs) gatewayImpl \<Rightarrow> ('rq, 'rs) gatewayImpl" where
  "register CQ CS key g =
     g\<lparr> externalInputs := gm_set (externalInputs g) key (ch_new CQ),
        internalInputBuffers := gm_set (internalInputBuffers g) key (ch_new CQ),
        internalOutputBuffers := gm_set (internalOutputBuffers g) key (ch_new CS) \<rparr>"

section \<open>The relay\<close>

text \<open>The package variable \<open>tracingOutputPeriod\<close>.\<close>

definition tracingOutputPeriod :: duration where
  "tracingOutputPeriod = 5 * Second"

definition StartTracing :: "int \<Rightarrow> duration" where
  "StartTracing period = int64_of (period * Second)"

record relay_vars =
  nSend :: int
  nRecv :: int
  lastTraceSendTime :: gotime
  lastTraceRecvTime :: gotime

definition relay_init :: "gotime \<Rightarrow> gotime \<Rightarrow> relay_vars" where
  "relay_init t u = \<lparr> nSend = 0, nRecv = 0, lastTraceSendTime = t, lastTraceRecvTime = u \<rparr>"

text \<open>
  The two cases of the \<open>select\<close>. The first yields the response that rejects the request, or the stamped
  request to forward; \<open>now\<close> is the clock read. The logged line is the text of the first component.
\<close>

datatype relay_action = Reject Response | Forward Request

definition outstanding_line :: "string \<Rightarrow> string \<Rightarrow> relay_vars \<Rightarrow> string" where
  "outstanding_line tag i r = tag @ '' id='' @ i @ '' outstanding='' @ dec (nSend r - nRecv r)
     @ '' send/recv='' @ dec (nSend r) @ ''/'' @ dec (nRecv r)"

definition relay_request :: "duration \<Rightarrow> string \<Rightarrow> gotime \<Rightarrow> Request \<Rightarrow> relay_vars \<Rightarrow> string list \<times> relay_action \<times> relay_vars" where
  "relay_request period key now req r =
     (if Target req \<noteq> key then ([''Fail to relay req''], Reject (mk_Response req INVALID_TARGET), r)
      else
        let req' = req\<lparr> GatewayRecvTS := now \<rparr>;
            r1 = r\<lparr> nSend := nSend r + 1 \<rparr>
        in if time_Sub now (lastTraceSendTime r1) > period
           then ([outstanding_line ''[DEBUG][Send]'' (ID req) r1], Forward req', r1\<lparr> lastTraceSendTime := now \<rparr>)
           else ([], Forward req', r1))"

definition relay_response :: "duration \<Rightarrow> Response \<Rightarrow> relay_vars \<Rightarrow> string list \<times> relay_vars" where
  "relay_response period res r =
     (let r1 = r\<lparr> nRecv := nRecv r + 1 \<rparr>
      in if time_Sub (ResGatewayRecvTS res) (lastTraceRecvTime r1) > period
         then ([outstanding_line ''[DEBUG][Recv]'' (ID (Source res)) r1], r1\<lparr> lastTraceRecvTime := ResGatewayRecvTS res \<rparr>)
         else ([], r1))"

text \<open>
  One iteration of \<open>relay\<close> for the target \<open>key\<close>, with the callbacks as functions on the autoscaler's state
  \<open>'a\<close>. \<open>None\<close>: the case is not ready; the iteration that finds the context done ends the loop.
\<close>

type_synonym ('rq, 'rs, 'a) relay_state = "('rq, 'rs) gatewayImpl \<times> relay_vars \<times> 'a"

definition relay_from_client ::
    "(Request, 'rq) chann \<Rightarrow> (Response, 'rs) chann \<Rightarrow> (Request \<Rightarrow> 'a \<Rightarrow> 'a go) \<Rightarrow> duration \<Rightarrow> string \<Rightarrow> gotime
       \<Rightarrow> ('rq, 'rs, 'a) relay_state \<Rightarrow> ('rq, 'rs, 'a) relay_state go option" where
  "relay_from_client CQ CS onReqIn period key now = (\<lambda>(g, r, a).
     case gm_get (externalInputs g) key of
       None \<Rightarrow> Some (Panic ''nil pointer dereference'')
     | Some c \<Rightarrow>
         (case ch_recv CQ c of
            None \<Rightarrow> None
          | Some (req, c') \<Rightarrow>
              let g1 = g\<lparr> externalInputs := gm_set (externalInputs g) key c' \<rparr> in
              (case relay_request period key now req r of
                 (_, Reject res, r') \<Rightarrow> Some (Ret (g1\<lparr> externalOutput := ch_send CS (externalOutput g1) res \<rparr>, r', a))
               | (_, Forward req', r') \<Rightarrow>
                   Some (go_bind (onReqIn req a) (\<lambda>a'.
                     case gm_get (internalInputBuffers g1) key of
                       None \<Rightarrow> Panic ''nil pointer dereference''
                     | Some d \<Rightarrow> Ret (g1\<lparr> internalInputBuffers := gm_set (internalInputBuffers g1) key (ch_send CQ d req') \<rparr>, r', a'))))))"

definition relay_to_client ::
    "(Response, 'rs) chann \<Rightarrow> (Response \<Rightarrow> 'a \<Rightarrow> 'a go) \<Rightarrow> duration \<Rightarrow> string
       \<Rightarrow> ('rq, 'rs, 'a) relay_state \<Rightarrow> ('rq, 'rs, 'a) relay_state go option" where
  "relay_to_client CS onReqOut period key = (\<lambda>(g, r, a).
     case gm_get (internalOutputBuffers g) key of
       None \<Rightarrow> Some (Panic ''nil pointer dereference'')
     | Some c \<Rightarrow>
         (case ch_recv CS c of
            None \<Rightarrow> None
          | Some (res, c') \<Rightarrow>
              Some (go_bind (onReqOut res a) (\<lambda>a'.
                let g1 = g\<lparr> internalOutputBuffers := gm_set (internalOutputBuffers g) key c' \<rparr>;
                    (_, r') = relay_response period res r
                in Ret (g1\<lparr> externalOutput := ch_send CS (externalOutput g1) res \<rparr>, r', a')))))"

section \<open>Flags and configuration\<close>

record flags =
  gatewayFramework :: string
  backendFramework :: string
  autoscalerFramework :: string
  autoscalerConfig :: string
  traceLoaderConfig :: string

definition default_flags :: flags where
  "default_flags = \<lparr> gatewayFramework = ''k8s'', backendFramework = ''fake'', autoscalerFramework = ''one-time'',
     autoscalerConfig = '''', traceLoaderConfig = ''config/loader.json'' \<rparr>"

definition validateFlags :: "flags \<Rightarrow> flags go" where
  "validateFlags f =
     (if traceLoaderConfig f = '''' then Panic ''must provide workload config''
      else if gatewayFramework f = ''knative'' then
        let f1 = (if autoscalerFramework f \<noteq> '''' \<or> autoscalerConfig f \<noteq> ''''
                  then f\<lparr> autoscalerFramework := '''', autoscalerConfig := '''' \<rparr> else f)
        in if backendFramework f1 = '''' then Ret (f1\<lparr> backendFramework := ''grpc'' \<rparr>)
           else if backendFramework f1 \<noteq> ''grpc'' then Panic ''Only grpc backend is supported for knative gateway''
           else Ret f1
      else if gatewayFramework f = ''k8s'' then
        if autoscalerFramework f \<noteq> ''one-time'' \<and> autoscalerConfig f = '''' then Panic ''Must provide config for autoscaler''
        else if backendFramework f = '''' then Ret (f\<lparr> backendFramework := ''fake'' \<rparr>)
        else if backendFramework f \<noteq> ''grpc'' \<and> backendFramework f \<noteq> ''fake''
             then Panic ''Only fake/grpc backend is supported for k8s gateway''
        else Ret f
      else Panic ''Unknown gateway framework'')"

record AutoscalerConfig =
  Knative :: "KnativeAutoscalerConfig option"
  OneTime :: "OneTimeAutoscalerConfig option"

text \<open>Reading and unmarshalling the file are arguments; the empty path gives a nil configuration.\<close>

definition NewAutoscalerConfigFrom ::
    "(string \<Rightarrow> string + string) \<Rightarrow> (string \<Rightarrow> string + AutoscalerConfig) \<Rightarrow> string \<Rightarrow> string + AutoscalerConfig option" where
  "NewAutoscalerConfigFrom readFile unmarshal configPath =
     (if configPath = '''' then Inr None
      else case readFile configPath of
          Inl err \<Rightarrow> Inl (''failed to read gateway YAML config: '' @ err)
        | Inr yaml \<Rightarrow> (case unmarshal yaml of
              Inl err \<Rightarrow> Inl (''failed to unmarshal YAML config: '' @ err)
            | Inr config \<Rightarrow> Inr (Some config)))"

section \<open>The Kubernetes gateway\<close>

datatype ('b, 'w, 'q) anyAutoscaler =
  KPA_Autoscaler "(('b, 'w) KPADecider, 'q) autoscalerImpl"
| OneTime_Autoscaler OneTimeAutoscaler

datatype autoscalerFn = KPAFn "AutoscalerConfig option" | OneTimeFn "AutoscalerConfig option"

record ('rq, 'rs, 'm, 't, 'b, 'w, 'q) k8sGateway =
  gw_impl :: "('rq, 'rs) gatewayImpl"
  dispatchTimeout :: duration
  dispatchers :: "(string, ('m, 't) PodDispatcher) gomap"
  gw_autoscaler :: "('b, 'w, 'q) anyAutoscaler option"
  newAutoscalerFn :: "autoscalerFn option"

definition NewK8sGateway ::
    "(Response, 'rs) chann \<Rightarrow> duration \<Rightarrow> string \<Rightarrow> string + AutoscalerConfig option
       \<Rightarrow> string + ('rq, 'rs, 'm, 't, 'b, 'w, 'q) k8sGateway" where
  "NewK8sGateway CS timeout asFramework config =
     (case config of
        Inl err \<Rightarrow> Inl (''failed to parse autoscaler config: '' @ err)
      | Inr asConfig \<Rightarrow>
          Inr \<lparr> gw_impl = newGatewayImpl CS, dispatchTimeout = timeout, dispatchers = [], gw_autoscaler = None,
                newAutoscalerFn = (if asFramework = ''kpa'' then Some (KPAFn asConfig)
                                   else if asFramework = ''one-time'' then Some (OneTimeFn asConfig) else None) \<rparr>)"

text \<open>The closures stored in \<open>newAutoscalerFn\<close>; a field access through a nil configuration panics.\<close>

fun run_autoscalerFn ::
    "(string, 'q) workqueue \<Rightarrow> 'b timed_buckets \<Rightarrow> 'w time_window \<Rightarrow> autoscalerFn \<Rightarrow> string list \<Rightarrow> ('b, 'w, 'q) anyAutoscaler go" where
  "run_autoscalerFn Q B W (KPAFn asConfig) keys =
     (case asConfig of
        None \<Rightarrow> Panic ''nil pointer dereference''
      | Some c \<Rightarrow> go_bind (KPA_Complete (Knative c)) (\<lambda>cfg. Ret (KPA_Autoscaler (NewKnativeAutoscaler Q B W cfg keys))))"
| "run_autoscalerFn Q B W (OneTimeFn asConfig) keys =
     (case asConfig of
        None \<Rightarrow> Panic ''nil pointer dereference''
      | Some c \<Rightarrow> Ret (OneTime_Autoscaler (NewOneTimeAutoscaler (OneTime_Complete (OneTime c)) keys)))"

fun register_all ::
    "(Request, 'rq) chann \<Rightarrow> (Response, 'rs) chann \<Rightarrow> ('m, 'e) sharedMap \<Rightarrow> (string, 't) chann \<Rightarrow> Deployment list
       \<Rightarrow> ('rq, 'rs, 'm, 't, 'b, 'w, 'q) k8sGateway \<Rightarrow> ('rq, 'rs, 'm, 't, 'b, 'w, 'q) k8sGateway" where
  "register_all CQ CS S T [] g = g"
| "register_all CQ CS S T (target # targets) g =
     (let key = KeyFromObject target in
      register_all CQ CS S T targets
        (g\<lparr> gw_impl := register CQ CS key (gw_impl g),
            dispatchers := gm_set (dispatchers g) key (NewPodDispatcher S T key (dispatchTimeout g)) \<rparr>))"

definition k8s_SetUpWithManager ::
    "(Request, 'rq) chann \<Rightarrow> (Response, 'rs) chann \<Rightarrow> ('m, 'e) sharedMap \<Rightarrow> (string, 't) chann
       \<Rightarrow> (string, 'q) workqueue \<Rightarrow> 'b timed_buckets \<Rightarrow> 'w time_window \<Rightarrow> string + Deployment list
       \<Rightarrow> ('rq, 'rs, 'm, 't, 'b, 'w, 'q) k8sGateway \<Rightarrow> (string + ('rq, 'rs, 'm, 't, 'b, 'w, 'q) k8sGateway) go" where
  "k8s_SetUpWithManager CQ CS S T Q B W listed g =
     (case listed of
        Inl err \<Rightarrow> Ret (Inl (''error listing deployments in k8s gateway: '' @ err))
      | Inr targets \<Rightarrow>
          let keys = map KeyFromObject targets;
              g1 = register_all CQ CS S T targets g
          in case newAutoscalerFn g1 of
               None \<Rightarrow> Ret (Inr g1)
             | Some fn \<Rightarrow> go_bind (run_autoscalerFn Q B W fn keys) (\<lambda>a. Ret (Inr (g1\<lparr> gw_autoscaler := Some a \<rparr>))))"

text \<open>The callbacks; a call through the nil interface panics.\<close>

definition k8s_onReqIn ::
    "(string, 'q) workqueue \<Rightarrow> 'b timed_buckets \<Rightarrow> 'w time_window \<Rightarrow> gotime \<Rightarrow> Request \<Rightarrow> ('b, 'w, 'q) anyAutoscaler option
       \<Rightarrow> ('b, 'w, 'q) anyAutoscaler option go" where
  "k8s_onReqIn Q B W now req a =
     (case a of
        None \<Rightarrow> Panic ''nil pointer dereference''
      | Some (KPA_Autoscaler s) \<Rightarrow> go_bind (ReqIn Q (KPA_ops B W) now req s) (\<lambda>s'. Ret (Some (KPA_Autoscaler s')))
      | Some (OneTime_Autoscaler s) \<Rightarrow> Ret (Some (OneTime_Autoscaler (OneTime_ReqIn req s))))"

definition k8s_onReqOut ::
    "'b timed_buckets \<Rightarrow> 'w time_window \<Rightarrow> gotime \<Rightarrow> Response \<Rightarrow> ('b, 'w, 'q) anyAutoscaler option
       \<Rightarrow> ('b, 'w, 'q) anyAutoscaler option go" where
  "k8s_onReqOut B W now res a =
     (case a of
        None \<Rightarrow> Panic ''nil pointer dereference''
      | Some (KPA_Autoscaler s) \<Rightarrow> go_bind (ReqOut (KPA_ops B W) now res s) (\<lambda>s'. Ret (Some (KPA_Autoscaler s')))
      | Some (OneTime_Autoscaler s) \<Rightarrow> Ret (Some (OneTime_Autoscaler (OneTime_ReqOut res s))))"

text \<open>The goroutines that \<open>Start\<close> launches, in no particular order.\<close>

datatype goroutine = RelayOf string | DispatcherOf string | AutoscalerRun

definition k8s_Start :: "('rq, 'rs, 'm, 't, 'b, 'w, 'q) k8sGateway \<Rightarrow> goroutine list" where
  "k8s_Start g = concat (map (\<lambda>key. [RelayOf key, DispatcherOf key]) (gm_keys (dispatchers g)))
     @ (if gw_autoscaler g \<noteq> None then [AutoscalerRun] else [])"

definition FilterEvent :: "'a ObjectMeta_scheme \<Rightarrow> bool" where
  "FilterEvent obj = IsTraceWorkload obj"

definition enqueueWorkload :: "'a ObjectMeta_scheme \<Rightarrow> NamespacedName list go" where
  "enqueueWorkload obj = go_bind (NamespacedNameFromKey (KeyFromObject obj)) (\<lambda>nn. Ret [nn])"

text \<open>\<open>Reconcile\<close>: the answers of \<open>Get\<close> and \<open>List\<close>, then the pods handed to the dispatcher. A failing \<open>List\<close> leaves the pod list empty.\<close>

datatype api_error = NotFound | ApiError string

definition k8s_Reconcile ::
    "('m, 'e) sharedMap \<Rightarrow> (string, 't) chann \<Rightarrow> 'e backends \<Rightarrow> ('p Pod_scheme \<Rightarrow> bool)
       \<Rightarrow> (NamespacedName \<Rightarrow> api_error + Deployment) \<Rightarrow> (string \<Rightarrow> labels \<Rightarrow> string + 'p Pod_scheme list) \<Rightarrow> NamespacedName
       \<Rightarrow> ('rq, 'rs, 'm, 't, 'b, 'w, 'q) k8sGateway \<Rightarrow> (string list \<times> ('rq, 'rs, 'm, 't, 'b, 'w, 'q) k8sGateway) go" where
  "k8s_Reconcile S T mk isPodReady getD listP nn g =
     (let key = NamespacedName_String nn in
      case getD nn of
        Inl NotFound \<Rightarrow> Ret ([], g)
      | Inl (ApiError err) \<Rightarrow> Ret ([err], g)
      | Inr target \<Rightarrow>
          let pods = (case listP (Namespace target) (TemplateLabels target) of Inl err \<Rightarrow> [] | Inr ps \<Rightarrow> ps);
              readyPods = filter isPodReady pods
          in case gm_get (dispatchers g) key of
               None \<Rightarrow> Ret ([], g)
             | Some pd \<Rightarrow>
                 go_bind (Reconcile S T mk readyPods pd) (\<lambda>(errs, closing, pd').
                   Ret (errs, g\<lparr> dispatchers := gm_set (dispatchers g) key pd' \<rparr>)))"

section \<open>The Knative gateway\<close>

record KnService = ObjectMeta +
  URL :: string

record ('rq, 'rs, 'e) knativeGateway =
  kn_impl :: "('rq, 'rs) gatewayImpl"
  kn_dispatchTimeout :: duration
  kn_dispatchers :: "(string, 'e KnServiceDispatcher) gomap"

definition NewKnativeGateway :: "(Response, 'rs) chann \<Rightarrow> duration \<Rightarrow> ('rq, 'rs, 'e) knativeGateway" where
  "NewKnativeGateway CS timeout = \<lparr> kn_impl = newGatewayImpl CS, kn_dispatchTimeout = timeout, kn_dispatchers = [] \<rparr>"

fun kn_register_all ::
    "(Request, 'rq) chann \<Rightarrow> (Response, 'rs) chann \<Rightarrow> 'e backends \<Rightarrow> KnService list
       \<Rightarrow> ('rq, 'rs, 'e) knativeGateway \<Rightarrow> (string + ('rq, 'rs, 'e) knativeGateway) go" where
  "kn_register_all CQ CS mk [] g = Ret (Inr g)"
| "kn_register_all CQ CS mk (service # services) g =
     (let key = KeyFromObject service;
          g1 = g\<lparr> kn_impl := register CQ CS key (kn_impl g) \<rparr>
      in go_bind (NewKnServiceDispatcher mk key (kn_dispatchTimeout g) (URL service)) (\<lambda>r.
           case r of
             Inl err \<Rightarrow> Ret (Inl (''failed to create knative service dispatcher: '' @ err))
           | Inr kd \<Rightarrow> kn_register_all CQ CS mk services (g1\<lparr> kn_dispatchers := gm_set (kn_dispatchers g1) key kd \<rparr>)))"

definition kn_SetUpWithManager ::
    "(Request, 'rq) chann \<Rightarrow> (Response, 'rs) chann \<Rightarrow> 'e backends \<Rightarrow> string + KnService list
       \<Rightarrow> ('rq, 'rs, 'e) knativeGateway \<Rightarrow> (string + ('rq, 'rs, 'e) knativeGateway) go" where
  "kn_SetUpWithManager CQ CS mk listed g =
     (case listed of
        Inl err \<Rightarrow> Ret (Inl (''error listing kn services in knative gateway: '' @ err))
      | Inr services \<Rightarrow> kn_register_all CQ CS mk services g)"

definition kn_onReqIn :: "Request \<Rightarrow> unit \<Rightarrow> unit go" where
  "kn_onReqIn req a = Ret a"

definition kn_onReqOut :: "Response \<Rightarrow> unit \<Rightarrow> unit go" where
  "kn_onReqOut res a = Ret a"

definition kn_Start :: "('rq, 'rs, 'e) knativeGateway \<Rightarrow> goroutine list" where
  "kn_Start g = concat (map (\<lambda>key. [RelayOf key, DispatcherOf key]) (gm_keys (kn_dispatchers g)))"

section \<open>Relays and dispatchers together\<close>

text \<open>
  The gateway with the relay variables and the dispatcher of every target, the autoscaler and the
  responses handed to the client. A channel between a relay and a dispatcher is the gateway's buffer
  followed by the dispatcher's own queue; \<open>GDispIn\<close> and \<open>GDispOut\<close> move an item from one to the other.
  \<open>GAutoscaler f\<close> is a step \<open>f\<close> of the autoscaler's own goroutines.
\<close>

record ('rq, 'rs, 's, 'a) gw_sys =
  gs_impl :: "('rq, 'rs) gatewayImpl"
  gs_relay :: "string \<Rightarrow> relay_vars"
  gs_disp :: "string \<Rightarrow> 's"
  gs_as :: 'a
  gs_delivered :: "Response list"

datatype ('ev, 'a) gw_event =
  GSubmit string Request | GRelayReq string gotime gotime | GRelayRes string gotime
| GDispIn string | GDisp string 'ev | GDispOut string | GDeliver | GAutoscaler "'a \<Rightarrow> 'a"

text \<open>The operations of the dispatcher the gateway is built over.\<close>

record ('ev, 's) dispatcher_ops =
  d_step :: "'ev \<Rightarrow> 's \<Rightarrow> 's option"
  d_put :: "Request \<Rightarrow> 'ev"
  d_injected :: "'ev \<Rightarrow> Request list"
  d_responses :: "'s \<Rightarrow> Response list"
  d_pop :: "'s \<Rightarrow> 's"

record 'a gw_callbacks =
  on_ReqIn :: "gotime \<Rightarrow> Request \<Rightarrow> 'a \<Rightarrow> 'a go"
  on_ReqOut :: "gotime \<Rightarrow> Response \<Rightarrow> 'a \<Rightarrow> 'a go"

definition relayed :: "string \<Rightarrow> ('rq, 'rs, 's, 'a) gw_sys \<Rightarrow> ('rq, 'rs, 'a) relay_state go option \<Rightarrow> ('rq, 'rs, 's, 'a) gw_sys option" where
  "relayed key s out =
     (case out of
        Some (Ret (g, r, a)) \<Rightarrow> Some (s\<lparr> gs_impl := g, gs_relay := (gs_relay s)(key := r), gs_as := a \<rparr>)
      | _ \<Rightarrow> None)"

fun gw_step ::
    "(Request, 'rq) chann \<Rightarrow> (Response, 'rs) chann \<Rightarrow> ('ev, 's) dispatcher_ops \<Rightarrow> 'a gw_callbacks \<Rightarrow> duration
       \<Rightarrow> ('ev, 'a) gw_event \<Rightarrow> ('rq, 'rs, 's, 'a) gw_sys \<Rightarrow> ('rq, 'rs, 's, 'a) gw_sys option" where
  "gw_step CQ CS D cb period (GSubmit key req) s =
     (case gm_get (externalInputs (gs_impl s)) key of
        None \<Rightarrow> None
      | Some c \<Rightarrow> Some (s\<lparr> gs_impl := (gs_impl s)\<lparr> externalInputs := gm_set (externalInputs (gs_impl s)) key (ch_send CQ c req) \<rparr> \<rparr>))"
| "gw_step CQ CS D cb period (GRelayReq key t now) s =
     relayed key s (relay_from_client CQ CS (on_ReqIn cb t) period key now (gs_impl s, gs_relay s key, gs_as s))"
| "gw_step CQ CS D cb period (GRelayRes key t) s =
     relayed key s (relay_to_client CS (on_ReqOut cb t) period key (gs_impl s, gs_relay s key, gs_as s))"
| "gw_step CQ CS D cb period (GDispIn key) s =
     (case gm_get (internalInputBuffers (gs_impl s)) key of
        None \<Rightarrow> None
      | Some c \<Rightarrow>
          (case ch_recv CQ c of
             None \<Rightarrow> None
           | Some (req, c') \<Rightarrow>
               map_option (\<lambda>d. s\<lparr> gs_impl := (gs_impl s)\<lparr> internalInputBuffers := gm_set (internalInputBuffers (gs_impl s)) key c' \<rparr>,
                                  gs_disp := (gs_disp s)(key := d) \<rparr>)
                 (d_step D (d_put D req) (gs_disp s key))))"
| "gw_step CQ CS D cb period (GDisp key ev) s =
     (if d_injected D ev = [] \<and> gm_get (internalInputBuffers (gs_impl s)) key \<noteq> None then
        map_option (\<lambda>d. s\<lparr> gs_disp := (gs_disp s)(key := d) \<rparr>) (d_step D ev (gs_disp s key))
      else None)"
| "gw_step CQ CS D cb period (GDispOut key) s =
     (case (gm_get (internalOutputBuffers (gs_impl s)) key, d_responses D (gs_disp s key)) of
        (Some c, res # rest) \<Rightarrow>
          Some (s\<lparr> gs_impl := (gs_impl s)\<lparr> internalOutputBuffers := gm_set (internalOutputBuffers (gs_impl s)) key (ch_send CS c res) \<rparr>,
                   gs_disp := (gs_disp s)(key := d_pop D (gs_disp s key)) \<rparr>)
      | _ \<Rightarrow> None)"
| "gw_step CQ CS D cb period GDeliver s =
     (case ch_recv CS (externalOutput (gs_impl s)) of
        None \<Rightarrow> None
      | Some (res, c) \<Rightarrow> Some (s\<lparr> gs_impl := (gs_impl s)\<lparr> externalOutput := c \<rparr>, gs_delivered := gs_delivered s @ [res] \<rparr>))"
| "gw_step CQ CS D cb period (GAutoscaler f) s = Some (s\<lparr> gs_as := f (gs_as s) \<rparr>)"

fun gw_run ::
    "(Request, 'rq) chann \<Rightarrow> (Response, 'rs) chann \<Rightarrow> ('ev, 's) dispatcher_ops \<Rightarrow> 'a gw_callbacks \<Rightarrow> duration
       \<Rightarrow> ('ev, 'a) gw_event list \<Rightarrow> ('rq, 'rs, 's, 'a) gw_sys \<Rightarrow> ('rq, 'rs, 's, 'a) gw_sys option" where
  "gw_run CQ CS D cb period [] s = Some s"
| "gw_run CQ CS D cb period (ev # evs) s =
     (case gw_step CQ CS D cb period ev s of None \<Rightarrow> None | Some s' \<Rightarrow> gw_run CQ CS D cb period evs s')"

fun submitted :: "('ev, 'a) gw_event list \<Rightarrow> Request list" where
  "submitted [] = []"
| "submitted (GSubmit key req # evs) = req # submitted evs"
| "submitted (_ # evs) = submitted evs"

definition gw_init :: "(Request, 'rq) chann \<Rightarrow> (Response, 'rs) chann \<Rightarrow> string list \<Rightarrow> (string \<Rightarrow> 's) \<Rightarrow> 'a \<Rightarrow> (string \<Rightarrow> gotime) \<Rightarrow> ('rq, 'rs, 's, 'a) gw_sys" where
  "gw_init CQ CS keys d0 a t =
     \<lparr> gs_impl = foldl (\<lambda>g key. register CQ CS key g) (newGatewayImpl CS) keys, gs_relay = (\<lambda>key. relay_init (t key) (t key)),
       gs_disp = d0, gs_as = a, gs_delivered = [] \<rparr>"

section \<open>Where a request can be\<close>

definition in_chan :: "('c \<Rightarrow> 'x list) \<Rightarrow> ('x \<Rightarrow> Request) \<Rightarrow> (string, 'c) gomap \<Rightarrow> string \<Rightarrow> Request multiset" where
  "in_chan items f m key = (case gm_get m key of None \<Rightarrow> {#} | Some c \<Rightarrow> mset (map (\<lambda>x. core (f x)) (items c)))"

text \<open>Past the relay on the way in and not yet past it on the way out.\<close>

definition between ::
    "('rq \<Rightarrow> Request list) \<Rightarrow> ('rs \<Rightarrow> Response list) \<Rightarrow> ('s \<Rightarrow> Request multiset) \<Rightarrow> ('rq, 'rs, 's, 'a) gw_sys \<Rightarrow> string \<Rightarrow> Request multiset" where
  "between iq ir dload s key = in_chan iq (\<lambda>r. r) (internalInputBuffers (gs_impl s)) key + dload (gs_disp s key)
     + in_chan ir Source (internalOutputBuffers (gs_impl s)) key"

definition at_target ::
    "('rq \<Rightarrow> Request list) \<Rightarrow> ('rs \<Rightarrow> Response list) \<Rightarrow> ('s \<Rightarrow> Request multiset) \<Rightarrow> ('rq, 'rs, 's, 'a) gw_sys \<Rightarrow> string \<Rightarrow> Request multiset" where
  "at_target iq ir dload s key = in_chan iq (\<lambda>r. r) (externalInputs (gs_impl s)) key + between iq ir dload s key"

definition answered :: "('rs \<Rightarrow> Response list) \<Rightarrow> ('rq, 'rs, 's, 'a) gw_sys \<Rightarrow> Request multiset" where
  "answered ir s = mset (map (\<lambda>r. core (Source r)) (ir (externalOutput (gs_impl s)) @ gs_delivered s))"

definition gw_keys :: "('rq, 'rs, 's, 'a) gw_sys \<Rightarrow> string set \<Rightarrow> bool" where
  "gw_keys s K \<longleftrightarrow> dom (map_of (externalInputs (gs_impl s))) = K \<and> dom (map_of (internalInputBuffers (gs_impl s))) = K
     \<and> dom (map_of (internalOutputBuffers (gs_impl s))) = K"

lemma in_chan_set [simp]:
  "in_chan items f (gm_set m key c) k = (if k = key then mset (map (\<lambda>x. core (f x)) (items c)) else in_chan items f m k)"
  by (simp add: in_chan_def gm_get_map_of)

lemma sum_one_changes:
  fixes f f' :: "'k \<Rightarrow> 'b :: comm_monoid_add"
  assumes "finite K" "key \<in> K" "\<And>k. k \<noteq> key \<Longrightarrow> f' k = f k" "f' key + b' = f key + b + x"
  shows "sum f' K + b' = sum f K + b + x"
proof -
  have "sum f' K = f' key + sum f (K - {key})"
    using assms(1-3) by (simp add: sum.remove)
  moreover have "sum f K = f key + sum f (K - {key})"
    using assms(1,2) by (rule sum.remove)
  ultimately show ?thesis
    using assms(4) by (metis (no_types, lifting) add.assoc add.commute)
qed

lemma relay_request_forward:
  "Target req = key \<Longrightarrow> \<exists>l r'. relay_request period key now req r = (l, Forward (req\<lparr> GatewayRecvTS := now \<rparr>), r')
     \<and> nSend r' = nSend r + 1 \<and> nRecv r' = nRecv r"
  by (cases "time_Sub now (lastTraceSendTime r) > period") (simp_all add: relay_request_def Let_def)

lemma relay_response_counts:
  "\<exists>l r'. relay_response period res r = (l, r') \<and> nSend r' = nSend r \<and> nRecv r' = nRecv r + 1"
  by (cases "time_Sub (ResGatewayRecvTS res) (lastTraceRecvTime r) > period") (simp_all add: relay_response_def Let_def)

text \<open>The shape of every step that concerns one target.\<close>

lemma submit_shape:
  assumes "gw_step CQ CS D cb period (GSubmit key req) s = Some s'"
  obtains c where "gm_get (externalInputs (gs_impl s)) key = Some c"
    "s' = s\<lparr> gs_impl := (gs_impl s)\<lparr> externalInputs := gm_set (externalInputs (gs_impl s)) key (ch_send CQ c req) \<rparr> \<rparr>"
  using assms by (auto split: option.splits)

lemma relay_req_shape:
  assumes "gw_step CQ CS D cb period (GRelayReq key t now) s = Some s'"
  obtains (reject) c req c' where "gm_get (externalInputs (gs_impl s)) key = Some c" "ch_recv CQ c = Some (req, c')" "Target req \<noteq> key"
      "s' = s\<lparr> gs_impl := (gs_impl s)\<lparr> externalInputs := gm_set (externalInputs (gs_impl s)) key c',
        externalOutput := ch_send CS (externalOutput (gs_impl s)) (mk_Response req INVALID_TARGET) \<rparr> \<rparr>"
    | (forward) c req c' r a d where "gm_get (externalInputs (gs_impl s)) key = Some c" "ch_recv CQ c = Some (req, c')" "Target req = key"
      "nSend r = nSend (gs_relay s key) + 1" "nRecv r = nRecv (gs_relay s key)" "on_ReqIn cb t req (gs_as s) = Ret a"
      "gm_get (internalInputBuffers (gs_impl s)) key = Some d"
      "s' = s\<lparr> gs_impl := (gs_impl s)\<lparr> externalInputs := gm_set (externalInputs (gs_impl s)) key c',
        internalInputBuffers := gm_set (internalInputBuffers (gs_impl s)) key (ch_send CQ d (req\<lparr> GatewayRecvTS := now \<rparr>)) \<rparr>,
        gs_relay := (gs_relay s)(key := r), gs_as := a \<rparr>"
proof -
  obtain c req c' where c: "gm_get (externalInputs (gs_impl s)) key = Some c" "ch_recv CQ c = Some (req, c')"
    using assms by (auto simp: relayed_def relay_from_client_def split: option.splits go.splits)
  show thesis
  proof (cases "Target req = key")
    case False
    then show ?thesis
      using assms c by (intro reject) (auto simp: relayed_def relay_from_client_def relay_request_def)
  next
    case True
    obtain l r where r: "relay_request period key now req (gs_relay s key) = (l, Forward (req\<lparr> GatewayRecvTS := now \<rparr>), r)"
        "nSend r = nSend (gs_relay s key) + 1" "nRecv r = nRecv (gs_relay s key)"
      using relay_request_forward [OF True] by blast
    show ?thesis
      using assms c r True
      by (cases "on_ReqIn cb t req (gs_as s)")
        (auto simp: relayed_def relay_from_client_def Let_def split: option.splits intro: forward)
  qed
qed

lemma relay_res_shape:
  assumes "gw_step CQ CS D cb period (GRelayRes key t) s = Some s'"
  obtains c res c' r a where "gm_get (internalOutputBuffers (gs_impl s)) key = Some c" "ch_recv CS c = Some (res, c')"
    "nSend r = nSend (gs_relay s key)" "nRecv r = nRecv (gs_relay s key) + 1" "on_ReqOut cb t res (gs_as s) = Ret a"
    "s' = s\<lparr> gs_impl := (gs_impl s)\<lparr> internalOutputBuffers := gm_set (internalOutputBuffers (gs_impl s)) key c',
      externalOutput := ch_send CS (externalOutput (gs_impl s)) res \<rparr>, gs_relay := (gs_relay s)(key := r), gs_as := a \<rparr>"
proof -
  obtain c res c' where c: "gm_get (internalOutputBuffers (gs_impl s)) key = Some c" "ch_recv CS c = Some (res, c')"
    using assms by (auto simp: relayed_def relay_to_client_def split: option.splits go.splits)
  obtain l r where "relay_response period res (gs_relay s key) = (l, r)"
      "nSend r = nSend (gs_relay s key)" "nRecv r = nRecv (gs_relay s key) + 1"
    using relay_response_counts by blast
  then show thesis
    using assms c that by (cases "on_ReqOut cb t res (gs_as s)") (auto simp: relayed_def relay_to_client_def Let_def)
qed

lemma disp_in_shape:
  assumes "gw_step CQ CS D cb period (GDispIn key) s = Some s'"
  obtains c req c' d where "gm_get (internalInputBuffers (gs_impl s)) key = Some c" "ch_recv CQ c = Some (req, c')"
    "d_step D (d_put D req) (gs_disp s key) = Some d"
    "s' = s\<lparr> gs_impl := (gs_impl s)\<lparr> internalInputBuffers := gm_set (internalInputBuffers (gs_impl s)) key c' \<rparr>,
        gs_disp := (gs_disp s)(key := d) \<rparr>"
  using assms by (auto split: option.splits)

lemma disp_shape:
  assumes "gw_step CQ CS D cb period (GDisp key ev) s = Some s'"
  obtains d where "d_step D ev (gs_disp s key) = Some d" "d_injected D ev = []" "gm_get (internalInputBuffers (gs_impl s)) key \<noteq> None"
    "s' = s\<lparr> gs_disp := (gs_disp s)(key := d) \<rparr>"
  using assms by (auto split: if_splits)

lemma disp_out_shape:
  assumes "gw_step CQ CS D cb period (GDispOut key) s = Some s'"
  obtains c res rest where "gm_get (internalOutputBuffers (gs_impl s)) key = Some c" "d_responses D (gs_disp s key) = res # rest"
    "s' = s\<lparr> gs_impl := (gs_impl s)\<lparr> internalOutputBuffers := gm_set (internalOutputBuffers (gs_impl s)) key (ch_send CS c res) \<rparr>,
        gs_disp := (gs_disp s)(key := d_pop D (gs_disp s key)) \<rparr>"
  using assms by (auto split: option.splits list.splits)

lemma deliver_shape:
  assumes "gw_step CQ CS D cb period GDeliver s = Some s'"
  obtains res c where "ch_recv CS (externalOutput (gs_impl s)) = Some (res, c)"
    "s' = s\<lparr> gs_impl := (gs_impl s)\<lparr> externalOutput := c \<rparr>, gs_delivered := gs_delivered s @ [res] \<rparr>"
  using assms by (auto split: option.splits)

locale gateway_env = request_dispatcher "d_step D" "d_put D" "d_injected D" pending "d_responses D" "d_pop D"
    + q: unbounded_chan CQ iq + s: unbounded_chan CS ir
  for D :: "('ev, 's) dispatcher_ops" and pending :: "'s \<Rightarrow> Request list"
    and CQ :: "(Request, 'rq) chann" and iq :: "'rq \<Rightarrow> Request list"
    and CS :: "(Response, 'rs) chann" and ir :: "'rs \<Rightarrow> Response list"
begin

abbreviation inner :: "('rq, 'rs, 's, 'a) gw_sys \<Rightarrow> string \<Rightarrow> Request multiset" where
  "inner \<equiv> between iq ir load"

abbreviation site :: "('rq, 'rs, 's, 'a) gw_sys \<Rightarrow> string \<Rightarrow> Request multiset" where
  "site \<equiv> at_target iq ir load"

text \<open>What one step does to the target it concerns, and to its outstanding count.\<close>

definition local_effect :: "string \<Rightarrow> Request multiset \<Rightarrow> ('rq, 'rs, 's, 'a) gw_sys \<Rightarrow> ('rq, 'rs, 's, 'a) gw_sys \<Rightarrow> bool" where
  "local_effect key x s s' \<longleftrightarrow>
     (\<forall>K. gw_keys s K \<longrightarrow> gw_keys s' K \<and> key \<in> K)
     \<and> (\<forall>k. k \<noteq> key \<longrightarrow> site s' k = site s k \<and> inner s' k = inner s k \<and> gs_relay s' k = gs_relay s k)
     \<and> site s' key + answered ir s' = site s key + answered ir s + x
     \<and> nSend (gs_relay s' key) - nRecv (gs_relay s' key) - int (size (inner s' key))
         = nSend (gs_relay s key) - nRecv (gs_relay s key) - int (size (inner s key))"

lemma submit_effect:
  assumes "gw_step CQ CS D cb period (GSubmit key req) s = Some s'"
  shows "local_effect key {#core req#} s s'"
  using assms
proof (cases rule: submit_shape)
  case (1 c)
  then show ?thesis
    by (auto simp: local_effect_def gw_keys_def at_target_def between_def answered_def gm_get_map_of in_chan_def)
qed

lemma relay_req_effect:
  assumes "gw_step CQ CS D cb period (GRelayReq key t now) s = Some s'"
  shows "local_effect key {#} s s'"
  using assms
proof (cases rule: relay_req_shape)
  case (reject c req c')
  then show ?thesis
    using q.recv_SomeD [OF reject(2)] by (auto simp: local_effect_def gw_keys_def at_target_def between_def answered_def gm_get_map_of in_chan_def)
next
  case (forward c req c' r a d)
  then show ?thesis
    using q.recv_SomeD [OF forward(2)] by (auto simp: local_effect_def gw_keys_def at_target_def between_def answered_def gm_get_map_of in_chan_def)
qed

lemma relay_res_effect:
  assumes "gw_step CQ CS D cb period (GRelayRes key t) s = Some s'"
  shows "local_effect key {#} s s'"
  using assms
proof (cases rule: relay_res_shape)
  case (1 c res c' r a)
  then show ?thesis
    using s.recv_SomeD [OF 1(2)] by (auto simp: local_effect_def gw_keys_def at_target_def between_def answered_def gm_get_map_of in_chan_def)
qed

lemma disp_in_effect:
  assumes "gw_step CQ CS D cb period (GDispIn key) s = Some s'"
  shows "local_effect key {#} s s'"
  using assms
proof (cases rule: disp_in_shape)
  case (1 c req c' d)
  then show ?thesis
    using q.recv_SomeD [OF 1(2)] load_put [OF 1(3)] by (auto simp: local_effect_def gw_keys_def at_target_def between_def answered_def gm_get_map_of in_chan_def)
qed

lemma disp_effect:
  assumes "gw_step CQ CS D cb period (GDisp key ev) s = Some s'"
  shows "local_effect key {#} s s'"
  using assms
proof (cases rule: disp_shape)
  case (1 d)
  then show ?thesis
    using load_step [OF 1(1,2)] by (auto simp: local_effect_def gw_keys_def at_target_def between_def answered_def gm_get_map_of in_chan_def)
qed

lemma disp_out_effect:
  assumes "gw_step CQ CS D cb period (GDispOut key) s = Some s'"
  shows "local_effect key {#} s s'"
  using assms
proof (cases rule: disp_out_shape)
  case (1 c res rest)
  then show ?thesis
    using load_pop [OF 1(2)] by (auto simp: local_effect_def gw_keys_def at_target_def between_def answered_def gm_get_map_of in_chan_def)
qed

lemma gw_step_effect:
  assumes "gw_step CQ CS D cb period ev s = Some s'" "gw_keys s K" "finite K"
  shows "gw_keys s' K \<and> sum (site s') K + answered ir s' = sum (site s) K + answered ir s + mset (map core (submitted [ev]))
    \<and> (\<forall>k. nSend (gs_relay s' k) - nRecv (gs_relay s' k) - int (size (inner s' k))
         = nSend (gs_relay s k) - nRecv (gs_relay s k) - int (size (inner s k)))"
proof (cases "ev = GDeliver \<or> (\<exists>f. ev = GAutoscaler f)")
  case True
  then consider (scaler) f where "s' = s\<lparr> gs_as := f (gs_as s) \<rparr>" "submitted [ev] = []"
    | (deliver) res c where "ch_recv CS (externalOutput (gs_impl s)) = Some (res, c)" "submitted [ev] = []"
        "s' = s\<lparr> gs_impl := (gs_impl s)\<lparr> externalOutput := c \<rparr>, gs_delivered := gs_delivered s @ [res] \<rparr>"
    using assms(1) by (auto split: option.splits)
  then show ?thesis
  proof cases
    case scaler
    then show ?thesis
      using assms(2) by (simp add: gw_keys_def at_target_def [abs_def] between_def [abs_def] answered_def)
  next
    case (deliver res c)
    then show ?thesis
      using assms(2) s.recv_SomeD [of "externalOutput (gs_impl s)" res c]
      by (simp add: gw_keys_def at_target_def [abs_def] between_def [abs_def] answered_def)
  qed
next
  case False
  then obtain key where "local_effect key (mset (map core (submitted [ev]))) s s'"
    using assms(1)
    by (cases ev) (auto dest: submit_effect relay_req_effect relay_res_effect disp_in_effect disp_effect disp_out_effect
        simp del: gw_step.simps)
  then have e: "gw_keys s' K" "key \<in> K" "\<And>k. k \<noteq> key \<Longrightarrow> site s' k = site s k"
      "site s' key + answered ir s' = site s key + answered ir s + mset (map core (submitted [ev]))"
    and o: "\<And>k. nSend (gs_relay s' k) - nRecv (gs_relay s' k) - int (size (inner s' k))
         = nSend (gs_relay s k) - nRecv (gs_relay s k) - int (size (inner s k))"
    using assms(2) unfolding local_effect_def by (blast, blast, blast, blast, metis)
  then show ?thesis
    using sum_one_changes [OF assms(3) e(2), of "site s'" "site s"] by blast
qed

lemma gw_run_effect:
  assumes "gw_run CQ CS D cb period evs s = Some s'" "gw_keys s K" "finite K"
  shows "gw_keys s' K \<and> sum (site s') K + answered ir s' = sum (site s) K + answered ir s + mset (map core (submitted evs))
    \<and> (\<forall>k. nSend (gs_relay s' k) - nRecv (gs_relay s' k) - int (size (inner s' k))
         = nSend (gs_relay s k) - nRecv (gs_relay s k) - int (size (inner s k)))"
  using assms(1,2)
proof (induction evs arbitrary: s)
  case (Cons ev evs)
  then obtain s1 where s1: "gw_step CQ CS D cb period ev s = Some s1" "gw_run CQ CS D cb period evs s1 = Some s'"
    by (auto split: option.splits)
  have "submitted (ev # evs) = submitted [ev] @ submitted evs"
    by (cases ev) simp_all
  then show ?case
    using Cons.IH [OF s1(2)] gw_step_effect [OF s1(1) Cons.prems(2) assms(3)] by (simp add: ac_simps)
qed simp

end

definition pod_ops :: "('m, 'e) sharedMap \<Rightarrow> (string, 't) chann \<Rightarrow> ('e disp_event, ('m, 't, 'e) disp_sys) dispatcher_ops" where
  "pod_ops S T = \<lparr> d_step = ds_step S T, d_put = Enqueue, d_injected = (\<lambda>ev. enqueued [ev]), d_responses = ds_resps, d_pop = ds_pop \<rparr>"

definition kn_ops ::
    "backend_vars \<Rightarrow> (duration \<Rightarrow> 'e \<Rightarrow> Request \<Rightarrow> Response) \<Rightarrow> 'e KnServiceDispatcher \<Rightarrow> ('e disp_event, kn_sys) dispatcher_ops" where
  "kn_ops v Execute kd = \<lparr> d_step = kn_step v Execute kd, d_put = Enqueue, d_injected = (\<lambda>ev. enqueued [ev]), d_responses = ks_resps, d_pop = kn_pop \<rparr>"

lemma ops_sel [simp]:
  "d_step (pod_ops S T) = ds_step S T" "d_put (pod_ops S T) = Enqueue" "d_injected (pod_ops S T) = (\<lambda>ev. enqueued [ev])"
  "d_responses (pod_ops S T) = ds_resps" "d_pop (pod_ops S T) = ds_pop"
  "d_step (kn_ops v Execute kd) = kn_step v Execute kd" "d_put (kn_ops v Execute kd) = Enqueue"
  "d_injected (kn_ops v Execute kd) = (\<lambda>ev. enqueued [ev])" "d_responses (kn_ops v Execute kd) = ks_resps" "d_pop (kn_ops v Execute kd) = kn_pop"
  by (simp_all add: pod_ops_def kn_ops_def)

interpretation pod_gw: gateway_env "pod_ops gomap_shared gochan" in_flight gochan "\<lambda>c. c" gochan "\<lambda>c. c"
  unfolding gateway_env_def ops_sel by (intro conjI pod_request_dispatcher native.unbounded_chan_axioms)

interpretation kn_gw: gateway_env "kn_ops v (\<lambda>d clk req. fake_Execute clk req) kd" "\<lambda>s. ks_reqs s @ ks_running s" gochan "\<lambda>c. c" gochan "\<lambda>c. c"
  unfolding gateway_env_def ops_sel
  by (intro conjI kn_request_dispatcher fake_Execute_answers native.unbounded_chan_axioms)

lemma register_fold:
  "map_of (externalInputs (foldl (\<lambda>g key. register CQ CS key g) g keys)) = (\<lambda>k. if k \<in> set keys then Some (ch_new CQ) else map_of (externalInputs g) k)"
  "map_of (internalInputBuffers (foldl (\<lambda>g key. register CQ CS key g) g keys)) = (\<lambda>k. if k \<in> set keys then Some (ch_new CQ) else map_of (internalInputBuffers g) k)"
  "map_of (internalOutputBuffers (foldl (\<lambda>g key. register CQ CS key g) g keys)) = (\<lambda>k. if k \<in> set keys then Some (ch_new CS) else map_of (internalOutputBuffers g) k)"
  "externalOutput (foldl (\<lambda>g key. register CQ CS key g) g keys) = externalOutput g"
  by (induction keys arbitrary: g) (auto simp: register_def fun_eq_iff)

context gateway_env
begin

lemma gw_init_empty:
  assumes "\<And>k. load (dinit k) = {#}"
  shows "gw_keys (gw_init CQ CS keys dinit a t) (set keys)" "site (gw_init CQ CS keys dinit a t) k = {#}"
    "inner (gw_init CQ CS keys dinit a t) k = {#}" "answered ir (gw_init CQ CS keys dinit a t) = {#}"
  using assms
  by (auto simp: gw_init_def newGatewayImpl_def gw_keys_def register_fold dom_def at_target_def between_def in_chan_def
      gm_get_map_of answered_def)

lemma gw_run_init:
  assumes "gw_run CQ CS D cb period evs (gw_init CQ CS keys dinit a t) = Some s'" "\<And>k. load (dinit k) = {#}"
  shows "mset (map core (submitted evs)) = (\<Sum>key \<in> set keys. site s' key) + answered ir s'
    \<and> nSend (gs_relay s' k) - nRecv (gs_relay s' k) = int (size (inner s' k))"
proof -
  have "nSend (gs_relay (gw_init CQ CS keys dinit a t) k) - nRecv (gs_relay (gw_init CQ CS keys dinit a t) k) = 0" for k
    by (simp add: gw_init_def relay_init_def)
  then show ?thesis
    using gw_run_effect [OF assms(1) gw_init_empty(1) finite_set] gw_init_empty [where dinit = dinit and keys = keys and a = a and t = t] assms(2)
    by simp
qed

end

text \<open>
  C3. End to end through the Kubernetes gateway, in every interleaving of clients, relays, dispatcher
  goroutines, reconciles and deliveries: the requests submitted are, up to the gateway's time stamps,
  exactly the requests still queued or in flight at their target together with the sources of the
  responses sent back, so none is lost, duplicated or answered twice; and a relay's count
  \<open>nSend - nRecv\<close> is the number of its target's requests between the two.\<close>

theorem gateway_conserves_requests:
  assumes "unbounded_chan CQ iq" "unbounded_chan CS ir"
    and "gw_run CQ CS (pod_ops S T) cb period evs (gw_init CQ CS keys (\<lambda>k. ds_init (pd k)) a t) = Some s"
  shows "mset (map core (submitted evs)) = (\<Sum>key \<in> set keys. at_target iq ir workload_of s key) + answered ir s
    \<and> nSend (gs_relay s key) - nRecv (gs_relay s key) = int (size (between iq ir workload_of s key))"
proof -
  have env: "gateway_env (pod_ops S T) in_flight CQ iq CS ir"
    unfolding gateway_env_def ops_sel by (intro conjI pod_request_dispatcher assms(1,2))
  have load: "request_dispatcher.load in_flight (d_responses (pod_ops S T)) = workload_of"
    using request_dispatcher.load_def [OF pod_request_dispatcher [of S T]] by (simp add: workload_of_def fun_eq_iff)
  have "workload_of (ds_init (pd k)) = {#}" for k
    by (simp add: workload_of_def in_flight_def ds_init_def)
  then show ?thesis
    using gateway_env.gw_run_init [OF env assms(3)] unfolding load by blast
qed

definition gw_sample_events :: "(nat disp_event, unit) gw_event list" where
  "gw_sample_events = [GSubmit ''default/f'' sample_request, GRelayReq ''default/f'' 1 2, GDispIn ''default/f'',
     GDisp ''default/f'' Accept, GDisp ''default/f'' (Iter 0 CtxDone), GDispOut ''default/f'', GRelayRes ''default/f'' 3, GDeliver]"

definition no_callbacks :: "unit gw_callbacks" where
  "no_callbacks = \<lparr> on_ReqIn = (\<lambda>t. kn_onReqIn), on_ReqOut = (\<lambda>t. kn_onReqOut) \<rparr>"

lemma gw_sample_run:
  "map_option (\<lambda>s. map Status (gs_delivered s)) (gw_run gochan gochan (pod_ops gomap_shared gochan) no_callbacks tracingOutputPeriod gw_sample_events
     (gw_init gochan gochan [''default/f''] (\<lambda>k. ds_init empty_dispatcher) () (\<lambda>k. 0))) = Some [FAIL_DISPATCH]"
  by code_simp

theorem gateway_conserves_requests_witness:
  "\<exists>s. gw_run gochan gochan (pod_ops gomap_shared gochan) no_callbacks tracingOutputPeriod gw_sample_events
        (gw_init gochan gochan [''default/f''] (\<lambda>k. ds_init empty_dispatcher) () (\<lambda>k. 0)) = Some s
     \<and> map Status (gs_delivered s) = [FAIL_DISPATCH]
     \<and> mset (map core [sample_request]) = at_target (\<lambda>c. c) (\<lambda>c. c) workload_of s ''default/f'' + answered (\<lambda>c. c) s"
proof -
  obtain s where s: "gw_run gochan gochan (pod_ops gomap_shared gochan) no_callbacks tracingOutputPeriod gw_sample_events
        (gw_init gochan gochan [''default/f''] (\<lambda>k. ds_init empty_dispatcher) () (\<lambda>k. 0)) = Some s"
      "map Status (gs_delivered s) = [FAIL_DISPATCH]"
    using gw_sample_run by auto
  then show ?thesis
    using gateway_conserves_requests [OF native.unbounded_chan_axioms native.unbounded_chan_axioms s(1)]
    by (simp add: gw_sample_events_def)
qed

text \<open>
  The same conservation through the Knative gateway, for any backend that keeps the contract of an
  executor.\<close>

theorem knative_gateway_conserves:
  assumes "unbounded_chan CQ iq" "unbounded_chan CS ir" "\<And>d e req. answers req (Execute d e req)"
    and "gw_run CQ CS (kn_ops v Execute kd) \<lparr> on_ReqIn = (\<lambda>t. kn_onReqIn), on_ReqOut = (\<lambda>t. kn_onReqOut) \<rparr> period evs
      (gw_init CQ CS keys (\<lambda>k. \<lparr> ks_reqs = [], ks_running = [], ks_resps = [] \<rparr>) () t) = Some s"
  shows "mset (map core (submitted evs))
    = (\<Sum>key \<in> set keys. at_target iq ir (\<lambda>d. mset (map core (ks_reqs d @ ks_running d)) + mset (map (\<lambda>r. core (Source r)) (ks_resps d))) s key)
      + answered ir s"
proof -
  have kn: "request_dispatcher (kn_step v Execute kd) Enqueue (\<lambda>ev. enqueued [ev]) (\<lambda>s. ks_reqs s @ ks_running s) ks_resps kn_pop"
    by (rule kn_request_dispatcher [OF assms(3)])
  have env: "gateway_env (kn_ops v Execute kd) (\<lambda>s. ks_reqs s @ ks_running s) CQ iq CS ir"
    unfolding gateway_env_def ops_sel by (intro conjI kn assms(1,2))
  have load: "request_dispatcher.load (\<lambda>s. ks_reqs s @ ks_running s) (d_responses (kn_ops v Execute kd))
      = (\<lambda>d. mset (map core (ks_reqs d @ ks_running d)) + mset (map (\<lambda>r. core (Source r)) (ks_resps d)))"
    using request_dispatcher.load_def [OF kn] by (simp add: fun_eq_iff)
  then show ?thesis
    using gateway_env.gw_run_init [OF env assms(4)] unfolding load by simp
qed

theorem knative_gateway_conserves_witness:
  "\<exists>s. gw_run gochan gochan (kn_ops backend_init (\<lambda>d e req. mk_Response req SUCCESS)
           \<lparr> kd_target = ''default/f'', kd_timeout = 0, kd_endpoint = ''e'', kd_executor = () \<rparr>)
         \<lparr> on_ReqIn = (\<lambda>t. kn_onReqIn), on_ReqOut = (\<lambda>t. kn_onReqOut) \<rparr> 0 [GSubmit ''default/f'' sample_request]
         (gw_init gochan gochan [''default/f''] (\<lambda>k. \<lparr> ks_reqs = [], ks_running = [], ks_resps = [] \<rparr>) () (\<lambda>k. 0)) = Some s
     \<and> {#core sample_request#} = at_target (\<lambda>c. c) (\<lambda>c. c) (\<lambda>d. mset (map core (ks_reqs d @ ks_running d)) + mset (map (\<lambda>r. core (Source r)) (ks_resps d))) s ''default/f''
         + answered (\<lambda>c. c) s"
proof -
  let ?Ex = "\<lambda>(d :: duration) (e :: unit) req. mk_Response req SUCCESS"
  let ?run = "gw_run gochan gochan (kn_ops backend_init ?Ex
           \<lparr> kd_target = ''default/f'', kd_timeout = 0, kd_endpoint = ''e'', kd_executor = () \<rparr>)
         \<lparr> on_ReqIn = (\<lambda>t. kn_onReqIn), on_ReqOut = (\<lambda>t. kn_onReqOut) \<rparr> 0 [GSubmit ''default/f'' sample_request]
         (gw_init gochan gochan [''default/f''] (\<lambda>k. \<lparr> ks_reqs = [], ks_running = [], ks_resps = [] \<rparr>) () (\<lambda>k. 0))"
  have ans: "answers req (?Ex d e req)" for d e req
    by (simp add: answers_def)
  obtain s where s: "?run = Some s"
    by (simp add: gw_init_def newGatewayImpl_def register_def gm_get_def gm_set_def)
  then show ?thesis
    using knative_gateway_conserves [OF native.unbounded_chan_axioms native.unbounded_chan_axioms ans s] by auto
qed

section \<open>What the relay does with one request\<close>

text \<open>
  A request that a client sent to the wrong channel is answered at once with \<open>INVALID_TARGET\<close>, without
  the autoscaler being told, a counter moving or the dispatcher seeing it; a request for the relay's
  own target is announced to the autoscaler, stamped and forwarded unchanged otherwise, and the relay
  fails only when the callback does.\<close>

theorem relay_one_request:
  assumes "unbounded_chan CQ iq" "unbounded_chan CS ir"
    and "gm_get (externalInputs g) key = Some c" "iq c = req # rest" "gm_get (internalInputBuffers g) key = Some d"
  shows "\<exists>c'. iq c' = rest \<and>
    (if Target req \<noteq> key then
       \<exists>out. relay_from_client CQ CS onReqIn period key now (g, r, a)
           = Some (Ret (g\<lparr> externalInputs := gm_set (externalInputs g) key c', externalOutput := out \<rparr>, r, a))
         \<and> ir out = ir (externalOutput g) @ [mk_Response req INVALID_TARGET]
     else case onReqIn req a of
         Panic m \<Rightarrow> relay_from_client CQ CS onReqIn period key now (g, r, a) = Some (Panic m)
       | Ret a' \<Rightarrow> \<exists>d' r'. relay_from_client CQ CS onReqIn period key now (g, r, a)
           = Some (Ret (g\<lparr> externalInputs := gm_set (externalInputs g) key c', internalInputBuffers := gm_set (internalInputBuffers g) key d' \<rparr>, r', a'))
         \<and> iq d' = iq d @ [req\<lparr> GatewayRecvTS := now \<rparr>] \<and> nSend r' = nSend r + 1 \<and> nRecv r' = nRecv r)"
proof -
  obtain c' where c': "ch_recv CQ c = Some (req, c')" "iq c' = rest"
    using unbounded_chan.recv_oldest [OF assms(1,4)] by blast
  obtain l r' where fwd: "Target req = key \<longrightarrow> relay_request period key now req r = (l, Forward (req\<lparr> GatewayRecvTS := now \<rparr>), r')
      \<and> nSend r' = nSend r + 1 \<and> nRecv r' = nRecv r"
    using relay_request_forward [of req key period now r] by blast
  show ?thesis
  proof (cases "Target req = key")
    case True
    then show ?thesis
      using fwd c' assms(3,5) unbounded_chan.items_send [OF assms(1)]
      by (intro exI [of _ c']) (auto simp: relay_from_client_def Let_def split: go.splits)
  next
    case False
    then show ?thesis
      using c' assms(3) unbounded_chan.items_send [OF assms(2)]
      by (intro exI [of _ c']) (auto simp: relay_from_client_def relay_request_def Let_def)
  qed
qed

definition one_key_gateway :: "(Request list, Response list) gatewayImpl" where
  "one_key_gateway = \<lparr> internalInputBuffers = [(''k'', [])], internalOutputBuffers = [(''k'', [])],
     externalInputs = [(''k'', [sample_request])], externalOutput = [] \<rparr>"

theorem relay_one_request_witness:
  "\<exists>out. relay_from_client gochan gochan kn_onReqIn 0 ''k'' 5 (one_key_gateway, relay_init 0 0, ())
     = Some (Ret (one_key_gateway\<lparr> externalInputs := gm_set (externalInputs one_key_gateway) ''k'' [], externalOutput := out \<rparr>, relay_init 0 0, ()))
     \<and> out = [mk_Response sample_request INVALID_TARGET]"
  using relay_one_request [OF native.unbounded_chan_axioms native.unbounded_chan_axioms,
      of one_key_gateway "''k''" "[sample_request]" sample_request "[]" "[]" kn_onReqIn 0 5 "relay_init 0 0" "()"]
  by (simp add: one_key_gateway_def gm_get_def)

section \<open>Setting up\<close>

lemma register_all_impl:
  "gw_impl (register_all CQ CS S T targets g) = foldl (\<lambda>h key. register CQ CS key h) (gw_impl g) (map KeyFromObject targets)"
  "map_of (dispatchers (register_all CQ CS S T targets g)) =
     (\<lambda>k. if k \<in> set (map KeyFromObject targets) then Some (NewPodDispatcher S T k (dispatchTimeout g)) else map_of (dispatchers g) k)"
  "newAutoscalerFn (register_all CQ CS S T targets g) = newAutoscalerFn g"
  by (induction targets arbitrary: g) (auto simp: Let_def fun_eq_iff)

text \<open>
  After a successful setup with the Knative autoscaler every listed deployment has its channels, an
  empty dispatcher and a decider, so that submitting, relaying and counting its requests meets no nil;
  setup fails only when the listing failed.\<close>

theorem setup_registers_everything:
  fixes g :: "('rq, 'rs, 'm, 't, 'b, 'w, 'q) k8sGateway"
  assumes "NewK8sGateway CS timeout ''kpa'' (Inr (Some \<lparr> Knative = Some cfg, OneTime = ot \<rparr>)) = Inr g"
  shows "\<exists>g' s. k8s_SetUpWithManager CQ CS S T Q B W (Inr targets) g = Ret (Inr g') \<and> gw_autoscaler g' = Some (KPA_Autoscaler s)
    \<and> (\<forall>target \<in> set targets. let key = KeyFromObject target in
         RequestChan (gw_impl g') key = Ret (ch_new CQ) \<and> internalBuffers (gw_impl g') key = Ret (ch_new CQ, ch_new CS)
         \<and> gm_get (dispatchers g') key = Some (NewPodDispatcher S T key timeout) \<and> gm_get (deciders s) key \<noteq> None)
    \<and> (\<forall>err. k8s_SetUpWithManager CQ CS S T Q B W (Inl err) g = Ret (Inl (''error listing deployments in k8s gateway: '' @ err)))"
proof -
  let ?keys = "map KeyFromObject targets"
  let ?g1 = "register_all CQ CS S T targets g"
  obtain cfg' where c: "KPA_Complete (Some cfg) = Ret cfg'"
    by (simp add: KPA_Complete_def)
  let ?s = "NewKnativeAutoscaler Q B W cfg' ?keys"
  have g: "newAutoscalerFn g = Some (KPAFn (Some \<lparr> Knative = Some cfg, OneTime = ot \<rparr>))" "gw_impl g = newGatewayImpl CS" "dispatchTimeout g = timeout"
    using assms by (auto simp: NewK8sGateway_def)
  have su: "k8s_SetUpWithManager CQ CS S T Q B W (Inr targets) g = Ret (Inr (?g1\<lparr> gw_autoscaler := Some (KPA_Autoscaler ?s) \<rparr>))"
    using g c by (simp add: k8s_SetUpWithManager_def Let_def register_all_impl)
  have keys: "RequestChan (gw_impl ?g1) k = Ret (ch_new CQ) \<and> internalBuffers (gw_impl ?g1) k = Ret (ch_new CQ, ch_new CS)
      \<and> gm_get (dispatchers ?g1) k = Some (NewPodDispatcher S T k timeout) \<and> gm_get (deciders ?s) k \<noteq> None" if "k \<in> set ?keys" for k
  proof (intro conjI)
    show "RequestChan (gw_impl ?g1) k = Ret (ch_new CQ)" "internalBuffers (gw_impl ?g1) k = Ret (ch_new CQ, ch_new CS)"
      using that by (auto simp: RequestChan_def internalBuffers_def register_all_impl register_fold gm_get_map_of)
    show "gm_get (dispatchers ?g1) k = Some (NewPodDispatcher S T k timeout)"
      using that g(3) by (auto simp: register_all_impl gm_get_map_of)
    show "gm_get (deciders ?s) k \<noteq> None"
      using that dom_NewKnativeAutoscaler [of Q B W cfg' ?keys] by (auto simp: gm_get_map_of domIff)
  qed
  show ?thesis
    using su keys by (auto simp: Let_def k8s_SetUpWithManager_def)
qed

theorem setup_registers_everything_witness:
  "\<exists>g s. NewK8sGateway gochan (15 * Second) ''kpa'' (Inr (Some \<lparr> Knative = Some sample_kpa_config, OneTime = None \<rparr>))
         = Inr (g :: (Request list, Response list, (string \<times> nat) list, string list, float64, int list, string list \<times> string list) k8sGateway)
     \<and> (\<exists>g'. k8s_SetUpWithManager gochan gochan gomap_shared gochan list_queue last_value all_values (Inr [sample_deployment]) g = Ret (Inr g')
         \<and> gw_autoscaler g' = Some (KPA_Autoscaler s) \<and> gm_get (deciders s) (KeyFromObject sample_deployment) \<noteq> None)"
proof -
  obtain g :: "(Request list, Response list, (string \<times> nat) list, string list, float64, int list, string list \<times> string list) k8sGateway"
    where g: "NewK8sGateway gochan (15 * Second) ''kpa'' (Inr (Some \<lparr> Knative = Some sample_kpa_config, OneTime = None \<rparr>)) = Inr g"
    by (simp add: NewK8sGateway_def)
  then show ?thesis
    using setup_registers_everything [OF g, of gochan gomap_shared gochan list_queue last_value all_values "[sample_deployment]"]
    by (auto simp: Let_def)
qed

text \<open>
  C37. The flags' own defaults, a Kubernetes gateway with the one-time autoscaler and no configuration
  file, pass validation, yet setting up the gateway panics on the nil configuration; and an unknown
  autoscaler with a configuration file passes validation and setup, and panics on the first request.\<close>

theorem default_flags_panic:
  fixes g h :: "('rq, 'rs, 'm, 't, 'b, 'w, 'q) k8sGateway"
  assumes "NewK8sGateway CS timeout (autoscalerFramework default_flags)
      (NewAutoscalerConfigFrom readFile unmarshal (autoscalerConfig default_flags)) = Inr g"
    and "fw \<noteq> ''kpa''" "fw \<noteq> ''one-time''" "path \<noteq> ''''"
    and "NewK8sGateway CS timeout fw (Inr (Some cfg)) = Inr h"
  shows "validateFlags default_flags = Ret default_flags
    \<and> panics (k8s_SetUpWithManager CQ CS S T Q B W (Inr targets) g)
    \<and> validateFlags (default_flags\<lparr> autoscalerFramework := fw, autoscalerConfig := path \<rparr>)
        = Ret (default_flags\<lparr> autoscalerFramework := fw, autoscalerConfig := path \<rparr>)
    \<and> (\<exists>h'. k8s_SetUpWithManager CQ CS S T Q B W (Inr targets) h = Ret (Inr h') \<and> panics (k8s_onReqIn Q B W now req (gw_autoscaler h')))"
proof -
  have "gw_autoscaler (register_all CQ CS S T targets h) = gw_autoscaler h"
    by (induction targets arbitrary: h) (simp_all add: Let_def)
  then show ?thesis
    using assms
    by (auto simp: NewK8sGateway_def NewAutoscalerConfigFrom_def default_flags_def validateFlags_def k8s_SetUpWithManager_def
        Let_def register_all_impl k8s_onReqIn_def)
qed

theorem default_flags_panic_witness:
  "\<exists>g :: (Request list, Response list, (string \<times> nat) list, string list, float64, int list, string list \<times> string list) k8sGateway.
     NewK8sGateway gochan 0 ''one-time'' (NewAutoscalerConfigFrom (\<lambda>p. Inl p) (\<lambda>y. Inl y) '''') = Inr g
     \<and> panics (k8s_SetUpWithManager gochan gochan gomap_shared gochan list_queue last_value all_values (Inr []) g)"
proof -
  obtain g h :: "(Request list, Response list, (string \<times> nat) list, string list, float64, int list, string list \<times> string list) k8sGateway"
    where g: "NewK8sGateway gochan 0 (autoscalerFramework default_flags)
        (NewAutoscalerConfigFrom (\<lambda>p. Inl p) (\<lambda>y. Inl y) (autoscalerConfig default_flags)) = Inr g"
      and h: "NewK8sGateway gochan 0 ''x'' (Inr (Some \<lparr> Knative = None, OneTime = None \<rparr>)) = Inr h"
    by (simp add: NewK8sGateway_def NewAutoscalerConfigFrom_def default_flags_def)
  then show ?thesis
    using default_flags_panic [OF g _ _ _ h, of "''c.yaml''" gochan gomap_shared gochan list_queue last_value all_values "[]" 0 sample_request]
    by (auto simp: default_flags_def)
qed

section \<open>Reconciling\<close>

text \<open>
  An event of an object that the filter accepts reaches the dispatcher of that object: for
  namespaces and app labels without a slash, the reconcile request enqueued for a pod or deployment
  names exactly the key under which the deployment with the same namespace and app label was
  registered.\<close>

theorem event_reaches_dispatcher:
  assumes "no_slash (Namespace obj)" "no_slash (label (Labels obj) ''app'')" "FilterEvent obj"
  shows "\<exists>nn. enqueueWorkload obj = Ret [nn] \<and> NamespacedName_String nn = KeyFromObject obj \<and> snd nn \<noteq> ''''"
proof -
  have "NamespacedNameFromKey (KeyFromObject obj) = Ret (Namespace obj, label (Labels obj) ''app'')"
    using NamespacedNameFromKey_pair assms(1,2) by (simp add: KeyFromObject_def)
  then show ?thesis
    using assms(3) by (simp add: enqueueWorkload_def NamespacedName_String_def KeyFromObject_def FilterEvent_def IsTraceWorkload_def IsWorkload_def)
qed

definition trace_pod :: Pod where
  "trace_pod = \<lparr> Namespace = ''default'', Name = ''p'', Labels = [(''app'', ''f''), (''workload'', ''trace'')], PodIP = ''10.0.0.1'' \<rparr>"

theorem event_reaches_dispatcher_witness:
  "\<exists>nn. enqueueWorkload trace_pod = Ret [nn] \<and> NamespacedName_String nn = ''default/f''"
  using event_reaches_dispatcher [of trace_pod]
  by (auto simp: trace_pod_def no_slash_def label_def gm_get_def FilterEvent_def IsTraceWorkload_def IsWorkload_def KeyFromObject_def)

text \<open>
  A reconcile of a deployment that exists hands its dispatcher exactly the listed pods that are
  ready: afterwards the keys the dispatcher knows are among theirs and it knows all of them when no
  error is returned. A deployment that is gone, or one without dispatcher, changes nothing.\<close>

theorem gateway_reconcile:
  assumes "dispatcher_env S T items" "getD nn = Inr target" "listP (Namespace target) (TemplateLabels target) = Inr pods"
    and "gm_get (dispatchers g) (NamespacedName_String nn) = Some pd"
    and "k8s_Reconcile S T mk isPodReady getD listP nn g = Ret (errs, g')"
  shows "\<exists>pd'. g' = g\<lparr> dispatchers := gm_set (dispatchers g) (NamespacedName_String nn) pd' \<rparr>
    \<and> {k. sm_Get S (endpoints pd') k \<noteq> None} \<subseteq> (\<lambda>pod. fst (podEndpointKeyFunc pod)) ` {pod \<in> set pods. isPodReady pod}
    \<and> (errs = [] \<longrightarrow> {k. sm_Get S (endpoints pd') k \<noteq> None} = (\<lambda>pod. fst (podEndpointKeyFunc pod)) ` {pod \<in> set pods. isPodReady pod})
    \<and> k8s_Reconcile S T mk isPodReady (\<lambda>nn. Inl NotFound) listP nn g = Ret ([], g)"
proof -
  obtain cl pd' where r: "Reconcile S T mk (filter isPodReady pods) pd = Ret (errs, cl, pd')"
    and g': "g' = g\<lparr> dispatchers := gm_set (dispatchers g) (NamespacedName_String nn) pd' \<rparr>"
    using assms(2-5) by (auto simp: k8s_Reconcile_def Let_def go_bind_eq_Ret)
  have get: "sm_Get S m k = map_of (sm_Inner S m) k" for m k
    by (rule shared_map.Get_inner [OF dispatcher_env.axioms(1) [OF assms(1)]])
  have "{k. sm_Get S (endpoints pd') k \<noteq> None} \<subseteq> dom (map_of (ready_endpoints (filter isPodReady pods)))"
    using dispatcher_env.Reconcile_spec(1) [OF assms(1) r] unfolding get by (auto split: if_splits)
  moreover have "errs = [] \<longleftrightarrow> {k. sm_Get S (endpoints pd') k \<noteq> None} = dom (map_of (ready_endpoints (filter isPodReady pods)))"
    using dispatcher_env.Reconcile_errs [OF assms(1) r] unfolding get by (simp only: dom_def)
  ultimately show ?thesis
    using g' unfolding ready_endpoints_dom by (auto simp: k8s_Reconcile_def)
qed

definition one_dispatcher_gateway :: "(Request list, Response list, (string \<times> nat) list, string list, float64, int list, string list \<times> string list) k8sGateway" where
  "one_dispatcher_gateway = \<lparr> gw_impl = newGatewayImpl gochan, dispatchTimeout = 0, dispatchers = [(''default/f'', two_tokens)],
     gw_autoscaler = None, newAutoscalerFn = None \<rparr>"

theorem gateway_reconcile_witness:
  "\<exists>g' pd'. k8s_Reconcile gomap_shared gochan dial_ok (\<lambda>p. True) (\<lambda>nn. Inr sample_deployment) (\<lambda>ns ls. Inr [one_pod]) (''default'', ''f'') one_dispatcher_gateway = Ret ([], g')
     \<and> g' = one_dispatcher_gateway\<lparr> dispatchers := gm_set (dispatchers one_dispatcher_gateway) ''default/f'' pd' \<rparr>
     \<and> {k. gm_get (endpoints pd') k \<noteq> None} = {''p@10.0.0.1:80''}"
proof -
  have "Reconcile gomap_shared gochan dial_ok [one_pod] two_tokens
      = Ret ([], [3], two_tokens\<lparr> endpoints := [(''p@10.0.0.1:80'', 1)], tokens := [''gone'', ''live'', ''live'', ''p@10.0.0.1:80''] \<rparr>)"
    by code_simp
  then have "\<exists>g'. k8s_Reconcile gomap_shared gochan dial_ok (\<lambda>p. True) (\<lambda>nn. Inr sample_deployment) (\<lambda>ns ls. Inr [one_pod]) (''default'', ''f'') one_dispatcher_gateway = Ret ([], g')"
    by (simp add: k8s_Reconcile_def one_dispatcher_gateway_def NamespacedName_String_def gm_get_def Let_def)
  then obtain g' where g': "k8s_Reconcile gomap_shared gochan dial_ok (\<lambda>p. True) (\<lambda>nn. Inr sample_deployment) (\<lambda>ns ls. Inr [one_pod]) (''default'', ''f'') one_dispatcher_gateway = Ret ([], g')"
    by blast
  have "gm_get (dispatchers one_dispatcher_gateway) (NamespacedName_String (''default'', ''f'')) = Some two_tokens"
    by (simp add: one_dispatcher_gateway_def NamespacedName_String_def gm_get_def)
  from gateway_reconcile [OF native_disp.dispatcher_env_axioms refl refl this g'] g' show ?thesis
    by (auto simp: NamespacedName_String_def one_pod_def podEndpointKeyFunc_def WorkloadServicePort_def Let_def)
qed

text \<open>
  C38. When listing the pods fails, the error is only logged and the reconcile goes on with an empty
  list: it returns no error and the dispatcher loses every endpoint, ready pods included.\<close>

theorem list_failure_drops_endpoints:
  fixes listP :: "string \<Rightarrow> labels \<Rightarrow> string + 'p Pod_scheme list"
  assumes "dispatcher_env S T items" "getD nn = Inr target" "listP (Namespace target) (TemplateLabels target) = Inl err"
    and "gm_get (dispatchers g) (NamespacedName_String nn) = Some pd"
  shows "\<exists>pd'. k8s_Reconcile S T mk isPodReady getD listP nn g
      = Ret ([], g\<lparr> dispatchers := gm_set (dispatchers g) (NamespacedName_String nn) pd' \<rparr>)
    \<and> (\<forall>k. sm_Get S (endpoints pd') k = None)"
proof -
  obtain cl pd' where r: "Reconcile S T mk ([] :: 'p Pod_scheme list) pd = Ret ([], cl, pd')"
    by (cases "exec_rops S T (map DelEndpoint (gm_keys (sm_Inner S (endpoints pd)))) pd")
      (simp add: Reconcile_def reconcile_threads_def reconcile_errs_def ready_endpoints_def endpoint_diff_def gm_keys_def gm_get_def Let_def)
  have "sm_Get S (endpoints pd') k = None" for k
    using dispatcher_env.Reconcile_spec(1) [OF assms(1) r, of k] shared_map.Get_inner [OF dispatcher_env.axioms(1) [OF assms(1)]]
    by (simp add: ready_endpoints_def)
  then show ?thesis
    using assms(2-4) r by (auto simp: k8s_Reconcile_def Let_def)
qed

theorem list_failure_drops_endpoints_witness:
  "\<exists>g'. k8s_Reconcile gomap_shared gochan dial_ok (\<lambda>p. True) (\<lambda>nn. Inr sample_deployment) (\<lambda>ns ls. Inl ''timeout'') (''default'', ''f'') one_dispatcher_gateway = Ret ([], g')"
proof -
  have d: "gm_get (dispatchers one_dispatcher_gateway) (NamespacedName_String (''default'', ''f'')) = Some two_tokens"
    by (simp add: one_dispatcher_gateway_def NamespacedName_String_def gm_get_def)
  show ?thesis
    using list_failure_drops_endpoints [OF native_disp.dispatcher_env_axioms _ _ d, of "\<lambda>nn. Inr sample_deployment" sample_deployment
        "\<lambda>ns ls. Inl ''timeout''" "''timeout''" dial_ok "\<lambda>p. True"] by auto
qed

end
