(* ===== verification/Kubelet.thy ===== *)
theory Kubelet
  imports Workload WorkQueue
begin

text \<open>
  \<open>cmd/kubelet\<close>: the custom node agent. Pods reach it from the API server's informer and, before they
  exist there, from the scheduler over RPC (\<open>BindPod\<close>); both are put on one rate limited work queue.
  A worker takes a pod, exposes it through the API if it is only known in memory, waits until its
  ready delay is over and then writes a ready status for it. The API server, the informer caches and
  the packages \<open>k8s.io/kubedirect/pkg/...\<close> are parameters: \<open>kdlib\<close> holds the package functions, \<open>kube\<close>
  the answers and clock readings one operation sees. The requests sent to the API server are
  recorded in the state, in the order they are sent.
\<close>

section \<open>API objects\<close>

record Container =
  ContainerName :: string
  Image :: string

record ContainerStateTerminated =
  ExitCode :: int
  Reason :: string
  TerminatedStartedAt :: gotime
  FinishedAt :: gotime

text \<open>The pointers \<open>Running\<close> and \<open>Terminated\<close> of \<open>ContainerState\<close>; the former's only field is \<open>StartedAt\<close>.\<close>

record ContainerStatus =
  CsName :: string
  CsImage :: string
  Started :: "bool option"
  Ready :: bool
  Running :: "gotime option"
  Terminated :: "ContainerStateTerminated option"

record PodCondition =
  CondType :: string
  CondStatus :: string
  LastTransitionTime :: gotime

record PodStatus =
  Phase :: string
  Conditions :: "PodCondition list"
  HostIP :: string
  StatusPodIP :: string
  StartTime :: "gotime option"
  ContainerStatuses :: "ContainerStatus list"
  InitContainerStatuses :: "ContainerStatus list"

record kpod = ObjectMeta +
  UID :: string
  ResourceVersion :: string
  DeletionTimestamp :: "gotime option"
  NodeName :: string
  ReadinessGates :: "string list"
  Containers :: "Container list"
  InitContainers :: "Container list"
  PodStatus_of :: PodStatus

record Node = ObjectMeta +
  Annotations :: labels
  Addresses :: "(string \<times> string) list"

text \<open>What an informer hands to its event handlers.\<close>

datatype eventObj = PodObj kpod | NodeObj Node | DeletedFinalStateUnknown eventObj | OtherObj

datatype kube_error = KNotFound string | KAlreadyExists string | KError string

datatype sync_error =
    TemplateErr kube_error
  | PodErr kube_error
  | NodeErr "kube_error option" "kube_error option"
  | DeleteErr kube_error
  | ListPoolErr kube_error
  | NoReadyRef
  | MarshalErr string
  | UpdateErr kube_error
  | PatchErr string kube_error

section \<open>Pending pods\<close>

record PendingPod =
  PendNamespace :: string
  PendName :: string

text \<open>The fields of \<open>kdctx.PodInfo\<close> the sources read.\<close>

record PodInfo =
  InfoNamespace :: string
  InfoName :: string
  OwnerName :: string

definition NewPendingPodFromAPIServer :: "kpod \<Rightarrow> PendingPod" where
  "NewPendingPodFromAPIServer pod = \<lparr> PendNamespace = Namespace pod, PendName = Name pod \<rparr>"

definition NewPendingPodFromInMemCache :: "'x PodInfo_scheme \<Rightarrow> PendingPod" where
  "NewPendingPodFromInMemCache podInfo = \<lparr> PendNamespace = InfoNamespace podInfo, PendName = InfoName podInfo \<rparr>"

definition PendingPod_String :: "PendingPod \<Rightarrow> string" where
  "PendingPod_String p = PendNamespace p @ ''/'' @ PendName p"

section \<open>The packages and the API server\<close>

text \<open>\<open>kdrpc.ServerHub\<close>: an exclusive lock on a source opens a new epoch, a shared lock needs the current one.\<close>

record 'h serverHub =
  hub_new :: 'h
  hub_Lock :: "'h \<Rightarrow> string \<Rightarrow> string \<Rightarrow> 'h"
  hub_Unlock :: "'h \<Rightarrow> string \<Rightarrow> 'h"
  hub_RLock :: "'h \<Rightarrow> string \<Rightarrow> string \<Rightarrow> string + 'h"
  hub_RUnlock :: "'h \<Rightarrow> string \<Rightarrow> 'h"

record HandshakeRequest =
  hs_Source :: string
  hs_Destination :: string
  hs_Epoch :: string

text \<open>The fields of \<open>kdproto.PodBindingRequest\<close> the server reads itself.\<close>

record PodBindingRequest =
  bind_Source :: string
  bind_Epoch :: string
  bind_OwnerNamespace :: string
  bind_OwnerName :: string

text \<open>The object that a status patch is marshalled from: the UID and the new status, all else zero.\<close>

record PodPatch =
  patch_UID :: string
  patch_Status :: PodStatus

record ('c, 'cp, 'x, 'im, 'tm, 'h, 'q, 't, 'r) kdlib =
  lib_clients :: "('cp, 'c) sharedMap"
  lib_cache :: "('im, 'x PodInfo_scheme) sharedMap"
  lib_timers :: "('tm, gotime) sharedMap"
  lib_hub :: "'h serverHub"
  lib_queue :: "(PendingPod, 'q) ratequeue"
  AsPodInfosProtoOnNode :: "'im \<Rightarrow> string \<Rightarrow> 'x PodInfo_scheme list"
  IsManaged :: "kpod \<Rightarrow> bool"
  IsPersistent :: "kpod \<Rightarrow> bool"
  IsPodActive :: "kpod \<Rightarrow> bool"
  IsPodReady :: "kpod \<Rightarrow> bool"
  AsPersistentPod :: "'x PodInfo_scheme \<Rightarrow> 't \<Rightarrow> kpod"
  NewPodInfoFromBindingRequest :: "'r PodBindingRequest_scheme \<Rightarrow> 'x PodInfo_scheme"
  json_Marshal :: "PodPatch \<Rightarrow> string + string"
  PodLifecycleManagerLabel :: string
  KubeletServiceAddrAnnotation :: string

record 't kube =
  time_Now :: gotime
  time_Until :: gotime
  time_Stamp :: gotime
  ls_GetPod :: "string \<Rightarrow> string \<Rightarrow> kube_error + kpod"
  ls_ListPods :: "string \<Rightarrow> labels \<Rightarrow> kube_error + kpod list"
  ls_GetNode :: "string \<Rightarrow> kube_error + Node"
  GetUnnamedTemplateFor :: "string \<Rightarrow> string \<Rightarrow> bool \<Rightarrow> kube_error + 't"
  api_Delete :: "string \<Rightarrow> string \<Rightarrow> kube_error option"
  api_Create :: "kpod \<Rightarrow> kube_error option"
  api_UpdateStatus :: "kpod \<Rightarrow> kube_error + kpod"
  api_Patch :: "string \<Rightarrow> string \<Rightarrow> string \<Rightarrow> kube_error + kpod"
  api_UpdateNode :: "Node \<Rightarrow> kube_error option"
  Intn :: "nat \<Rightarrow> nat"

datatype 'c api_call =
    DeletePod string string int
  | CreatePod 'c kpod
  | UpdateStatus 'c kpod
  | PatchStatus 'c string string string
  | UpdateNode Node

section \<open>The server\<close>

text \<open>
  \<open>exposing\<close> are the goroutines running \<open>ExposeManagedPod\<close>, by their pod; \<open>calls\<close> the requests sent. The
  loggers, the informer factory and the listers have no state of their own here.
\<close>

record ('c, 'cp, 'im, 'tm, 'h, 'q) KubedirectServer =
  clientPool :: 'cp
  serverHub :: 'h
  queue :: 'q
  inMemCache :: 'im
  nodeName :: string
  readyDelay :: duration
  readyTimers :: 'tm
  simulate :: bool
  patch :: bool
  exposing :: "kpod list"
  calls :: "'c api_call list"

definition CustomKubeletServicePort :: string where "CustomKubeletServicePort = '':25010''"
definition PodLifecycleManagerCustom :: string where "PodLifecycleManagerCustom = ''custom''"
definition nWorkers :: nat where "nWorkers = 64"
definition WorkloadPoolLabel :: string where "WorkloadPoolLabel = ''kubedirect/workload-pool''"

text \<open>\<open>podErr\<close> and \<open>nodeErr\<close>: whether the informer refuses an event handler; the result is then nil.\<close>

definition NewKubedirectServer ::
    "('c, 'cp, 'x, 'im, 'tm, 'h, 'q, 't, 'r) kdlib \<Rightarrow> bool \<Rightarrow> bool \<Rightarrow> string \<Rightarrow> ('c, 'cp, 'im, 'tm, 'h, 'q) KubedirectServer option" where
  "NewKubedirectServer K podErr nodeErr node =
     (if podErr then None
      else if nodeErr then None
      else Some \<lparr>
        clientPool = sm_new (lib_clients K), serverHub = hub_new (lib_hub K), queue = wq_new (lib_queue K),
        inMemCache = sm_new (lib_cache K), nodeName = node, readyDelay = 0,
        readyTimers = sm_new (lib_timers K), simulate = False, patch = False, exposing = [], calls = [] \<rparr>)"

definition WithReadyDelay :: "duration \<Rightarrow> ('c, 'cp, 'im, 'tm, 'h, 'q) KubedirectServer \<Rightarrow> ('c, 'cp, 'im, 'tm, 'h, 'q) KubedirectServer" where
  "WithReadyDelay delay s = s\<lparr> readyDelay := delay \<rparr>"

definition Simulate :: "('c, 'cp, 'im, 'tm, 'h, 'q) KubedirectServer \<Rightarrow> ('c, 'cp, 'im, 'tm, 'h, 'q) KubedirectServer" where
  "Simulate s = s\<lparr> simulate := True \<rparr>"

definition UsePatch :: "('c, 'cp, 'im, 'tm, 'h, 'q) KubedirectServer \<Rightarrow> ('c, 'cp, 'im, 'tm, 'h, 'q) KubedirectServer" where
  "UsePatch s = s\<lparr> patch := True \<rparr>"

record kubelet_flags =
  flag_node :: string
  flag_simulate :: bool
  flag_patch :: bool
  flag_readyDelayMilliseconds :: int

definition default_kubelet_flags :: kubelet_flags where
  "default_kubelet_flags = \<lparr> flag_node = '''', flag_simulate = False, flag_patch = True, flag_readyDelayMilliseconds = 100 \<rparr>"

text \<open>\<open>main\<close> up to the call of \<open>ListenAndServe\<close>, with the answer of \<open>os.Hostname\<close>.\<close>

definition kubelet_main ::
    "('c, 'cp, 'x, 'im, 'tm, 'h, 'q, 't, 'r) kdlib \<Rightarrow> bool \<Rightarrow> bool \<Rightarrow> string + string \<Rightarrow> kubelet_flags
       \<Rightarrow> ('c, 'cp, 'im, 'tm, 'h, 'q) KubedirectServer go" where
  "kubelet_main K podErr nodeErr hostname f =
     go_bind (if flag_node f = '''' then (case hostname of
                  Inl err \<Rightarrow> Panic (''Failed to get hostname: '' @ err)
                | Inr hostName \<Rightarrow> Ret hostName)
              else Ret (flag_node f)) (\<lambda>node.
       case NewKubedirectServer K podErr nodeErr node of
         None \<Rightarrow> Panic ''nil pointer dereference''
       | Some s0 \<Rightarrow>
           let s = WithReadyDelay (int64_of (flag_readyDelayMilliseconds f * Millisecond)) s0;
               s1 = (if flag_simulate f then Simulate s else s)
           in Ret (if flag_patch f then UsePatch s1 else s1))"

subsection \<open>Event handlers\<close>

definition enqueueFilter :: "('c, 'cp, 'x, 'im, 'tm, 'h, 'q, 't, 'r) kdlib \<Rightarrow> kpod \<Rightarrow> bool" where
  "enqueueFilter K pod \<longleftrightarrow>
     NodeName pod \<noteq> '''' \<and> label (Labels pod) (PodLifecycleManagerLabel K) = PodLifecycleManagerCustom"

text \<open>\<open>FilterFunc\<close> of the pod informer's handler.\<close>

fun podFilterFunc :: "('c, 'cp, 'x, 'im, 'tm, 'h, 'q, 't, 'r) kdlib \<Rightarrow> eventObj \<Rightarrow> bool" where
  "podFilterFunc K (PodObj p) = enqueueFilter K p"
| "podFilterFunc K (DeletedFinalStateUnknown (PodObj p)) = enqueueFilter K p"
| "podFilterFunc K _ = False"

fun unwrapPodObj :: "('c, 'cp, 'x, 'im, 'tm, 'h, 'q, 't, 'r) kdlib \<Rightarrow> eventObj \<Rightarrow> kpod option" where
  "unwrapPodObj K (PodObj p) = (if enqueueFilter K p then Some p else None)"
| "unwrapPodObj K (DeletedFinalStateUnknown (PodObj p)) = (if enqueueFilter K p then Some p else None)"
| "unwrapPodObj K _ = None"

fun unwrapNodeObj :: "eventObj \<Rightarrow> Node option" where
  "unwrapNodeObj (NodeObj n) = Some n"
| "unwrapNodeObj (DeletedFinalStateUnknown (NodeObj n)) = Some n"
| "unwrapNodeObj _ = None"

definition isResponsibleFor ::
    "('c, 'cp, 'x, 'im, 'tm, 'h, 'q, 't, 'r) kdlib \<Rightarrow> 't kube \<Rightarrow> ('c, 'cp, 'im, 'tm, 'h, 'q) KubedirectServer
       \<Rightarrow> kpod \<Rightarrow> sync_error + bool" where
  "isResponsibleFor K E s pod =
     (if NodeName pod = '''' then Inr False
      else if NodeName pod = nodeName s then Inr True
      else case (ls_GetNode E (nodeName s), ls_GetNode E (NodeName pod)) of
          (Inr thisNode, Inr thatNode) \<Rightarrow>
            Inr (label (Annotations thisNode) (KubeletServiceAddrAnnotation K)
                   = label (Annotations thatNode) (KubeletServiceAddrAnnotation K))
        | (Inl thisErr, Inl thatErr) \<Rightarrow> Inl (NodeErr (Some thisErr) (Some thatErr))
        | (Inl thisErr, _) \<Rightarrow> Inl (NodeErr (Some thisErr) None)
        | (_, Inl thatErr) \<Rightarrow> Inl (NodeErr None (Some thatErr)))"

definition clearTimer ::
    "('c, 'cp, 'x, 'im, 'tm, 'h, 'q, 't, 'r) kdlib \<Rightarrow> PendingPod \<Rightarrow> ('c, 'cp, 'im, 'tm, 'h, 'q) KubedirectServer
       \<Rightarrow> ('c, 'cp, 'im, 'tm, 'h, 'q) KubedirectServer" where
  "clearTimer K pending s =
     s\<lparr> readyTimers := snd (sm_Del (lib_timers K) (readyTimers s) (PendingPod_String pending)) \<rparr>"

definition handlePodEvent ::
    "('c, 'cp, 'x, 'im, 'tm, 'h, 'q, 't, 'r) kdlib \<Rightarrow> eventObj \<Rightarrow> bool \<Rightarrow> ('c, 'cp, 'im, 'tm, 'h, 'q) KubedirectServer
       \<Rightarrow> ('c, 'cp, 'im, 'tm, 'h, 'q) KubedirectServer" where
  "handlePodEvent K obj isDelete s =
     (case unwrapPodObj K obj of
        None \<Rightarrow> s
      | Some pod \<Rightarrow>
          let pending = NewPendingPodFromAPIServer pod;
              s1 = (if \<not> isDelete then s\<lparr> queue := wq_Add (lib_queue K) (queue s) pending \<rparr> else clearTimer K pending s)
          in if IsManaged K pod \<and> IsPersistent K pod
             then s1\<lparr> inMemCache := snd (sm_Del (lib_cache K) (inMemCache s1) (Name pod)) \<rparr> else s1)"

subsection \<open>RPC handlers\<close>

definition GetClient ::
    "('c, 'cp, 'x, 'im, 'tm, 'h, 'q, 't, 'r) kdlib \<Rightarrow> ('c, 'cp, 'im, 'tm, 'h, 'q) KubedirectServer \<Rightarrow> string \<Rightarrow> 'c option" where
  "GetClient K s node = sm_Get (lib_clients K) (clientPool s) node"

definition DelClient ::
    "('c, 'cp, 'x, 'im, 'tm, 'h, 'q, 't, 'r) kdlib \<Rightarrow> string \<Rightarrow> ('c, 'cp, 'im, 'tm, 'h, 'q) KubedirectServer
       \<Rightarrow> ('c, 'cp, 'im, 'tm, 'h, 'q) KubedirectServer" where
  "DelClient K node s = s\<lparr> clientPool := snd (sm_Del (lib_clients K) (clientPool s) node) \<rparr>"

text \<open>\<open>DeleteFunc\<close> of the node informer's handler.\<close>

definition handleNodeDelete ::
    "('c, 'cp, 'x, 'im, 'tm, 'h, 'q, 't, 'r) kdlib \<Rightarrow> eventObj \<Rightarrow> ('c, 'cp, 'im, 'tm, 'h, 'q) KubedirectServer
       \<Rightarrow> ('c, 'cp, 'im, 'tm, 'h, 'q) KubedirectServer" where
  "handleNodeDelete K obj s = (case unwrapNodeObj obj of None \<Rightarrow> s | Some n \<Rightarrow> DelClient K (Name n) s)"

record 'x KubeletHandshakeResponse =
  hr_Epoch :: string
  hr_Name :: string
  hr_Pods :: "'x PodInfo_scheme list"

text \<open>\<open>newClient\<close> is the client \<open>NewClientsetOrDie\<close> would build.\<close>

definition Handshake ::
    "('c, 'cp, 'x, 'im, 'tm, 'h, 'q, 't, 'r) kdlib \<Rightarrow> 'c \<Rightarrow> HandshakeRequest \<Rightarrow> ('c, 'cp, 'im, 'tm, 'h, 'q) KubedirectServer
       \<Rightarrow> 'x KubeletHandshakeResponse \<times> ('c, 'cp, 'im, 'tm, 'h, 'q) KubedirectServer" where
  "Handshake K newClient req s =
     (let (_, _, pool) = sm_GetOrCreate (lib_clients K) (clientPool s) (hs_Destination req) newClient;
          locked = hub_Lock (lib_hub K) (serverHub s) (hs_Source req) (hs_Epoch req);
          msg = \<lparr> hr_Epoch = hs_Epoch req, hr_Name = hs_Destination req,
                  hr_Pods = AsPodInfosProtoOnNode K (inMemCache s) (hs_Destination req) \<rparr>
      in (msg, s\<lparr> clientPool := pool, serverHub := hub_Unlock (lib_hub K) locked (hs_Source req) \<rparr>))"

datatype rpc_error = RpcNotFound kube_error | RpcInvalidArgument string

definition BindPod ::
    "('c, 'cp, 'x, 'im, 'tm, 'h, 'q, 't, 'r) kdlib \<Rightarrow> 't kube \<Rightarrow> 'r PodBindingRequest_scheme
       \<Rightarrow> ('c, 'cp, 'im, 'tm, 'h, 'q) KubedirectServer
       \<Rightarrow> (rpc_error + unit) \<times> ('c, 'cp, 'im, 'tm, 'h, 'q) KubedirectServer" where
  "BindPod K E req s =
     (case GetUnnamedTemplateFor E (bind_OwnerNamespace req) (bind_OwnerName req) False of
        Inl err \<Rightarrow> (Inl (RpcNotFound err), s)
      | Inr _ \<Rightarrow>
          let podInfo = NewPodInfoFromBindingRequest K req in
          case hub_RLock (lib_hub K) (serverHub s) (bind_Source req) (bind_Epoch req) of
            Inl err \<Rightarrow> (Inl (RpcInvalidArgument err), s)
          | Inr locked \<Rightarrow>
              let (_, fresh, cache) = sm_GetOrCreate (lib_cache K) (inMemCache s) (InfoName podInfo) podInfo;
                  s1 = s\<lparr> inMemCache := cache, serverHub := hub_RUnlock (lib_hub K) locked (bind_Source req) \<rparr>
              in if \<not> fresh then (Inr (), s1)
                 else (Inr (), s1\<lparr> queue := wq_Add (lib_queue K) (queue s1) (NewPendingPodFromInMemCache podInfo) \<rparr>))"

subsection \<open>Exposing a pod\<close>

text \<open>
  The goroutine \<open>ExposeManagedPod\<close>: nothing to do for a pod that has a resource version, else \<open>tryCreate\<close>
  at once and then every second until it reports \<open>True\<close>. A method call on the nil client panics.
\<close>

definition tryCreate ::
    "('c, 'cp, 'x, 'im, 'tm, 'h, 'q, 't, 'r) kdlib \<Rightarrow> 't kube \<Rightarrow> kpod \<Rightarrow> ('c, 'cp, 'im, 'tm, 'h, 'q) KubedirectServer
       \<Rightarrow> (bool \<times> ('c, 'cp, 'im, 'tm, 'h, 'q) KubedirectServer) go" where
  "tryCreate K E pod s =
     (case GetClient K s (NodeName pod) of
        None \<Rightarrow> Panic ''nil pointer dereference''
      | Some c \<Rightarrow>
          let s' = s\<lparr> calls := calls s @ [CreatePod c pod] \<rparr> in
          case api_Create E pod of
            None \<Rightarrow> Ret (True, s')
          | Some (KAlreadyExists _) \<Rightarrow> Ret (True, s')
          | Some _ \<Rightarrow> Ret (False, s'))"

definition ExposeManagedPod ::
    "('c, 'cp, 'x, 'im, 'tm, 'h, 'q, 't, 'r) kdlib \<Rightarrow> 't kube \<Rightarrow> kpod \<Rightarrow> ('c, 'cp, 'im, 'tm, 'h, 'q) KubedirectServer
       \<Rightarrow> (bool \<times> ('c, 'cp, 'im, 'tm, 'h, 'q) KubedirectServer) go" where
  "ExposeManagedPod K E pod s = (if ResourceVersion pod \<noteq> '''' then Ret (True, s) else tryCreate K E pod s)"

subsection \<open>The status of a ready pod\<close>

definition tweak_condition :: "gotime \<Rightarrow> PodCondition \<Rightarrow> PodCondition" where
  "tweak_condition now cond = cond\<lparr> LastTransitionTime := now \<rparr>"

definition tweak_running :: "gotime \<Rightarrow> ContainerStatus \<Rightarrow> ContainerStatus" where
  "tweak_running now st = (case Running st of None \<Rightarrow> st | Some _ \<Rightarrow> st\<lparr> Running := Some now \<rparr>)"

definition tweak_terminated :: "gotime \<Rightarrow> ContainerStatus \<Rightarrow> ContainerStatus" where
  "tweak_terminated now st =
     (case Terminated st of None \<Rightarrow> st
      | Some t \<Rightarrow> st\<lparr> Terminated := Some (t\<lparr> TerminatedStartedAt := now, FinishedAt := now \<rparr>) \<rparr>)"

definition tweakRefPodStatus :: "gotime \<Rightarrow> PodStatus \<Rightarrow> PodStatus" where
  "tweakRefPodStatus now refStatus = refStatus\<lparr>
     StartTime := Some now,
     Conditions := map (tweak_condition now) (Conditions refStatus),
     ContainerStatuses := map (tweak_running now) (ContainerStatuses refStatus),
     InitContainerStatuses := map (tweak_terminated now \<circ> tweak_running now) (InitContainerStatuses refStatus) \<rparr>"

definition true_condition :: "string \<Rightarrow> PodCondition" where
  "true_condition t = \<lparr> CondType = t, CondStatus = ''True'', LastTransitionTime = zeroTime \<rparr>"

definition running_status :: "Container \<Rightarrow> ContainerStatus" where
  "running_status c = \<lparr> CsName = ContainerName c, CsImage = Image c, Started = Some True, Ready = True,
                        Running = Some zeroTime, Terminated = None \<rparr>"

definition completed_status :: "Container \<Rightarrow> ContainerStatus" where
  "completed_status c = \<lparr> CsName = ContainerName c, CsImage = Image c, Started = Some True, Ready = True,
     Running = None,
     Terminated = Some \<lparr> ExitCode = 0, Reason = ''Completed'', TerminatedStartedAt = zeroTime, FinishedAt = zeroTime \<rparr> \<rparr>"

definition simulateRefPodStatus :: "gotime \<Rightarrow> kpod \<Rightarrow> PodStatus" where
  "simulateRefPodStatus now pod = tweakRefPodStatus now \<lparr>
     Phase = ''Running'',
     Conditions = map true_condition ([''Ready'', ''ContainersReady'', ''PodScheduled'', ''Initialized''] @ ReadinessGates pod),
     HostIP = ''127.0.0.1'', StatusPodIP = ''127.0.0.1'', StartTime = None,
     ContainerStatuses = map running_status (Containers pod),
     InitContainerStatuses = map completed_status (InitContainers pod) \<rparr>"

definition getRefPodStatus ::
    "('c, 'cp, 'x, 'im, 'tm, 'h, 'q, 't, 'r) kdlib \<Rightarrow> 't kube \<Rightarrow> kpod \<Rightarrow> (sync_error + PodStatus) go" where
  "getRefPodStatus K E pod =
     (case ls_ListPods E (Namespace pod) [(WorkloadPoolLabel, label (Labels pod) ''workload'')] of
        Inl err \<Rightarrow> Ret (Inl (ListPoolErr err))
      | Inr workloadPool \<Rightarrow>
          let readyPods = filter (IsPodReady K) workloadPool in
          if readyPods = [] then Ret (Inl NoReadyRef)
          else let i = Intn E (length readyPods) in
            if length readyPods \<le> i then Panic ''index out of range''
            else Ret (Inr (tweakRefPodStatus (time_Stamp E) (PodStatus_of (readyPods ! i)))))"

definition prepareMergePatchBytesForPodStatus ::
    "('c, 'cp, 'x, 'im, 'tm, 'h, 'q, 't, 'r) kdlib \<Rightarrow> string \<Rightarrow> PodStatus \<Rightarrow> sync_error + string" where
  "prepareMergePatchBytesForPodStatus K uid newPodStatus =
     (case json_Marshal K \<lparr> patch_UID = uid, patch_Status = newPodStatus \<rparr> of
        Inl err \<Rightarrow> Inl (MarshalErr err)
      | Inr patchBytes \<Rightarrow> Inr patchBytes)"

definition markPodReadyByUpdate ::
    "('c, 'cp, 'x, 'im, 'tm, 'h, 'q, 't, 'r) kdlib \<Rightarrow> 't kube \<Rightarrow> kpod \<Rightarrow> PodStatus \<Rightarrow> ('c, 'cp, 'im, 'tm, 'h, 'q) KubedirectServer
       \<Rightarrow> ((sync_error + kpod) \<times> ('c, 'cp, 'im, 'tm, 'h, 'q) KubedirectServer) go" where
  "markPodReadyByUpdate K E pod refStatus s =
     (let pod' = pod\<lparr> PodStatus_of := refStatus \<rparr> in
      case GetClient K s (NodeName pod') of
        None \<Rightarrow> Panic ''nil pointer dereference''
      | Some c \<Rightarrow>
          let s' = s\<lparr> calls := calls s @ [UpdateStatus c pod'] \<rparr> in
          case api_UpdateStatus E pod' of
            Inl err \<Rightarrow> Ret (Inl (UpdateErr err), s')
          | Inr updatedPod \<Rightarrow> Ret (Inr updatedPod, s'))"

definition markPodReadyByPatch ::
    "('c, 'cp, 'x, 'im, 'tm, 'h, 'q, 't, 'r) kdlib \<Rightarrow> 't kube \<Rightarrow> kpod \<Rightarrow> PodStatus \<Rightarrow> ('c, 'cp, 'im, 'tm, 'h, 'q) KubedirectServer
       \<Rightarrow> ((sync_error + kpod) \<times> ('c, 'cp, 'im, 'tm, 'h, 'q) KubedirectServer) go" where
  "markPodReadyByPatch K E pod refStatus s =
     (case prepareMergePatchBytesForPodStatus K (UID pod) refStatus of
        Inl err \<Rightarrow> Ret (Inl err, s)
      | Inr patchBytes \<Rightarrow>
          case GetClient K s (NodeName pod) of
            None \<Rightarrow> Panic ''nil pointer dereference''
          | Some c \<Rightarrow>
              let s' = s\<lparr> calls := calls s @ [PatchStatus c (Namespace pod) (Name pod) patchBytes] \<rparr> in
              case api_Patch E (Namespace pod) (Name pod) patchBytes of
                Inl err \<Rightarrow> Ret (Inl (PatchErr patchBytes err), s')
              | Inr updatedPod \<Rightarrow> Ret (Inr updatedPod, s'))"

definition markPodReady ::
    "('c, 'cp, 'x, 'im, 'tm, 'h, 'q, 't, 'r) kdlib \<Rightarrow> 't kube \<Rightarrow> kpod \<Rightarrow> PodStatus \<Rightarrow> ('c, 'cp, 'im, 'tm, 'h, 'q) KubedirectServer
       \<Rightarrow> ((sync_error + kpod) \<times> ('c, 'cp, 'im, 'tm, 'h, 'q) KubedirectServer) go" where
  "markPodReady K E pod refStatus s =
     (if patch s then markPodReadyByPatch K E pod refStatus s else markPodReadyByUpdate K E pod refStatus s)"

subsection \<open>Workers\<close>

text \<open>
  \<open>SyncPod\<close> in its four parts: the pod that the key names (\<open>None\<close> when there is none) with whether it
  comes from memory, the checks of its status, the ready delay, and the ready status.
\<close>

definition SyncPod_resolve ::
    "('c, 'cp, 'x, 'im, 'tm, 'h, 'q, 't, 'r) kdlib \<Rightarrow> 't kube \<Rightarrow> PendingPod \<Rightarrow> ('c, 'cp, 'im, 'tm, 'h, 'q) KubedirectServer
       \<Rightarrow> sync_error + (kpod \<times> bool) option" where
  "SyncPod_resolve K E pending s =
     (case ls_GetPod E (PendNamespace pending) (PendName pending) of
        Inr apiPod \<Rightarrow> Inr (Some (apiPod, False))
      | Inl (KNotFound _) \<Rightarrow>
          (case sm_Get (lib_cache K) (inMemCache s) (PendName pending) of
             None \<Rightarrow> Inr None
           | Some podInfo \<Rightarrow>
               (case GetUnnamedTemplateFor E (InfoNamespace podInfo) (OwnerName podInfo) True of
                  Inl (KNotFound _) \<Rightarrow> Inr None
                | Inl err \<Rightarrow> Inl (TemplateErr err)
                | Inr template \<Rightarrow> Inr (Some (AsPersistentPod K podInfo template, True))))
      | Inl err \<Rightarrow> Inl (PodErr err))"

definition SyncPod_mark ::
    "('c, 'cp, 'x, 'im, 'tm, 'h, 'q, 't, 'r) kdlib \<Rightarrow> 't kube \<Rightarrow> kpod \<Rightarrow> ('c, 'cp, 'im, 'tm, 'h, 'q) KubedirectServer
       \<Rightarrow> (sync_error option \<times> ('c, 'cp, 'im, 'tm, 'h, 'q) KubedirectServer) go" where
  "SyncPod_mark K E pod s =
     go_bind (if simulate s then Ret (Inr (simulateRefPodStatus (time_Stamp E) pod)) else getRefPodStatus K E pod) (\<lambda>ref.
       case ref of
         Inl err \<Rightarrow> Ret (Some err, s)
       | Inr refStatus \<Rightarrow>
           go_bind (markPodReady K E pod refStatus s) (\<lambda>(r, s').
             case r of Inl err \<Rightarrow> Ret (Some err, s') | Inr _ \<Rightarrow> Ret (None, s')))"

definition SyncPod_delay ::
    "('c, 'cp, 'x, 'im, 'tm, 'h, 'q, 't, 'r) kdlib \<Rightarrow> 't kube \<Rightarrow> PendingPod \<Rightarrow> kpod \<Rightarrow> bool \<Rightarrow> ('c, 'cp, 'im, 'tm, 'h, 'q) KubedirectServer
       \<Rightarrow> (sync_error option \<times> ('c, 'cp, 'im, 'tm, 'h, 'q) KubedirectServer) go" where
  "SyncPod_delay K E pending pod isInMem s =
     (let (readyTime, fresh, timers) = sm_GetOrCreate (lib_timers K) (readyTimers s) (PendingPod_String pending)
                                         (time_Add (time_Now E) (readyDelay s));
          s1 = s\<lparr> readyTimers := timers \<rparr>;
          s2 = (if fresh \<and> isInMem then s1\<lparr> exposing := exposing s1 @ [pod] \<rparr> else s1);
          waitTime = time_Sub readyTime (time_Until E)
      in if 0 < waitTime then Ret (None, s2\<lparr> queue := wq_AddAfter (lib_queue K) (queue s2) pending waitTime \<rparr>)
         else if isInMem then Ret (None, s2)
         else SyncPod_mark K E pod s2)"

definition SyncPod_status ::
    "('c, 'cp, 'x, 'im, 'tm, 'h, 'q, 't, 'r) kdlib \<Rightarrow> 't kube \<Rightarrow> PendingPod \<Rightarrow> kpod \<Rightarrow> bool \<Rightarrow> ('c, 'cp, 'im, 'tm, 'h, 'q) KubedirectServer
       \<Rightarrow> (sync_error option \<times> ('c, 'cp, 'im, 'tm, 'h, 'q) KubedirectServer) go" where
  "SyncPod_status K E pending pod isInMem s =
     (if DeletionTimestamp pod \<noteq> None then
        (let s' = s\<lparr> calls := calls s @ [DeletePod (Namespace pod) (Name pod) 0] \<rparr> in
         case api_Delete E (Namespace pod) (Name pod) of
           None \<Rightarrow> Ret (None, clearTimer K pending s')
         | Some (KNotFound _) \<Rightarrow> Ret (None, clearTimer K pending s')
         | Some err \<Rightarrow> Ret (Some (DeleteErr err), s'))
      else if \<not> IsPodActive K pod then Ret (None, clearTimer K pending s)
      else if IsPodReady K pod then Ret (None, clearTimer K pending s)
      else SyncPod_delay K E pending pod isInMem s)"

definition SyncPod ::
    "('c, 'cp, 'x, 'im, 'tm, 'h, 'q, 't, 'r) kdlib \<Rightarrow> 't kube \<Rightarrow> PendingPod \<Rightarrow> ('c, 'cp, 'im, 'tm, 'h, 'q) KubedirectServer
       \<Rightarrow> (sync_error option \<times> ('c, 'cp, 'im, 'tm, 'h, 'q) KubedirectServer) go" where
  "SyncPod K E pending s =
     (case SyncPod_resolve K E pending s of
        Inl err \<Rightarrow> Ret (Some err, s)
      | Inr None \<Rightarrow> Ret (None, s)
      | Inr (Some (pod, isInMem)) \<Rightarrow>
          (case isResponsibleFor K E s pod of
             Inl err \<Rightarrow> Ret (Some err, s)
           | Inr ok \<Rightarrow> if ok then SyncPod_status K E pending pod isInMem s else Ret (None, s)))"

text \<open>
  \<open>processNextItem\<close> in two steps, so that the workers can interleave: taking a pod from the queue
  (\<open>None\<close> while it blocks or after shutdown), and the rest.
\<close>

definition take_pending ::
    "('c, 'cp, 'x, 'im, 'tm, 'h, 'q, 't, 'r) kdlib \<Rightarrow> ('c, 'cp, 'im, 'tm, 'h, 'q) KubedirectServer
       \<Rightarrow> (PendingPod \<times> ('c, 'cp, 'im, 'tm, 'h, 'q) KubedirectServer) option" where
  "take_pending K s = map_option (\<lambda>(pending, q). (pending, s\<lparr> queue := q \<rparr>)) (wq_Get (lib_queue K) (queue s))"

definition finish_pending ::
    "('c, 'cp, 'x, 'im, 'tm, 'h, 'q, 't, 'r) kdlib \<Rightarrow> 't kube \<Rightarrow> PendingPod \<Rightarrow> ('c, 'cp, 'im, 'tm, 'h, 'q) KubedirectServer
       \<Rightarrow> ('c, 'cp, 'im, 'tm, 'h, 'q) KubedirectServer go" where
  "finish_pending K E pending s =
     go_bind (SyncPod K E pending s) (\<lambda>(err, s').
       let q = (case err of None \<Rightarrow> wq_Forget (lib_queue K) (queue s') pending
                | Some _ \<Rightarrow> wq_AddRateLimited (lib_queue K) (queue s') pending)
       in Ret (s'\<lparr> queue := wq_Done (lib_queue K) q pending \<rparr>))"

definition kubelet_processNextItem ::
    "('c, 'cp, 'x, 'im, 'tm, 'h, 'q, 't, 'r) kdlib \<Rightarrow> 't kube \<Rightarrow> ('c, 'cp, 'im, 'tm, 'h, 'q) KubedirectServer
       \<Rightarrow> (bool \<times> ('c, 'cp, 'im, 'tm, 'h, 'q) KubedirectServer) go" where
  "kubelet_processNextItem K E s =
     (case take_pending K s of
        None \<Rightarrow> Ret (False, s)
      | Some (pending, s') \<Rightarrow> go_bind (finish_pending K E pending s') (\<lambda>s''. Ret (True, s'')))"

subsection \<open>Publishing the service address\<close>

text \<open>
  One attempt of \<open>publishServiceAddr\<close>. Only a \<open>NotFound\<close> error is checked: after any other the node is
  nil. A nil annotation map is the empty map.
\<close>

definition publishServiceAddr ::
    "('c, 'cp, 'x, 'im, 'tm, 'h, 'q, 't, 'r) kdlib \<Rightarrow> 't kube \<Rightarrow> ('c, 'cp, 'im, 'tm, 'h, 'q) KubedirectServer
       \<Rightarrow> ((string + bool) \<times> ('c, 'cp, 'im, 'tm, 'h, 'q) KubedirectServer) go" where
  "publishServiceAddr K E s =
     (case ls_GetNode E (nodeName s) of
        Inl (KNotFound _) \<Rightarrow> Ret (Inl (''node '' @ nodeName s @ '' not found''), s)
      | Inl _ \<Rightarrow> Panic ''nil pointer dereference''
      | Inr node \<Rightarrow>
          let hostIP = (case filter (\<lambda>a. fst a = ''InternalIP'') (Addresses node) of [] \<Rightarrow> '''' | a # _ \<Rightarrow> snd a) in
          if hostIP = '''' then Ret (Inl (''node '' @ nodeName s @ '' has no internal IP''), s)
          else let node' = node\<lparr> Annotations := gm_set (Annotations node) (KubeletServiceAddrAnnotation K)
                                    (hostIP @ CustomKubeletServicePort) \<rparr>;
                   s' = s\<lparr> calls := calls s @ [UpdateNode node'] \<rparr>
               in case api_UpdateNode E node' of Some _ \<Rightarrow> Ret (Inr False, s') | None \<Rightarrow> Ret (Inr True, s'))"

section \<open>Contracts\<close>

text \<open>
  \<open>ServerHub\<close>: \<open>epoch\<close> is the epoch of the last exclusive lock of a source; a shared lock is granted for that
  epoch only and leaves it as it is.
\<close>

locale epoch_hub =
  fixes H :: "'h serverHub" and epoch :: "'h \<Rightarrow> string \<Rightarrow> string option"
  assumes epoch_new: "epoch (hub_new H) = Map.empty"
    and epoch_Lock: "epoch (hub_Unlock H (hub_Lock H h src e) src) = (epoch h)(src \<mapsto> e)"
    and RLock_iff: "(\<exists>h'. hub_RLock H h src e = Inr h') \<longleftrightarrow> epoch h src = Some e"
    and epoch_RLock: "hub_RLock H h src e = Inr h' \<Longrightarrow> epoch (hub_RUnlock H h' src) = epoch h"
begin

lemma RLock_granted: "epoch h src = Some e \<Longrightarrow> \<exists>h'. hub_RLock H h src e = Inr h' \<and> epoch (hub_RUnlock H h' src) = epoch h"
  using RLock_iff epoch_RLock by blast

lemma RLock_refused: "epoch h src \<noteq> Some e \<Longrightarrow> \<exists>err. hub_RLock H h src e = Inl err"
  using RLock_iff [of h src e] by (cases "hub_RLock H h src e") auto

end

text \<open>What the node agent relies on: three shared maps, the delaying queue and the hub.\<close>

locale kubelet_env =
  clients: shared_map "lib_clients K" + cache: shared_map "lib_cache K" + timers: shared_map "lib_timers K" +
  q: rate_limited_queue "lib_queue K" dirty processing delayed + hub: epoch_hub "lib_hub K" epoch
  for K :: "('c, 'cp, 'x, 'im, 'tm, 'h, 'q, 't, 'r) kdlib" and dirty processing delayed epoch

text \<open>The libraries over Go's maps and lists; a hub is the map of the current epochs.\<close>

definition map_hub :: "(string, string) gomap serverHub" where
  "map_hub = \<lparr> hub_new = [], hub_Lock = (\<lambda>h src e. gm_set h src e), hub_Unlock = (\<lambda>h src. h),
     hub_RLock = (\<lambda>h src e. if gm_get h src = Some e then Inr h else Inl ''epoch mismatch''),
     hub_RUnlock = (\<lambda>h src. h) \<rparr>"

interpretation mh: epoch_hub map_hub "\<lambda>h. map_of h"
  by unfold_locales (auto simp: map_hub_def gm_get_map_of split: if_splits)

definition plain_lib where
  "plain_lib isReady persistent = \<lparr>
     lib_clients = gomap_shared, lib_cache = gomap_shared, lib_timers = gomap_shared,
     lib_hub = map_hub, lib_queue = list_ratequeue,
     AsPodInfosProtoOnNode = (\<lambda>m node. map snd m),
     IsManaged = (\<lambda>pod. label (Labels pod) ''managed'' \<noteq> ''''),
     IsPersistent = (\<lambda>pod. label (Labels pod) ''persistent'' \<noteq> ''''),
     IsPodActive = (\<lambda>pod. Phase (PodStatus_of pod) \<noteq> ''Failed''),
     IsPodReady = isReady, AsPersistentPod = persistent,
     NewPodInfoFromBindingRequest = (\<lambda>req. \<lparr> InfoNamespace = bind_OwnerNamespace req, InfoName = PodBindingRequest.more req,
        OwnerName = bind_OwnerName req \<rparr>),
     json_Marshal = (\<lambda>p. Inr (patch_UID p)),
     PodLifecycleManagerLabel = ''kubelet'', KubeletServiceAddrAnnotation = ''kubelet-addr'' \<rparr>"

lemma plain_lib_sel [simp]:
  "lib_clients (plain_lib f g) = gomap_shared" "lib_cache (plain_lib f g) = gomap_shared"
  "lib_timers (plain_lib f g) = gomap_shared" "lib_hub (plain_lib f g) = map_hub"
  "lib_queue (plain_lib f g) = list_ratequeue" "IsPodReady (plain_lib f g) = f" "AsPersistentPod (plain_lib f g) = g"
  "json_Marshal (plain_lib f g) p = Inr (patch_UID p)"
  "IsPodActive (plain_lib f g) pod = (Phase (PodStatus_of pod) \<noteq> ''Failed'')"
  "PodLifecycleManagerLabel (plain_lib f g) = ''kubelet''"
  by (simp_all add: plain_lib_def)

interpretation plain: kubelet_env "plain_lib f g" "\<lambda>q. set (fst (fst q))" "\<lambda>q. set (snd (fst q))" "\<lambda>q. set (snd q)" "\<lambda>h. map_of h"
  unfolding kubelet_env_def plain_lib_sel
  by (intro conjI gomap.shared_map_axioms lrq.rate_limited_queue_axioms mh.epoch_hub_axioms)

section \<open>The running node agent\<close>

text \<open>
  The server with its goroutines: \<open>taken\<close> are the pods the workers hold, \<open>synced\<close> the calls of \<open>SyncPod\<close> so far
  with what each saw. Informer callbacks, RPCs, workers, exposing goroutines and the queue's timer
  interleave; two workers never hold the same pod, so the steps of one pod do not overlap.
\<close>

record ('c, 'cp, 'im, 'tm, 'h, 'q, 't) kl_system =
  srv :: "('c, 'cp, 'im, 'tm, 'h, 'q) KubedirectServer"
  taken :: "PendingPod list"
  synced :: "(PendingPod \<times> 't kube) list"

definition kl_init :: "('c, 'cp, 'im, 'tm, 'h, 'q) KubedirectServer \<Rightarrow> ('c, 'cp, 'im, 'tm, 'h, 'q, 't) kl_system" where
  "kl_init s = \<lparr> srv = s, taken = [], synced = [] \<rparr>"

inductive kl_step ::
    "('c, 'cp, 'x, 'im, 'tm, 'h, 'q, 't, 'r) kdlib \<Rightarrow> ('c, 'cp, 'im, 'tm, 'h, 'q, 't) kl_system
       \<Rightarrow> ('c, 'cp, 'im, 'tm, 'h, 'q, 't) kl_system \<Rightarrow> bool" for K where
  pod_event: "podFilterFunc K obj \<Longrightarrow> kl_step K S (S\<lparr> srv := handlePodEvent K obj isDelete (srv S) \<rparr>)"
| node_deleted: "kl_step K S (S\<lparr> srv := handleNodeDelete K obj (srv S) \<rparr>)"
| handshake: "Handshake K newClient req (srv S) = (msg, s') \<Longrightarrow> kl_step K S (S\<lparr> srv := s' \<rparr>)"
| bind: "BindPod K E breq (srv S) = (res, s') \<Longrightarrow> kl_step K S (S\<lparr> srv := s' \<rparr>)"
| take: "take_pending K (srv S) = Some (p, s') \<Longrightarrow> kl_step K S (S\<lparr> srv := s', taken := p # taken S \<rparr>)"
| sync: "p \<in> set (taken S) \<Longrightarrow> finish_pending K E p (srv S) = Ret s' \<Longrightarrow>
    kl_step K S (S\<lparr> srv := s', taken := remove1 p (taken S), synced := synced S @ [(p, E)] \<rparr>)"
| expose: "i < length (exposing (srv S)) \<Longrightarrow> ExposeManagedPod K E (exposing (srv S) ! i) (srv S) = Ret (finished, s') \<Longrightarrow>
    kl_step K S (S\<lparr> srv := (if finished then s'\<lparr> exposing := take i (exposing s') @ drop (Suc i) (exposing s') \<rparr> else s') \<rparr>)"
| ripe: "kl_step K S (S\<lparr> srv := (srv S)\<lparr> queue := wq_Ripe (lib_queue K) (queue (srv S)) p \<rparr> \<rparr>)"

inductive_cases kl_stepE: "kl_step K S S'"

abbreviation kl_reach where
  "kl_reach K s S \<equiv> (kl_step K)\<^sup>*\<^sup>* (kl_init s) S"

section \<open>What one call of SyncPod does\<close>

definition due_for_sync ::
    "('c, 'cp, 'x, 'im, 'tm, 'h, 'q, 't, 'r) kdlib \<Rightarrow> 't kube \<Rightarrow> PendingPod \<Rightarrow> ('c, 'cp, 'im, 'tm, 'h, 'q) KubedirectServer
       \<Rightarrow> kpod \<Rightarrow> bool \<Rightarrow> bool" where
  "due_for_sync K E pending s pod isInMem \<longleftrightarrow>
     SyncPod_resolve K E pending s = Inr (Some (pod, isInMem)) \<and> isResponsibleFor K E s pod = Inr True
     \<and> DeletionTimestamp pod = None \<and> IsPodActive K pod \<and> \<not> IsPodReady K pod"

text \<open>The requests that write a ready status.\<close>

fun marks_pod :: "'c api_call \<Rightarrow> bool" where
  "marks_pod (UpdateStatus c pod) = True"
| "marks_pod (PatchStatus c ns name bytes) = True"
| "marks_pod _ = False"

lemma SyncPod_due: "due_for_sync K E p s pod m \<Longrightarrow> SyncPod K E p s = SyncPod_delay K E p pod m s"
  by (simp add: SyncPod_def SyncPod_status_def due_for_sync_def)

lemma SyncPod_cases:
  assumes "SyncPod K E p s = Ret (err, s')"
  obtains (same) "s' = s"
    | (clear) "s' = clearTimer K p s"
    | (delete) pod m where "SyncPod_resolve K E p s = Inr (Some (pod, m))" "isResponsibleFor K E s pod = Inr True"
        "DeletionTimestamp pod \<noteq> None"
        "s' = s\<lparr> calls := calls s @ [DeletePod (Namespace pod) (Name pod) 0] \<rparr>
           \<or> s' = clearTimer K p (s\<lparr> calls := calls s @ [DeletePod (Namespace pod) (Name pod) 0] \<rparr>)"
    | (delay) pod m where "due_for_sync K E p s pod m" "SyncPod_delay K E p pod m s = Ret (err, s')"
proof -
  consider "s' = s"
    | pod m where "SyncPod_resolve K E p s = Inr (Some (pod, m))" "isResponsibleFor K E s pod = Inr True"
        "SyncPod_status K E p pod m s = Ret (err, s')"
    using assms by (auto simp: SyncPod_def split: sum.split_asm option.split_asm if_split_asm)
  then show thesis
  proof cases
    case (2 pod m)
    show thesis
    proof (cases "DeletionTimestamp pod = None")
      case True
      then show ?thesis
        using 2 clear delay [of pod m] by (auto simp: SyncPod_status_def due_for_sync_def split: if_split_asm)
    next
      case False
      then show ?thesis
        using 2 delete [of pod m]
        by (auto simp: SyncPod_status_def Let_def split: option.split_asm kube_error.split_asm)
    qed
  qed (rule same)
qed

definition ready_call ::
    "('c, 'cp, 'x, 'im, 'tm, 'h, 'q, 't, 'r) kdlib \<Rightarrow> ('c, 'cp, 'im, 'tm, 'h, 'q) KubedirectServer \<Rightarrow> kpod \<Rightarrow> PodStatus
       \<Rightarrow> 'c api_call \<Rightarrow> bool" where
  "ready_call K s pod ref call \<longleftrightarrow> (\<exists>c. GetClient K s (NodeName pod) = Some c \<and>
     (if patch s then (\<exists>bytes. json_Marshal K \<lparr> patch_UID = UID pod, patch_Status = ref \<rparr> = Inr bytes
                           \<and> call = PatchStatus c (Namespace pod) (Name pod) bytes)
      else call = UpdateStatus c (pod\<lparr> PodStatus_of := ref \<rparr>)))"

lemma ready_call_marks: "ready_call K s pod ref call \<Longrightarrow> marks_pod call"
  by (auto simp: ready_call_def split: if_splits)

lemma markPodReady_cases:
  assumes "markPodReady K E pod ref s = Ret (r, s')"
  obtains (marshal) e where "r = Inl e" "s' = s"
    | (sent) call where "ready_call K s pod ref call" "s' = s\<lparr> calls := calls s @ [call] \<rparr>"
proof (cases "patch s")
  case True
  then have *: "markPodReadyByPatch K E pod ref s = Ret (r, s')"
    using assms by (simp add: markPodReady_def)
  show ?thesis
  proof (cases "json_Marshal K \<lparr> patch_UID = UID pod, patch_Status = ref \<rparr>")
    case (Inl e)
    then show ?thesis
      using * by (intro marshal [of "MarshalErr e"]) (simp_all add: markPodReadyByPatch_def prepareMergePatchBytesForPodStatus_def)
  next
    case (Inr bytes)
    then obtain c where c: "GetClient K s (NodeName pod) = Some c"
      using * by (cases "GetClient K s (NodeName pod)") (simp_all add: markPodReadyByPatch_def prepareMergePatchBytesForPodStatus_def)
    then have "s' = s\<lparr> calls := calls s @ [PatchStatus c (Namespace pod) (Name pod) bytes] \<rparr>"
      using * Inr by (simp add: markPodReadyByPatch_def prepareMergePatchBytesForPodStatus_def Let_def split: sum.split_asm)
    then show ?thesis
      using c Inr True by (intro sent) (auto simp: ready_call_def)
  qed
next
  case False
  then have *: "markPodReadyByUpdate K E pod ref s = Ret (r, s')"
    using assms by (simp add: markPodReady_def)
  then obtain c where c: "GetClient K s (NodeName pod) = Some c"
    by (cases "GetClient K s (NodeName pod)") (simp_all add: markPodReadyByUpdate_def)
  then have "s' = s\<lparr> calls := calls s @ [UpdateStatus c (pod\<lparr> PodStatus_of := ref \<rparr>)] \<rparr>"
    using * by (simp add: markPodReadyByUpdate_def Let_def split: sum.split_asm)
  then show ?thesis
    using c False by (intro sent) (auto simp: ready_call_def)
qed

text \<open>The status a pod is marked with: simulated, or taken from a ready pod of the workload pool.\<close>

definition ref_status ::
    "('c, 'cp, 'x, 'im, 'tm, 'h, 'q, 't, 'r) kdlib \<Rightarrow> 't kube \<Rightarrow> ('c, 'cp, 'im, 'tm, 'h, 'q) KubedirectServer \<Rightarrow> kpod
       \<Rightarrow> (sync_error + PodStatus) go" where
  "ref_status K E s pod =
     (if simulate s then Ret (Inr (simulateRefPodStatus (time_Stamp E) pod)) else getRefPodStatus K E pod)"

lemma SyncPod_mark_cases:
  assumes "SyncPod_mark K E pod s = Ret (err, s')"
  obtains (failed) e where "err = Some e" "s' = s"
    | (sent) call ref where "ref_status K E s pod = Ret (Inr ref)" "ready_call K s pod ref call"
        "s' = s\<lparr> calls := calls s @ [call] \<rparr>"
proof -
  obtain res where res: "ref_status K E s pod = Ret res"
    "(case res of Inl err \<Rightarrow> Ret (Some err, s)
      | Inr ref \<Rightarrow> go_bind (markPodReady K E pod ref s) (\<lambda>(r, s'). case r of Inl err \<Rightarrow> Ret (Some err, s') | Inr _ \<Rightarrow> Ret (None, s')))
       = Ret (err, s')"
    using assms unfolding SyncPod_mark_def go_bind_eq_Ret ref_status_def by blast
  show thesis
  proof (cases res)
    case (Inl e)
    then show ?thesis using res failed by auto
  next
    case (Inr ref)
    then obtain r s'' where r: "markPodReady K E pod ref s = Ret (r, s'')"
      "(case r of Inl err \<Rightarrow> Ret (Some err, s'') | Inr _ \<Rightarrow> Ret (None, s'')) = Ret (err, s')"
      using res(2) by (cases "markPodReady K E pod ref s") auto
    then have s'': "s'' = s'" and err: "r = Inl e \<Longrightarrow> err = Some e" for e
      by (cases r; simp)+
    from r(1) show ?thesis
    proof (cases rule: markPodReady_cases)
      case (marshal e)
      then show ?thesis using failed err s'' by simp
    next
      case (sent call)
      then show ?thesis using that(2) res(1) Inr s'' by simp
    qed
  qed
qed

text \<open>The state after the ready timer of a pod was read or created.\<close>

definition timed where
  "timed timers fresh m pod s =
     s\<lparr> readyTimers := timers, exposing := exposing s @ (if fresh \<and> m then [pod] else []) \<rparr>"

lemma timed_sel [simp]:
  "readyTimers (timed timers fresh m pod s) = timers"
  "exposing (timed timers fresh m pod s) = exposing s @ (if fresh \<and> m then [pod] else [])"
  "queue (timed timers fresh m pod s) = queue s" "calls (timed timers fresh m pod s) = calls s"
  "readyDelay (timed timers fresh m pod s) = readyDelay s" "inMemCache (timed timers fresh m pod s) = inMemCache s"
  "clientPool (timed timers fresh m pod s) = clientPool s"
  "simulate (timed timers fresh m pod s) = simulate s" "patch (timed timers fresh m pod s) = patch s"
  "GetClient K (timed timers fresh m pod s) = GetClient K s"
  by (simp_all add: timed_def GetClient_def fun_eq_iff)

lemma SyncPod_delay_eq:
  assumes "sm_GetOrCreate (lib_timers K) (readyTimers s) (PendingPod_String p) (time_Add (time_Now E) (readyDelay s))
             = (t, fresh, timers)"
  shows "SyncPod_delay K E p pod m s =
    (if time_Until E < t
     then Ret (None, (timed timers fresh m pod s)
            \<lparr> queue := wq_AddAfter (lib_queue K) (queue s) p (time_Sub t (time_Until E)) \<rparr>)
     else if m then Ret (None, timed timers fresh m pod s)
     else SyncPod_mark K E pod (timed timers fresh m pod s))"
  using assms by (simp add: SyncPod_delay_def timed_def Let_def)

lemma SyncPod_mark_frame:
  assumes "SyncPod_mark K E pod s = Ret (err, s')"
  obtains cs where "s' = s\<lparr> calls := cs \<rparr>"
  using assms
proof (cases rule: SyncPod_mark_cases)
  case (failed e)
  then show ?thesis using that [of "calls s"] by simp
qed (rule that)

lemma SyncPod_delay_frame:
  assumes "sm_GetOrCreate (lib_timers K) (readyTimers s) (PendingPod_String p) (time_Add (time_Now E) (readyDelay s))
             = (t, fresh, timers)"
    and "SyncPod_delay K E p pod m s = Ret (err, s')"
  shows "readyTimers s' = timers" "readyDelay s' = readyDelay s" "inMemCache s' = inMemCache s" "clientPool s' = clientPool s"
    "queue s' = (if time_Until E < t then wq_AddAfter (lib_queue K) (queue s) p (time_Sub t (time_Until E)) else queue s)"
    "exposing s' = exposing s @ (if fresh \<and> m then [pod] else [])"
proof -
  consider "time_Until E < t" "s' = (timed timers fresh m pod s)
            \<lparr> queue := wq_AddAfter (lib_queue K) (queue s) p (time_Sub t (time_Until E)) \<rparr>"
    | cs where "\<not> time_Until E < t" "s' = (timed timers fresh m pod s)\<lparr> calls := cs \<rparr>"
  proof (cases "time_Until E < t")
    case True
    then show ?thesis
      using assms(2) by (intro that(1)) (simp_all add: SyncPod_delay_eq [OF assms(1)])
  next
    case late: False
    show ?thesis
    proof (cases m)
      case True
      then have "s' = (timed timers fresh m pod s)\<lparr> calls := calls s \<rparr>"
        using assms(2) late by (auto simp: SyncPod_delay_eq [OF assms(1)] timed_def)
      then show ?thesis by (rule that(2) [OF late])
    next
      case False
      then have "SyncPod_mark K E pod (timed timers fresh m pod s) = Ret (err, s')"
        using assms(2) late by (simp add: SyncPod_delay_eq [OF assms(1)])
      then show ?thesis
        by (rule SyncPod_mark_frame) (rule that(2) [OF late])
    qed
  qed
  then have "readyTimers s' = timers \<and> readyDelay s' = readyDelay s \<and> inMemCache s' = inMemCache s \<and> clientPool s' = clientPool s
    \<and> queue s' = (if time_Until E < t then wq_AddAfter (lib_queue K) (queue s) p (time_Sub t (time_Until E)) else queue s)
    \<and> exposing s' = exposing s @ (if fresh \<and> m then [pod] else [])"
    by cases simp_all
  then show "readyTimers s' = timers" "readyDelay s' = readyDelay s" "inMemCache s' = inMemCache s" "clientPool s' = clientPool s"
    "queue s' = (if time_Until E < t then wq_AddAfter (lib_queue K) (queue s) p (time_Sub t (time_Until E)) else queue s)"
    "exposing s' = exposing s @ (if fresh \<and> m then [pod] else [])"
    by blast+
qed

context kubelet_env
begin

text \<open>Where a timer of the new state comes from.\<close>

lemma clearTimer_sel:
  "timers.contents (readyTimers (clearTimer K p s)) = (timers.contents (readyTimers s))(PendingPod_String p := None)"
  "readyDelay (clearTimer K p s) = readyDelay s" "queue (clearTimer K p s) = queue s"
  by (simp_all add: clearTimer_def)

lemma SyncPod_timers:
  assumes "SyncPod K E p s = Ret (err, s')"
  shows "readyDelay s' = readyDelay s"
    and "timers.contents (readyTimers s') k = Some r \<Longrightarrow> timers.contents (readyTimers s) k = Some r
           \<or> k = PendingPod_String p \<and> r = time_Add (time_Now E) (readyDelay s)"
proof -
  have "readyDelay s' = readyDelay s \<and> (timers.contents (readyTimers s') k = Some r \<longrightarrow> timers.contents (readyTimers s) k = Some r
           \<or> k = PendingPod_String p \<and> r = time_Add (time_Now E) (readyDelay s))"
    using assms
  proof (cases rule: SyncPod_cases)
    case (delete pod m)
    from delete(4) show ?thesis
      by (elim disjE) (simp_all add: clearTimer_sel)
  next
    case (delay pod m)
    obtain t fresh tm where g: "sm_GetOrCreate (lib_timers K) (readyTimers s) (PendingPod_String p)
        (time_Add (time_Now E) (readyDelay s)) = (t, fresh, tm)"
      by (metis prod_cases3)
    have "timers.contents tm k = Some r \<Longrightarrow> timers.contents (readyTimers s) k = Some r
           \<or> k = PendingPod_String p \<and> r = time_Add (time_Now E) (readyDelay s)"
      using timers.GetOrCreate_contents [of "readyTimers s" "PendingPod_String p" "time_Add (time_Now E) (readyDelay s)"] g
      by (auto split: option.splits if_splits)
    then show ?thesis
      using SyncPod_delay_frame [OF g delay(2)] by simp
  qed (simp_all add: clearTimer_sel)
  then show "readyDelay s' = readyDelay s"
    and "timers.contents (readyTimers s') k = Some r \<Longrightarrow> timers.contents (readyTimers s) k = Some r
           \<or> k = PendingPod_String p \<and> r = time_Add (time_Now E) (readyDelay s)"
    by blast+
qed

text \<open>The queue keeps, after \<open>SyncPod\<close>, what it had before; at most a delayed retry is added.\<close>

lemma SyncPod_queue:
  assumes "SyncPod K E p s = Ret (err, s')"
  shows "processing (queue s') = processing (queue s) \<and> dirty (queue s') = dirty (queue s)
    \<and> delayed (queue s) \<subseteq> delayed (queue s')"
  using assms
proof (cases rule: SyncPod_cases)
  case (delete pod m)
  from delete(4) show ?thesis
    by (elim disjE) (simp_all add: clearTimer_sel)
next
  case (delay pod m)
  obtain t fresh tm where g: "sm_GetOrCreate (lib_timers K) (readyTimers s) (PendingPod_String p)
      (time_Add (time_Now E) (readyDelay s)) = (t, fresh, tm)"
    by (metis prod_cases3)
  show ?thesis
    using SyncPod_delay_frame(5) [OF g delay(2)] by auto
qed (simp_all add: clearTimer_sel)

lemma finish_pending_eq:
  "finish_pending K E p s = Ret s' \<longleftrightarrow> (\<exists>err s1. SyncPod K E p s = Ret (err, s1) \<and> s' = s1\<lparr> queue := wq_Done (lib_queue K)
      (if err = None then wq_Forget (lib_queue K) (queue s1) p else wq_AddRateLimited (lib_queue K) (queue s1) p) p \<rparr>)"
  by (auto simp: finish_pending_def go_bind_eq_Ret Let_def split: option.splits)

end

context kubelet_env
begin

definition timers_logged :: "('c, 'cp, 'im, 'tm, 'h, 'q, 't) kl_system \<Rightarrow> bool" where
  "timers_logged S \<longleftrightarrow> (\<forall>k r. timers.contents (readyTimers (srv S)) k = Some r \<longrightarrow>
     (\<exists>(p, E) \<in> set (synced S). PendingPod_String p = k \<and> r = time_Add (time_Now E) (readyDelay (srv S))))"

definition workers_inv :: "('c, 'cp, 'im, 'tm, 'h, 'q, 't) kl_system \<Rightarrow> bool" where
  "workers_inv S \<longleftrightarrow> distinct (taken S) \<and> processing (queue (srv S)) = set (taken S)"

text \<open>The callbacks add to the queue and remove timers, and leave everything else of interest alone.\<close>

lemma handlers_frame:
  "readyDelay (handlePodEvent K obj del s) = readyDelay s"
  "timers.contents (readyTimers (handlePodEvent K obj del s)) k = Some r \<Longrightarrow> timers.contents (readyTimers s) k = Some r"
  "processing (queue (handlePodEvent K obj del s)) = processing (queue s)"
  "readyDelay (handleNodeDelete K obj s) = readyDelay s" "readyTimers (handleNodeDelete K obj s) = readyTimers s"
  "queue (handleNodeDelete K obj s) = queue s"
  by (auto simp: handlePodEvent_def handleNodeDelete_def DelClient_def clearTimer_sel Let_def split: option.splits if_splits)

lemma Handshake_frame:
  assumes "Handshake K c req s = (msg, s')"
  shows "readyDelay s' = readyDelay s" "readyTimers s' = readyTimers s" "queue s' = queue s"
  using assms by (auto simp: Handshake_def Let_def split: prod.splits)

lemma BindPod_frame:
  assumes "BindPod K E req s = (res, s')"
  shows "readyDelay s' = readyDelay s" "readyTimers s' = readyTimers s" "processing (queue s') = processing (queue s)"
  using assms by (auto simp: BindPod_def Let_def split: prod.splits sum.splits if_splits)

lemma ExposeManagedPod_frame:
  assumes "ExposeManagedPod K E pod s = Ret (b, s')"
  shows "readyDelay s' = readyDelay s" "readyTimers s' = readyTimers s" "queue s' = queue s"
  using assms by (auto simp: ExposeManagedPod_def tryCreate_def Let_def split: option.splits if_splits kube_error.splits)

lemma take_pending_SomeD:
  assumes "take_pending K s = Some (p, s')"
  obtains q' where "wq_Get (lib_queue K) (queue s) = Some (p, q')" "s' = s\<lparr> queue := q' \<rparr>"
  using assms by (auto simp: take_pending_def)

lemma kl_step_cases:
  assumes "kl_step K S S'"
  obtains (quiet) "taken S' = taken S" "synced S' = synced S" "readyDelay (srv S') = readyDelay (srv S)"
      "processing (queue (srv S')) = processing (queue (srv S))"
      "\<And>k r. timers.contents (readyTimers (srv S')) k = Some r \<Longrightarrow> timers.contents (readyTimers (srv S)) k = Some r"
    | (take) p q' where "wq_Get (lib_queue K) (queue (srv S)) = Some (p, q')"
        "S' = S\<lparr> srv := (srv S)\<lparr> queue := q' \<rparr>, taken := p # taken S \<rparr>"
    | (sync) p E s' where "p \<in> set (taken S)" "finish_pending K E p (srv S) = Ret s'"
        "S' = S\<lparr> srv := s', taken := remove1 p (taken S), synced := synced S @ [(p, E)] \<rparr>"
  using assms
proof (cases rule: kl_step.cases)
  case (pod_event obj isDelete)
  then show ?thesis
    using handlers_frame(2) [of obj isDelete "srv S"] by (intro quiet) (simp_all add: handlers_frame(1,3))
next
  case (node_deleted obj)
  then show ?thesis by (intro quiet) (simp_all add: handlers_frame(4-6))
next
  case (handshake c req msg s')
  then show ?thesis using Handshake_frame [OF handshake(2)] by (intro quiet) simp_all
next
  case (bind E breq res s')
  then show ?thesis using BindPod_frame [OF bind(2)] by (intro quiet) simp_all
next
  case (expose i E finished s')
  then show ?thesis
    using ExposeManagedPod_frame [OF expose(3)] by (intro quiet) (simp_all split: if_split_asm)
next
  case (ripe p)
  then show ?thesis by (intro quiet) simp_all
next
  case (take p s')
  then show ?thesis using that(2) by (auto elim: take_pending_SomeD)
qed (rule that(3))

lemma workers_inv_step:
  assumes "kl_step K S S'" and "workers_inv S"
  shows "workers_inv S'"
  using assms(1)
proof (cases rule: kl_step_cases)
  case (take p q')
  then show ?thesis
    using assms(2) q.Get_takes [OF take(1)] by (simp add: workers_inv_def)
next
  case (sync p E s')
  then obtain err s1 where s1: "SyncPod K E p (srv S) = Ret (err, s1)" and "processing (queue s') = processing (queue s1) - {p}"
    by (auto simp: finish_pending_eq)
  then show ?thesis
    using assms(2) sync(3) SyncPod_queue [OF s1] by (simp add: workers_inv_def set_remove1_eq)
qed (use assms(2) in \<open>simp add: workers_inv_def\<close>)

lemma timers_logged_step:
  assumes "kl_step K S S'" and "timers_logged S"
  shows "timers_logged S' \<and> readyDelay (srv S') = readyDelay (srv S)"
  using assms(1)
proof (cases rule: kl_step_cases)
  case quiet
  then show ?thesis
    using assms(2) quiet(5) by (auto simp: timers_logged_def)
next
  case (take p q')
  then show ?thesis
    using assms(2) by (simp add: timers_logged_def)
next
  case (sync p E s')
  then obtain err s1 q where s1: "SyncPod K E p (srv S) = Ret (err, s1)" and s': "s' = s1\<lparr> queue := q \<rparr>"
    by (auto simp: finish_pending_eq)
  have "\<exists>(p, E) \<in> set (synced S'). PendingPod_String p = k \<and> r = time_Add (time_Now E) (readyDelay (srv S))"
    if "timers.contents (readyTimers s1) k = Some r" for k r
    using SyncPod_timers(2) [OF s1 that] assms(2) sync(3) by (auto simp: timers_logged_def)
  then show ?thesis
    using sync(3) s' SyncPod_timers(1) [OF s1] by (simp add: timers_logged_def)
qed

lemma kl_reach_inv:
  assumes "kl_reach K s S" "readyTimers s = sm_new (lib_timers K)" "queue s = wq_new (lib_queue K)"
  shows "timers_logged S" "workers_inv S" "readyDelay (srv S) = readyDelay s"
proof -
  have "timers_logged S \<and> workers_inv S \<and> readyDelay (srv S) = readyDelay s"
    using assms(1)
  proof (induction rule: rtranclp_induct)
    case base
    then show ?case
      using assms(2,3) by (simp add: timers_logged_def workers_inv_def kl_init_def)
  next
    case (step S1 S2)
    then show ?case
      using timers_logged_step workers_inv_step by metis
  qed
  then show "timers_logged S" "workers_inv S" "readyDelay (srv S) = readyDelay s"
    by blast+
qed

end

context kubelet_env
begin

lemma SyncPod_marks:
  assumes "SyncPod K E p s = Ret (err, s')" and "calls s' = calls s @ [call]" and "marks_pod call"
  obtains pod ref t fresh tm where "due_for_sync K E p s pod False"
    "sm_GetOrCreate (lib_timers K) (readyTimers s) (PendingPod_String p) (time_Add (time_Now E) (readyDelay s)) = (t, fresh, tm)"
    "t \<le> time_Until E" "ref_status K E s pod = Ret (Inr ref)" "ready_call K s pod ref call"
  using assms(1)
proof (cases rule: SyncPod_cases)
  case (delete pod m)
  then show ?thesis
    using assms(2,3) by (auto simp: clearTimer_def)
next
  case (delay pod m)
  obtain t fresh tm where g: "sm_GetOrCreate (lib_timers K) (readyTimers s) (PendingPod_String p)
      (time_Add (time_Now E) (readyDelay s)) = (t, fresh, tm)"
    by (metis prod_cases3)
  have late: "\<not> time_Until E < t" "\<not> m"
    using delay(2) assms(2) by (auto simp: SyncPod_delay_eq [OF g] split: if_split_asm)
  then have "SyncPod_mark K E pod (timed tm fresh m pod s) = Ret (err, s')"
    using delay(2) by (simp add: SyncPod_delay_eq [OF g])
  then show ?thesis
  proof (cases rule: SyncPod_mark_cases)
    case (sent call' ref)
    then have "call' = call"
      using assms(2) by simp
    then show ?thesis
      using that [OF _ g] late delay(1) sent(1,2) by (simp add: ref_status_def ready_call_def)
  qed (use assms(2) in simp)
qed (use assms(2) in \<open>simp_all add: clearTimer_def\<close>)

lemma GetOrCreate_logged:
  assumes "timers_logged S"
    and "sm_GetOrCreate (lib_timers K) (readyTimers (srv S)) (PendingPod_String p) (time_Add (time_Now E) (readyDelay (srv S)))
           = (t, fresh, tm)"
  shows "\<exists>(p0, E0) \<in> set (synced S @ [(p, E)]). PendingPod_String p0 = PendingPod_String p
           \<and> t = time_Add (time_Now E0) (readyDelay (srv S))"
proof (cases "timers.contents (readyTimers (srv S)) (PendingPod_String p)")
  case None
  then show ?thesis
    using assms(2) timers.GetOrCreate_new [OF None] by simp
next
  case (Some r)
  then have "t = r"
    using assms(2) timers.GetOrCreate_old [OF Some] by simp
  then show ?thesis
    using assms(1) Some by (auto simp: timers_logged_def)
qed

lemma marked_after_delay:
  assumes "kl_reach K s0 S" "readyTimers s0 = sm_new (lib_timers K)" "queue s0 = wq_new (lib_queue K)"
    and "SyncPod K E p (srv S) = Ret (err, s')" "calls s' = calls (srv S) @ [call]" "marks_pod call"
  shows "(\<exists>(p0, E0) \<in> set (synced S @ [(p, E)]). PendingPod_String p0 = PendingPod_String p
            \<and> time_Add (time_Now E0) (readyDelay s0) \<le> time_Until E)
    \<and> (\<exists>pod ref. due_for_sync K E p (srv S) pod False \<and> ref_status K E (srv S) pod = Ret (Inr ref)
            \<and> ready_call K (srv S) pod ref call)"
proof -
  obtain pod ref t fresh tm where m: "due_for_sync K E p (srv S) pod False"
    "sm_GetOrCreate (lib_timers K) (readyTimers (srv S)) (PendingPod_String p) (time_Add (time_Now E) (readyDelay (srv S)))
       = (t, fresh, tm)"
    "t \<le> time_Until E" "ref_status K E (srv S) pod = Ret (Inr ref)" "ready_call K (srv S) pod ref call"
    using SyncPod_marks [OF assms(4-6)] by metis
  note inv = kl_reach_inv [OF assms(1-3)]
  show ?thesis
    using GetOrCreate_logged [OF inv(1) m(2)] inv(3) m by fastforce
qed

text \<open>A pod that is due and known to the API is marked, or retried later.\<close>

lemma due_outcome:
  assumes "SyncPod K E p s = Ret (err, s')" and "due_for_sync K E p s pod False"
  shows "err \<noteq> None \<or> p \<in> delayed (queue s')
    \<or> (\<exists>ref call. ref_status K E s pod = Ret (Inr ref) \<and> ready_call K s pod ref call \<and> calls s' = calls s @ [call])"
proof -
  obtain t fresh tm where g: "sm_GetOrCreate (lib_timers K) (readyTimers s) (PendingPod_String p)
      (time_Add (time_Now E) (readyDelay s)) = (t, fresh, tm)"
    by (metis prod_cases3)
  have delay: "SyncPod_delay K E p pod False s = Ret (err, s')"
    using assms by (simp add: SyncPod_due)
  show ?thesis
  proof (cases "time_Until E < t")
    case True
    then show ?thesis
      using SyncPod_delay_frame(5) [OF g delay] by simp
  next
    case False
    then have "SyncPod_mark K E pod (timed tm fresh False pod s) = Ret (err, s')"
      using delay by (simp add: SyncPod_delay_eq [OF g])
    then show ?thesis
    proof (cases rule: SyncPod_mark_cases)
      case (sent call ref)
      then show ?thesis by (auto simp: ref_status_def ready_call_def)
    qed simp
  qed
qed

lemma finish_outcome:
  assumes "finish_pending K E p s = Ret s'"
  shows "processing (queue s') = processing (queue s) - {p}"
    and "SyncPod K E p s = Ret (Some e, s1) \<Longrightarrow> p \<in> delayed (queue s')"
    and "due_for_sync K E p s pod False \<Longrightarrow> p \<in> delayed (queue s')
      \<or> (\<exists>ref call. ref_status K E s pod = Ret (Inr ref) \<and> ready_call K s pod ref call \<and> calls s' = calls s @ [call])"
proof -
  obtain err s1' where f: "SyncPod K E p s = Ret (err, s1')" "s' = s1'\<lparr> queue := wq_Done (lib_queue K)
      (if err = None then wq_Forget (lib_queue K) (queue s1') p else wq_AddRateLimited (lib_queue K) (queue s1') p) p \<rparr>"
    using assms by (auto simp: finish_pending_eq)
  then show "processing (queue s') = processing (queue s) - {p}"
    using SyncPod_queue [OF f(1)] by simp
  show "p \<in> delayed (queue s')" if "SyncPod K E p s = Ret (Some e, s1)"
    using that f by simp
  show "p \<in> delayed (queue s')
      \<or> (\<exists>ref call. ref_status K E s pod = Ret (Inr ref) \<and> ready_call K s pod ref call \<and> calls s' = calls s @ [call])"
    if "due_for_sync K E p s pod False"
    using due_outcome [OF f(1) that] f(2) by auto
qed

end

section \<open>Properties\<close>

lemma kubelet_main_Ret:
  assumes "kubelet_main K podErr nodeErr hostname f = Ret s"
  shows "readyTimers s = sm_new (lib_timers K)" "queue s = wq_new (lib_queue K)"
    "readyDelay s = int64_of (flag_readyDelayMilliseconds f * Millisecond)"
  using assms by (auto simp: kubelet_main_def go_bind_eq_Ret Let_def WithReadyDelay_def NewKubedirectServer_def Simulate_def UsePatch_def
      split: if_splits sum.splits option.splits)

text \<open>A pod of this node on the API server, an agent that simulates, and what it sees 200 ms apart.\<close>

definition sample_pod :: kpod where
  "sample_pod = \<lparr> Namespace = ''ns'', Name = ''p'', Labels = [(''kubelet'', ''custom'')], UID = ''u1'', ResourceVersion = ''7'',
     DeletionTimestamp = None, NodeName = ''n1'', ReadinessGates = [''kd''], Containers = [\<lparr> ContainerName = ''c'', Image = ''i'' \<rparr>],
     InitContainers = [], PodStatus_of = \<lparr> Phase = ''Pending'', Conditions = [], HostIP = '''', StatusPodIP = '''', StartTime = None,
       ContainerStatuses = [], InitContainerStatuses = [] \<rparr> \<rparr>"

definition sample_lib where
  "sample_lib = plain_lib (\<lambda>pod. Phase (PodStatus_of pod) = ''Running'')
     (\<lambda>i (t :: string). sample_pod\<lparr> Namespace := InfoNamespace i, Name := InfoName i, ResourceVersion := '''' \<rparr>)"

definition sample_kube :: "gotime \<Rightarrow> gotime \<Rightarrow> kube_error + kpod \<Rightarrow> string kube" where
  "sample_kube t u ans = \<lparr> time_Now = t, time_Until = u, time_Stamp = u, ls_GetPod = (\<lambda>ns n. ans),
     ls_ListPods = (\<lambda>ns l. Inr []), ls_GetNode = (\<lambda>n. Inl (KNotFound n)), GetUnnamedTemplateFor = (\<lambda>ns n b. Inr ''template''),
     api_Delete = (\<lambda>ns n. None), api_Create = (\<lambda>pod. None), api_UpdateStatus = Inr, api_Patch = (\<lambda>ns n b. Inr sample_pod),
     api_UpdateNode = (\<lambda>n. None), Intn = (\<lambda>n. 0) \<rparr>"

definition sample_flags :: kubelet_flags where
  "sample_flags = default_kubelet_flags\<lparr> flag_node := ''n1'', flag_simulate := True \<rparr>"

definition sample_server where
  "sample_server = \<lparr> clientPool = [], serverHub = [], queue = (([], []), []), inMemCache = [], nodeName = ''n1'',
     readyDelay = 100000000, readyTimers = [], simulate = True, patch = True, exposing = [], calls = [] \<rparr>"

definition joined_server where
  "joined_server = sample_server\<lparr> clientPool := [(''n1'', ''client'')], serverHub := [(''sched'', ''e1'')] \<rparr>"

abbreviation sample_pending :: PendingPod where
  "sample_pending \<equiv> \<lparr> PendNamespace = ''ns'', PendName = ''p'' \<rparr>"

lemmas sample_defs = sample_lib_def sample_kube_def sample_server_def joined_server_def sample_pod_def sample_flags_def
  default_kubelet_flags_def

lemma sample_main: "kubelet_main sample_lib False False (Inr ''host'') sample_flags = Ret sample_server"
  by (simp add: sample_defs kubelet_main_def WithReadyDelay_def NewKubedirectServer_def Simulate_def UsePatch_def Let_def
      Millisecond_def map_hub_def)

lemma sample_joins: "kl_reach sample_lib sample_server (kl_init joined_server)"
proof -
  have "Handshake sample_lib ''client'' \<lparr> hs_Source = ''sched'', hs_Destination = ''n1'', hs_Epoch = ''e1'' \<rparr> sample_server
      = (\<lparr> hr_Epoch = ''e1'', hr_Name = ''n1'', hr_Pods = [] \<rparr>, joined_server)"
    by (simp add: sample_defs Handshake_def gm_get_def gm_set_def map_hub_def plain_lib_def)
  then have "kl_step sample_lib (kl_init sample_server) ((kl_init sample_server)\<lparr> srv := joined_server \<rparr>)"
    by (intro kl_step.handshake) (simp add: kl_init_def)
  then show ?thesis by (simp add: kl_init_def r_into_rtranclp)
qed

lemma sample_env:
  "kubelet_env sample_lib (\<lambda>q. set (fst (fst q))) (\<lambda>q. set (snd (fst q))) (\<lambda>q. set (snd q)) (\<lambda>h. map_of h)"
  unfolding sample_lib_def by (rule plain.kubelet_env_axioms)

definition sample_patch :: "string api_call" where
  "sample_patch = PatchStatus ''client'' ''ns'' ''p'' ''u1''"

lemma sample_sync:
  "SyncPod sample_lib (sample_kube 0 200000000 (Inr sample_pod)) sample_pending joined_server
     = Ret (None, joined_server\<lparr> readyTimers := [(''ns/p'', 100000000)], calls := [sample_patch] \<rparr>)"
  by (simp add: SyncPod_def SyncPod_resolve_def isResponsibleFor_def SyncPod_status_def SyncPod_delay_def SyncPod_mark_def
      sample_defs PendingPod_String_def markPodReady_def markPodReadyByPatch_def prepareMergePatchBytesForPodStatus_def
      gm_get_def gm_set_def time_Add_def GetClient_def sample_patch_def time_Sub_def Let_def)

text \<open>
  C9. In every run of the node agent, a ready status is written for a pod only when the ready delay
  has passed since a worker first looked at the pod (the look that started its timer), and only for a
  pod that exists on the API server, belongs to this agent, is active, not ready and not being deleted; what is
  sent is the reference status, through the client of the pod's node.
\<close>
theorem ready_after_delay:
  assumes "kubelet_env K dirty processing delayed epoch"
    and "kubelet_main K podErr nodeErr hostname flags = Ret s0" and "kl_reach K s0 S"
    and "SyncPod K E p (srv S) = Ret (err, s')" and "calls s' = calls (srv S) @ [call]" and "marks_pod call"
  shows "(\<exists>(p0, E0) \<in> set (synced S @ [(p, E)]). PendingPod_String p0 = PendingPod_String p
            \<and> time_Add (time_Now E0) (int64_of (flag_readyDelayMilliseconds flags * Millisecond)) \<le> time_Until E)
    \<and> (\<exists>pod ref. due_for_sync K E p (srv S) pod False \<and> ref_status K E (srv S) pod = Ret (Inr ref)
            \<and> ready_call K (srv S) pod ref call)"
  using kubelet_env.marked_after_delay [OF assms(1,3) kubelet_main_Ret(1,2) [OF assms(2)] assms(4-6)]
  by (simp add: kubelet_main_Ret(3) [OF assms(2)])

theorem ready_after_delay_witness:
  "\<exists>pod ref. due_for_sync sample_lib (sample_kube 0 200000000 (Inr sample_pod)) sample_pending joined_server pod False
     \<and> ref_status sample_lib (sample_kube 0 200000000 (Inr sample_pod)) joined_server pod = Ret (Inr ref)
     \<and> ready_call sample_lib joined_server pod ref sample_patch"
  using ready_after_delay [OF sample_env sample_main sample_joins, of "sample_kube 0 200000000 (Inr sample_pod)" sample_pending _ _ sample_patch] sample_sync
  by (simp add: kl_init_def sample_patch_def) (simp add: joined_server_def sample_server_def)



text \<open>
  A due pod that exists only in memory is never marked ready and needs no request by the worker: the
  worker starts its timer and, exactly when the timer is new, the goroutine that exposes it; a further
  look at the pod does not expose it again.
\<close>
theorem in_memory_pod_exposed_once:
  assumes "kubelet_env K dirty processing delayed epoch" and "due_for_sync K E p s pod True"
  shows "\<exists>s'. SyncPod K E p s = Ret (None, s') \<and> calls s' = calls s
    \<and> exposing s' = exposing s @ (if sm_Get (lib_timers K) (readyTimers s) (PendingPod_String p) = None then [pod] else [])
    \<and> sm_Get (lib_timers K) (readyTimers s') (PendingPod_String p) \<noteq> None"
proof -
  obtain t fresh tm where g: "sm_GetOrCreate (lib_timers K) (readyTimers s) (PendingPod_String p)
      (time_Add (time_Now E) (readyDelay s)) = (t, fresh, tm)"
    by (metis prod_cases3)
  have sm: "shared_map (lib_timers K)"
    using assms(1) by (simp add: kubelet_env_def)
  have "fresh \<longleftrightarrow> sm_Get (lib_timers K) (readyTimers s) (PendingPod_String p) = None"
    using shared_map.GetOrCreate_fresh [OF sm, of "readyTimers s" "PendingPod_String p" "time_Add (time_Now E) (readyDelay s)"] g
    by (simp add: shared_map.Get_inner [OF sm])
  moreover have "sm_Get (lib_timers K) tm (PendingPod_String p) \<noteq> None"
    using shared_map.GetOrCreate_contents [OF sm, of "readyTimers s" "PendingPod_String p" "time_Add (time_Now E) (readyDelay s)"] g
    by (auto simp: shared_map.Get_inner [OF sm] split: option.splits)
  ultimately show ?thesis
    using SyncPod_due [OF assms(2)] by (simp add: SyncPod_delay_eq [OF g])
qed

definition sample_bound where
  "sample_bound = joined_server\<lparr> inMemCache := [(''p'', \<lparr> InfoNamespace = ''ns'', InfoName = ''p'', OwnerName = ''rs'' \<rparr>)] \<rparr>"

theorem in_memory_pod_exposed_once_witness:
  "\<exists>s'. SyncPod sample_lib (sample_kube 0 0 (Inl (KNotFound ''p''))) sample_pending sample_bound = Ret (None, s')
     \<and> length (exposing s') = 1"
proof -
  have "due_for_sync sample_lib (sample_kube 0 0 (Inl (KNotFound ''p''))) sample_pending sample_bound
      (sample_pod\<lparr> ResourceVersion := '''' \<rparr>) True"
    by (simp add: due_for_sync_def SyncPod_resolve_def isResponsibleFor_def sample_defs sample_bound_def gm_get_def)
  from in_memory_pod_exposed_once [OF sample_env this] show ?thesis
    by (auto simp: sample_defs sample_bound_def gm_get_def)
qed

text \<open>
  C39. A client for a node exists only between a handshake for that node and the node's deletion
  event. If a pod of a deleted node is still on the API server when its status is due, the worker calls a method of
  the nil client: the agent panics.
\<close>
theorem deleted_node_panics:
  assumes "kubelet_env K dirty processing delayed epoch"
    and "unwrapNodeObj obj = Some node" and "Name node = NodeName pod"
    and "s = handleNodeDelete K obj s0" and "due_for_sync K E p s pod False"
    and "sm_Get (lib_timers K) (readyTimers s) (PendingPod_String p) = Some t" and "t \<le> time_Until E"
    and "ref_status K E s pod = Ret (Inr ref)" and "json_Marshal K \<lparr> patch_UID = UID pod, patch_Status = ref \<rparr> = Inr bytes"
  shows "panics (SyncPod K E p s)"
proof -
  have sm: "shared_map (lib_clients K)" "shared_map (lib_timers K)"
    using assms(1) by (simp_all add: kubelet_env_def)
  have "GetClient K s (NodeName pod) = None"
    using assms(2-4) shared_map.Del_inner [OF sm(1)]
    by (simp add: handleNodeDelete_def DelClient_def GetClient_def shared_map.Get_inner [OF sm(1)])
  moreover have g: "sm_GetOrCreate (lib_timers K) (readyTimers s) (PendingPod_String p) (time_Add (time_Now E) (readyDelay s))
      = (t, False, readyTimers s)"
    using assms(6) by (simp add: shared_map.GetOrCreate_old [OF sm(2)] shared_map.Get_inner [OF sm(2)])
  moreover have "timed (readyTimers s) False False pod s = s"
    by (simp add: timed_def)
  ultimately show ?thesis
    using assms(7-9) SyncPod_due [OF assms(5)]
    by (simp add: SyncPod_delay_eq [OF g] SyncPod_mark_def ref_status_def [symmetric] markPodReady_def markPodReadyByPatch_def
        markPodReadyByUpdate_def prepareMergePatchBytesForPodStatus_def)
qed

definition sample_node :: Node where
  "sample_node = \<lparr> Namespace = '''', Name = ''n1'', Labels = [], Annotations = [], Addresses = [] \<rparr>"

theorem deleted_node_panics_witness:
  "panics (SyncPod sample_lib (sample_kube 0 200000000 (Inr sample_pod)) sample_pending
     (handleNodeDelete sample_lib (NodeObj sample_node) (joined_server\<lparr> readyTimers := [(''ns/p'', 100000000)] \<rparr>)))"
  by (rule deleted_node_panics [where t = 100000000 and node = sample_node and pod = sample_pod, OF sample_env _ _ refl])
    (simp_all add: sample_node_def handleNodeDelete_def DelClient_def due_for_sync_def SyncPod_resolve_def isResponsibleFor_def
       ref_status_def PendingPod_String_def gm_get_def gm_del_def sample_defs)

text \<open>
  A simulated status has the four standard conditions and every readiness gate of the pod, all true; every
  container is ready and running, every init container completed with code 0, in the order of the
  spec; and every time stamp is the moment of the status. Stamping a status, also one copied from the
  pool, changes nothing but time stamps.
\<close>
theorem simulated_status_complete:
  "(let st = simulateRefPodStatus now pod in
     Phase st = ''Running'' \<and> StartTime st = Some now
     \<and> map CondType (Conditions st) = [''Ready'', ''ContainersReady'', ''PodScheduled'', ''Initialized''] @ ReadinessGates pod
     \<and> set (map (\<lambda>c. (CondStatus c, LastTransitionTime c)) (Conditions st)) = {(''True'', now)}
     \<and> map (\<lambda>c. (CsName c, CsImage c, Ready c, Running c)) (ContainerStatuses st)
         = map (\<lambda>c. (ContainerName c, Image c, True, Some now)) (Containers pod)
     \<and> map (\<lambda>c. (CsName c, CsImage c, Ready c, Running c, map_option ExitCode (Terminated c), map_option FinishedAt (Terminated c)))
           (InitContainerStatuses st)
         = map (\<lambda>c. (ContainerName c, Image c, True, None, Some 0, Some now)) (InitContainers pod))
   \<and> (let st = tweakRefPodStatus now ref in
       Phase st = Phase ref \<and> StatusPodIP st = StatusPodIP ref
       \<and> map (\<lambda>c. (CondType c, CondStatus c)) (Conditions st) = map (\<lambda>c. (CondType c, CondStatus c)) (Conditions ref)
       \<and> map (\<lambda>c. (CsName c, CsImage c, Ready c)) (ContainerStatuses st) = map (\<lambda>c. (CsName c, CsImage c, Ready c)) (ContainerStatuses ref)
       \<and> map (\<lambda>c. (CsName c, CsImage c, Ready c)) (InitContainerStatuses st) = map (\<lambda>c. (CsName c, CsImage c, Ready c)) (InitContainerStatuses ref))"
  by (simp add: simulateRefPodStatus_def tweakRefPodStatus_def Let_def o_def tweak_condition_def true_condition_def tweak_running_def
      tweak_terminated_def running_status_def completed_status_def split: option.splits) auto

text \<open>
  C32. \<open>BindPod\<close> accepts a pod only in the scheduler's current epoch and for an owner that has a template:
  without the template it answers \<open>NotFound\<close>, in another epoch than the last handshake's
  \<open>InvalidArgument\<close>, and either error leaves the agent as it was. Otherwise the pod is kept in memory and waits
  for a worker, and a repeated delivery is accepted without effect on memory or queue.
\<close>
theorem bind_pod_epochs:
  assumes "kubelet_env K dirty processing delayed epoch"
    and "Handshake K c \<lparr> hs_Source = bind_Source req, hs_Destination = node, hs_Epoch = e \<rparr> s0 = (msg, s)"
    and "sm_Get (lib_cache K) (inMemCache s) (InfoName (NewPodInfoFromBindingRequest K req)) = None"
  shows "case GetUnnamedTemplateFor E (bind_OwnerNamespace req) (bind_OwnerName req) False of
      Inl err \<Rightarrow> BindPod K E req s = (Inl (RpcNotFound err), s)
    | Inr t \<Rightarrow>
        if bind_Epoch req \<noteq> e then \<exists>err. BindPod K E req s = (Inl (RpcInvalidArgument err), s)
        else \<exists>s1 s2. BindPod K E req s = (Inr (), s1) \<and> BindPod K E req s1 = (Inr (), s2)
          \<and> sm_Get (lib_cache K) (inMemCache s1) (InfoName (NewPodInfoFromBindingRequest K req)) = Some (NewPodInfoFromBindingRequest K req)
          \<and> NewPendingPodFromInMemCache (NewPodInfoFromBindingRequest K req) \<in> dirty (queue s1)
          \<and> inMemCache s2 = inMemCache s1 \<and> queue s2 = queue s1"
proof -
  let ?info = "NewPodInfoFromBindingRequest K req" and ?src = "bind_Source req"
  have hub: "epoch_hub (lib_hub K) epoch" and sm: "shared_map (lib_cache K)"
    and q: "rate_limited_queue (lib_queue K) dirty processing delayed"
    using assms(1) by (simp_all add: kubelet_env_def)
  have ep: "epoch (serverHub s) ?src = Some e"
    using assms(2) by (auto simp: Handshake_def Let_def epoch_hub.epoch_Lock [OF hub] split: prod.splits)
  show ?thesis
  proof (cases "GetUnnamedTemplateFor E (bind_OwnerNamespace req) (bind_OwnerName req) False")
    case (Inr t)
    show ?thesis
    proof (cases "bind_Epoch req = e")
      case False
      then obtain err where "hub_RLock (lib_hub K) (serverHub s) ?src (bind_Epoch req) = Inl err"
        using epoch_hub.RLock_refused [OF hub] ep by (metis option.inject)
      then show ?thesis
        using Inr False by (simp add: BindPod_def)
    next
      case True
      obtain h1 where h1: "hub_RLock (lib_hub K) (serverHub s) ?src e = Inr h1"
          "epoch (hub_RUnlock (lib_hub K) h1 ?src) = epoch (serverHub s)"
        using epoch_hub.RLock_granted [OF hub ep] by blast
      obtain h2 where h2: "hub_RLock (lib_hub K) (hub_RUnlock (lib_hub K) h1 ?src) ?src e = Inr h2"
        using epoch_hub.RLock_granted [OF hub] h1(2) ep by metis
      have g: "sm_GetOrCreate (lib_cache K) (inMemCache s) (InfoName ?info) ?info
          = (?info, True, sm_Set (lib_cache K) (inMemCache s) (InfoName ?info) ?info)"
        using assms(3) by (simp add: shared_map.GetOrCreate_new [OF sm] shared_map.Get_inner [OF sm])
      note [simp] = g shared_map.GetOrCreate_twice [OF sm g] shared_map.Set_inner [OF sm] shared_map.Get_inner [OF sm]
        work_queue.Add_dirty [OF rate_limited_queue.axioms(1) [OF q]]
      show ?thesis
        using Inr True h1 h2 by (simp add: BindPod_def Let_def)
    qed
  qed (simp add: BindPod_def)
qed

definition sample_binding :: "string PodBindingRequest_scheme" where
  "sample_binding = \<lparr> bind_Source = ''sched'', bind_Epoch = ''e1'', bind_OwnerNamespace = ''ns'', bind_OwnerName = ''rs'', \<dots> = ''p'' \<rparr>"

theorem bind_pod_epochs_witness:
  "\<exists>s1. BindPod sample_lib (sample_kube 0 0 (Inl (KNotFound ''p''))) sample_binding joined_server = (Inr (), s1)
     \<and> sample_pending \<in> set (fst (fst (queue s1)))"
proof -
  have h: "Handshake sample_lib ''client'' \<lparr> hs_Source = bind_Source sample_binding, hs_Destination = ''n1'', hs_Epoch = ''e1'' \<rparr> sample_server
      = (\<lparr> hr_Epoch = ''e1'', hr_Name = ''n1'', hr_Pods = [] \<rparr>, joined_server)"
    by (simp add: sample_defs sample_binding_def Handshake_def gm_get_def gm_set_def map_hub_def plain_lib_def)
  show ?thesis
    using bind_pod_epochs [OF sample_env h, of "sample_kube 0 0 (Inl (KNotFound ''p''))"]
    by (auto simp: sample_binding_def sample_kube_def NewPendingPodFromInMemCache_def gm_get_def joined_server_def sample_server_def
        sample_lib_def plain_lib_def)
qed

end
