(* ===== verification/Replay.thy ===== *)
theory Replay
  imports Gateway
begin

text \<open>
  \<open>pkg/replay\<close>: the client that replays traces. \<open>client.go\<close> pairs every deployment with a trace, starts the
  workers and writes the responses to a file; \<open>worker.go\<close> deals the invocations of one trace to its senders
  in turn and sends each when its arrival time has come. The senders of all workers interleave:
  a run is a sequence of events, each naming a worker, one of its senders and the clock it reads. The lemmas show that
  the number of senders, computed in floating point, is the exact quotient rounded up, that every
  invocation is sent once, never early and in order, under an identifier of its own, and that the summary counts.
\<close>

section \<open>Workers\<close>

text \<open>\<open>toGateway\<close> is the channel the gateway returned for the target.\<close>

record 'c worker =
  w_target :: string
  trace :: TraceSpec
  toGateway :: 'c
  clientStartTime :: gotime
  nSenders :: int
  senderInvocations :: "InvocationSpec list list"

definition maxInvocationsPerSecondPerSender :: float64 where
  "maxInvocationsPerSecondPerSender = Fin 1000"

definition sender_count :: "nat \<Rightarrow> float64" where
  "sender_count n = fceil (fdiv (fdiv (f_of_int (int n)) (Fin 60)) maxInvocationsPerSecondPerSender)"

text \<open>The loop over \<open>trace.Invocations\<close> from index \<open>i\<close>; \<open>%\<close> panics on a zero divisor.\<close>

fun deal :: "int \<Rightarrow> nat \<Rightarrow> InvocationSpec list \<Rightarrow> InvocationSpec list list \<Rightarrow> InvocationSpec list list go" where
  "deal n i [] bins = Ret bins"
| "deal n i (invocation # rest) bins =
     (if n = 0 then Panic ''integer divide by zero''
      else let senderBin = nat (int i mod n) in
        if length bins \<le> senderBin then Panic ''index out of range''
        else deal n (Suc i) rest (bins[senderBin := bins ! senderBin @ [invocation]]))"

definition newWorker :: "string \<Rightarrow> TraceSpec \<Rightarrow> 'c \<Rightarrow> 'c worker go" where
  "newWorker target tr send =
     (let n = int_of_float (sender_count (length (Invocations tr))) in
      if n < 0 then Panic ''makeslice: len out of range''
      else go_bind (deal n 0 (Invocations tr) (replicate (nat n) [])) (\<lambda>bins.
        Ret \<lparr> w_target = target, trace = tr, toGateway = send, clientStartTime = zeroTime, nSenders = n,
              senderInvocations = bins \<rparr>))"

definition seconds_to_Duration :: "float64 \<Rightarrow> duration" where
  "seconds_to_Duration x = int_of_float (fmul x (f_of_int Second))"

text \<open>The instant from which the channel of \<open>next\<close> delivers the time.\<close>

definition next_send :: "'c worker \<Rightarrow> float64 \<Rightarrow> gotime" where
  "next_send w nextRequestTime = time_Add (clientStartTime w) (seconds_to_Duration nextRequestTime)"

definition request_ID :: "string \<Rightarrow> nat \<Rightarrow> nat \<Rightarrow> string" where
  "request_ID target senderID reqID = target @ ''-'' @ dec (int senderID) @ ''/'' @ dec (int reqID)"

text \<open>The body of the loop in \<open>send\<close>, with the time \<open>now\<close> that \<open>next\<close> delivered.\<close>

definition send_body :: "'c worker \<Rightarrow> nat \<Rightarrow> nat \<Rightarrow> InvocationSpec \<Rightarrow> gotime \<Rightarrow> Request" where
  "send_body w senderID reqID spec now =
     \<lparr> ID = request_ID (w_target w) senderID reqID, Target = w_target w, DurationMilliSec = RuntimeMilliSec spec,
       ClientSendTS = now, GatewayRecvTS = zeroTime, GatewaySendTS = zeroTime,
       ClientRelTime = time_Sub now (clientStartTime w), TraceRelTime = seconds_to_Duration (ArrivalTimeSec spec) \<rparr>"

text \<open>\<open>replay\<close> sets the start time and starts the senders \<open>0 .. nSenders - 1\<close>.\<close>

definition replay_start :: "gotime \<Rightarrow> 'c worker \<Rightarrow> 'c worker" where
  "replay_start start w = w\<lparr> clientStartTime := start \<rparr>"

section \<open>The client\<close>

text \<open>The package variable \<open>sampleOutputFactor\<close>, 1 unless \<open>SampleOutput\<close> sets it.\<close>

definition default_sampleOutputFactor :: int where
  "default_sampleOutputFactor = 1"

definition SampleOutput :: "int \<Rightarrow> int" where
  "SampleOutput factor = factor"

record 'c Client =
  traces :: "TraceSpec list"
  workers :: "(string, 'c worker) gomap"

text \<open>\<open>loaded\<close> is what \<open>LoadTraceFromConfig\<close> gave, \<open>createError\<close> the error of creating the output file.\<close>

definition NewClient :: "TraceSpec list go \<Rightarrow> string \<Rightarrow> string option \<Rightarrow> (string + 'c Client) go" where
  "NewClient loaded outputPath createError =
     go_bind loaded (\<lambda>trs. Ret
       (case createError of
          Some err \<Rightarrow> Inl (''failed to create output file '' @ outputPath @ '': '' @ err)
        | None \<Rightarrow> Inr \<lparr> traces = trs, workers = [] \<rparr>))"

fun register_workers ::
    "(string \<Rightarrow> 'c go) \<Rightarrow> 'a ObjectMeta_scheme list \<Rightarrow> TraceSpec list \<Rightarrow> (string, 'c worker) gomap \<Rightarrow> (string, 'c worker) gomap go" where
  "register_workers requestChan [] trs ws = Ret ws"
| "register_workers requestChan (target # targets) trs ws =
     (case trs of
        [] \<Rightarrow> Panic ''index out of range''
      | tr # trs' \<Rightarrow>
          let key = KeyFromObject target in
          go_bind (requestChan key) (\<lambda>c. go_bind (newWorker key tr c) (\<lambda>wrk.
            register_workers requestChan targets trs' (gm_set ws key wrk))))"

definition Client_SetupWithManager ::
    "(string \<Rightarrow> 'c go) \<Rightarrow> string + 'a ObjectMeta_scheme list \<Rightarrow> 'c Client \<Rightarrow> (string + 'c Client) go" where
  "Client_SetupWithManager requestChan listed c =
     (case listed of
        Inl err \<Rightarrow> Ret (Inl (''error listing deployments in client: '' @ err))
      | Inr targets \<Rightarrow>
          if length (traces c) < length targets then
            Ret (Inl (''mismatched deployments and traces: expected '' @ dec (int (length (traces c)))
                   @ '', got '' @ dec (int (length targets))))
          else go_bind (register_workers requestChan targets (traces c) (workers c)) (\<lambda>ws.
            Ret (Inr (c\<lparr> workers := ws \<rparr>))))"

text \<open>\<open>recv\<close> on one response taken from the gateway.\<close>

definition recv_stamp :: "gotime \<Rightarrow> Response \<Rightarrow> Response" where
  "recv_stamp now res = res\<lparr> ClientRecvTS := now \<rparr>"

record write_vars =
  nTotal :: int
  nFailed :: int
  outputFile :: "string list"

text \<open>
  \<open>write\<close> on the responses it receives until the channel is closed, a nil one ending the loop. A string
  that \<open>canWrite\<close> refuses stands for a failing \<open>WriteString\<close>.
\<close>

definition WriteString :: "(string \<Rightarrow> bool) \<Rightarrow> string \<Rightarrow> string \<Rightarrow> write_vars \<Rightarrow> write_vars go" where
  "WriteString canWrite msg line v = (if canWrite line then Ret (v\<lparr> outputFile := outputFile v @ [line] \<rparr>) else Panic msg)"

fun write_loop :: "int \<Rightarrow> (string \<Rightarrow> bool) \<Rightarrow> Response option list \<Rightarrow> write_vars \<Rightarrow> write_vars go" where
  "write_loop sampleOutputFactor canWrite [] v = Ret v"
| "write_loop sampleOutputFactor canWrite (None # rest) v = Ret v"
| "write_loop sampleOutputFactor canWrite (Some res # rest) v =
     (let v1 = v\<lparr> nTotal := nTotal v + 1, nFailed := (if Status res \<noteq> SUCCESS then nFailed v + 1 else nFailed v) \<rparr> in
      if sampleOutputFactor = 0 then Panic ''integer divide by zero''
      else if sampleOutputFactor dvd nTotal v1
        then go_bind (WriteString canWrite ''Failed to write response'' (Response_Summary res) v1)
               (write_loop sampleOutputFactor canWrite rest)
      else write_loop sampleOutputFactor canWrite rest v1)"

definition summary_line :: "int \<Rightarrow> int \<Rightarrow> string" where
  "summary_line n failed =
     ''Summary: total '' @ dec n @ '' success '' @ dec (n - failed) @ '' fail '' @ dec failed @ [CHR 0x0A]"

definition Client_write :: "int \<Rightarrow> (string \<Rightarrow> bool) \<Rightarrow> Response option list \<Rightarrow> write_vars go" where
  "Client_write sampleOutputFactor canWrite responses =
     go_bind (write_loop sampleOutputFactor canWrite responses \<lparr> nTotal = 0, nFailed = 0, outputFile = [] \<rparr>) (\<lambda>v.
       WriteString canWrite ''Failed to write request summary'' (summary_line (nTotal v) (nFailed v)) v)"

section \<open>The senders at work\<close>

text \<open>
  \<open>progress\<close> counts what each sender has sent, \<open>sent\<close> lists the requests put on the channels with the
  sender of each. An event is one iteration of a sender; it happens once the arrival time has come.
\<close>

record replay_state =
  progress :: "string \<Rightarrow> nat \<Rightarrow> nat"
  sent :: "((string \<times> nat) \<times> Request) list"

definition replay_init :: replay_state where
  "replay_init = \<lparr> progress = (\<lambda>_ _. 0), sent = [] \<rparr>"

definition bin_of :: "'c worker \<Rightarrow> nat \<Rightarrow> InvocationSpec list" where
  "bin_of w i = (if i < length (senderInvocations w) then senderInvocations w ! i else [])"

definition send :: "(string, 'c worker) gomap \<Rightarrow> string \<times> nat \<times> gotime \<Rightarrow> replay_state \<Rightarrow> replay_state option" where
  "send ws ev s = (case ev of (key, i, now) \<Rightarrow>
     (case gm_get ws key of
        None \<Rightarrow> None
      | Some w \<Rightarrow>
          let k = progress s key i in
          if int i < nSenders w \<and> k < length (bin_of w i) \<and> next_send w (ArrivalTimeSec (bin_of w i ! k)) \<le> now
          then Some (s\<lparr> progress := (progress s)(key := (progress s key)(i := Suc k)),
                        sent := sent s @ [((key, i), send_body w i k (bin_of w i ! k) now)] \<rparr>)
          else None))"

fun replay_run :: "(string, 'c worker) gomap \<Rightarrow> (string \<times> nat \<times> gotime) list \<Rightarrow> replay_state \<Rightarrow> replay_state option" where
  "replay_run ws [] s = Some s"
| "replay_run ws (ev # evs) s = (case send ws ev s of None \<Rightarrow> None | Some s' \<Rightarrow> replay_run ws evs s')"

text \<open>\<open>Start\<close>: all workers with one start time; the sends are finished (\<open>finishSend\<close>) when every sender is.\<close>

definition Start :: "gotime \<Rightarrow> 'c Client \<Rightarrow> (string, 'c worker) gomap" where
  "Start start c = map (\<lambda>(key, w). (key, replay_start start w)) (workers c)"

definition finished_send :: "(string, 'c worker) gomap \<Rightarrow> replay_state \<Rightarrow> bool" where
  "finished_send ws s \<longleftrightarrow>
     list_all (\<lambda>(key, w). list_all (\<lambda>i. progress s key i = length (bin_of w i)) [0..<nat (nSenders w)]) ws"

section \<open>Dealing invocations to senders\<close>

text \<open>The rounding of both divisions keeps the quotient strictly above the whole number it exceeds.\<close>

lemma sender_count_bounds:
  assumes "60000 * k < m" "m \<le> 60000 * (k + 1)" "0 \<le> k" "k \<le> 2 ^ 36"
  shows "\<lceil>rnd64 (rnd64 (of_int m / 60) / 1000)\<rceil> = k + 1"
proof (rule ceiling_unique)
  have "(of_int (64000 * k + 1) :: rat) / 2 ^ 6 \<le> of_int m / 60"
  proof -
    have "(of_int (60000 * k + 1) :: rat) \<le> of_int m"
      using assms(1) by (simp only: of_int_le_iff)
    then show ?thesis by simp
  qed
  then have "(of_int (64000 * k + 1) :: rat) / 2 ^ 6 \<le> rnd64 (of_int m / 60)"
    using binary64.mono rnd64_dyadic [of "64000 * k + 1" 6] assms(3,4) by fastforce
  then have "(of_int (65536 * k + 1) :: rat) / 2 ^ 16 \<le> rnd64 (of_int m / 60) / 1000"
    by simp
  then have "(of_int (65536 * k + 1) :: rat) / 2 ^ 16 \<le> rnd64 (rnd64 (of_int m / 60) / 1000)"
    using binary64.mono rnd64_dyadic [of "65536 * k + 1" 16] assms(3,4) by fastforce
  then show "of_int (k + 1) - 1 < rnd64 (rnd64 (of_int m / 60) / 1000)"
    by simp
  have "(of_int m :: rat) \<le> of_int (60000 * (k + 1))"
    using assms(2) by (simp only: of_int_le_iff)
  then have "(of_int m :: rat) / 60 \<le> of_int (1000 * (k + 1))"
    by simp
  then have "rnd64 (of_int m / 60) \<le> of_int (1000 * (k + 1))"
    using assms(3,4) by (intro binary64.le_int) auto
  then have "rnd64 (of_int m / 60) / 1000 \<le> of_int (k + 1)"
    by simp
  then show "rnd64 (rnd64 (of_int m / 60) / 1000) \<le> of_int (k + 1)"
    using assms(3,4) by (intro binary64.le_int) auto
qed

lemma sender_count_exact:
  assumes "n \<le> 2 ^ 50"
  shows "sender_count n = Fin (of_int (int ((n + 59999) div 60000)))"
proof -
  have m1: "moderate (of_int (int n) / 60)"
    using assms by (intro moderate_divide moderate_of_int) auto
  then have m2: "moderate (rnd64 (of_int (int n) / 60) / 1000)"
    by (intro moderate_divide) auto
  have eq: "sender_count n = Fin (of_int \<lceil>rnd64 (rnd64 (of_int (int n) / 60) / 1000)\<rceil>)"
    using assms m1 m2 by (simp add: sender_count_def maxInvocationsPerSecondPerSender_def)
  show ?thesis
  proof (cases "n = 0")
    case True
    then show ?thesis unfolding eq by simp
  next
    case False
    define k where "k = (n - 1) div 60000"
    have "60000 * k \<le> n - 1" "n - 1 < 60000 * (k + 1)"
      using mult_div_mod_eq [of 60000 "n - 1"] mod_less_divisor [of 60000 "n - 1"] unfolding k_def by simp_all
    moreover have "(n + 59999) div 60000 = k + 1"
      unfolding k_def using False by (simp add: div_nat_eqI Suc_diff_le)
    moreover have "k \<le> 2 ^ 36"
      using assms calculation(1) by simp
    ultimately have "\<lceil>rnd64 (rnd64 (of_int (int n) / 60) / 1000)\<rceil> = int k + 1"
      using False by (intro sender_count_bounds) simp_all
    then show ?thesis
      unfolding eq using \<open>(n + 59999) div 60000 = k + 1\<close> by simp
  qed
qed

text \<open>What sender \<open>j\<close> of \<open>n\<close> gets: the invocations at the positions that leave remainder \<open>j\<close>.\<close>

definition every_nth :: "nat \<Rightarrow> nat \<Rightarrow> nat \<Rightarrow> 'a list \<Rightarrow> 'a list" where
  "every_nth n j i xs = nths xs {m. (i + m) mod n = j}"

lemma every_nth_simps [simp]:
  "every_nth n j i [] = []"
  "every_nth n j i (x # xs) = (if i mod n = j then [x] else []) @ every_nth n j (Suc i) xs"
  by (simp_all add: every_nth_def nths_Cons)

lemma deal_eq:
  "0 < n \<Longrightarrow> length bins = n \<Longrightarrow> deal (int n) i xs bins = Ret (map (\<lambda>j. bins ! j @ every_nth n j i xs) [0..<n])"
proof (induction xs arbitrary: i bins)
  case Nil
  then show ?case by (auto intro!: nth_equalityI)
next
  case (Cons x xs)
  let ?b = "i mod n"
  let ?bins = "bins[?b := bins ! ?b @ [x]]"
  have b: "nat (int i mod int n) = ?b" "?b < length bins"
    using Cons.prems by (simp_all flip: of_nat_mod)
  have "deal (int n) i (x # xs) bins = deal (int n) (Suc i) xs ?bins"
    using b Cons.prems(1) by (simp add: Let_def)
  also have "\<dots> = Ret (map (\<lambda>j. ?bins ! j @ every_nth n j (Suc i) xs) [0..<n])"
    using Cons.prems by (intro Cons.IH) simp_all
  also have "map (\<lambda>j. ?bins ! j @ every_nth n j (Suc i) xs) [0..<n] = map (\<lambda>j. bins ! j @ every_nth n j i (x # xs)) [0..<n]"
    using Cons.prems(2) by (intro map_cong refl) (simp add: nth_list_update)
  finally show ?case .
qed

lemma every_nth_partition: "0 < n \<Longrightarrow> (\<Sum>j<n. mset (every_nth n j i xs)) = mset xs"
proof (induction xs arbitrary: i)
  case (Cons x xs)
  then have "(\<Sum>j<n. mset (every_nth n j i (x # xs))) = (\<Sum>j<n. if i mod n = j then {#x#} else {#}) + mset xs"
    by (simp add: sum.distrib if_distrib [of mset] cong: if_cong)
  then show ?case
    using Cons.prems by simp
qed simp

lemma every_nth_length:
  assumes "0 < n" "length xs \<le> b * n"
  shows "length (every_nth n j 0 xs) \<le> b"
proof -
  have "inj_on (\<lambda>m. m div n) {m. m < length xs \<and> m mod n = j}"
    by (rule inj_onI) (metis (mono_tags, lifting) div_mult_mod_eq mem_Collect_eq)
  moreover have "(\<lambda>m. m div n) ` {m. m < length xs \<and> m mod n = j} \<subseteq> {..<b}"
    using assms by (auto simp: less_mult_imp_div_less)
  ultimately have "card {m. m < length xs \<and> m mod n = j} \<le> card {..<b}"
    by (intro card_inj_on_le) auto
  then show ?thesis
    by (simp add: every_nth_def length_nths)
qed

text \<open>A worker whose senders share out its trace.\<close>

definition dealt :: "string \<Rightarrow> 'c worker \<Rightarrow> bool" where
  "dealt key w \<longleftrightarrow> w_target w = key \<and> nSenders w = int (length (senderInvocations w))
     \<and> (\<Sum>i<length (senderInvocations w). mset (bin_of w i)) = mset (Invocations (trace w))"

lemma newWorker_eq:
  assumes "length (Invocations tr) \<le> 2 ^ 50" "n = (length (Invocations tr) + 59999) div 60000"
  shows "newWorker key tr c = Ret \<lparr> w_target = key, trace = tr, toGateway = c, clientStartTime = zeroTime, nSenders = int n,
           senderInvocations = map (\<lambda>j. every_nth n j 0 (Invocations tr)) [0..<n] \<rparr>"
proof -
  have "n \<le> length (Invocations tr)"
    unfolding assms(2)
    using less_mult_imp_div_less [of "length (Invocations tr) + 59999" "Suc (length (Invocations tr))" 60000] by simp
  then have n: "int_of_float (sender_count (length (Invocations tr))) = int n"
    using assms(1) unfolding sender_count_exact [OF assms(1)] assms(2) [symmetric] by (intro int_of_float_int) simp_all
  show ?thesis
  proof (cases "n = 0")
    case True
    then have "Invocations tr = []"
      using assms(2) by (simp add: div_eq_0_iff)
    then show ?thesis
      using n True by (simp add: newWorker_def Let_def)
  next
    case False
    have bins: "map (\<lambda>j. replicate n [] ! j @ every_nth n j 0 (Invocations tr)) [0..<n]
        = map (\<lambda>j. every_nth n j 0 (Invocations tr)) [0..<n]"
      by (intro map_cong) simp_all
    show ?thesis
      using False by (simp add: newWorker_def n deal_eq bins)
  qed
qed

lemma newWorker_dealt:
  assumes "length (Invocations tr) \<le> 2 ^ 50"
  obtains w where "newWorker key tr c = Ret w" "dealt key w" "trace w = tr" "toGateway w = c"
proof -
  define n where "n = (length (Invocations tr) + 59999) div 60000"
  define w where "w = \<lparr> w_target = key, trace = tr, toGateway = c, clientStartTime = zeroTime, nSenders = int n,
           senderInvocations = map (\<lambda>j. every_nth n j 0 (Invocations tr)) [0..<n] \<rparr>"
  have "(\<Sum>i<n. mset (bin_of w i)) = (\<Sum>i<n. mset (every_nth n i 0 (Invocations tr)))"
    by (intro sum.cong) (simp_all add: bin_of_def w_def)
  also have "\<dots> = mset (Invocations tr)"
  proof (cases "n = 0")
    case True
    then show ?thesis by (simp add: n_def div_eq_0_iff)
  qed (simp add: every_nth_partition)
  finally have "dealt key w"
    by (simp add: dealt_def w_def)
  then show thesis
    using newWorker_eq [OF assms n_def] by (intro that [of w]) (simp_all add: w_def)
qed

section \<open>Runs of the senders\<close>

definition stamp_free :: "Request \<Rightarrow> string \<times> int \<times> duration" where
  "stamp_free r = (ID r, DurationMilliSec r, TraceRelTime r)"

definition planned :: "'c worker \<Rightarrow> nat \<Rightarrow> nat \<Rightarrow> string \<times> int \<times> duration" where
  "planned w i m = (request_ID (w_target w) i m, RuntimeMilliSec (bin_of w i ! m), seconds_to_Duration (ArrivalTimeSec (bin_of w i ! m)))"

text \<open>What was sent so far: each sender a prefix of its share, in order, and nothing early.\<close>

definition replay_inv :: "(string, 'c worker) gomap \<Rightarrow> replay_state \<Rightarrow> bool" where
  "replay_inv ws s \<longleftrightarrow>
     (\<forall>key w i. map_of ws key = Some w \<longrightarrow> progress s key i \<le> length (bin_of w i)
        \<and> map (stamp_free \<circ> snd) (filter (\<lambda>x. fst x = (key, i)) (sent s)) = map (planned w i) [0..<progress s key i])
     \<and> (\<forall>((key, i), r) \<in> set (sent s). \<exists>w. map_of ws key = Some w \<and> int i < nSenders w \<and> Target r = key
           \<and> time_Add (clientStartTime w) (TraceRelTime r) \<le> ClientSendTS r)
     \<and> distinct (map (ID \<circ> snd) (sent s))"

lemma request_ID_inject:
  "request_ID t i m = request_ID t' i' m' \<longleftrightarrow> t = t' \<and> i = i' \<and> m = m'"
proof
  have split: "a = a' \<and> b = b'" if "a @ c # b = a' @ c # b'" "c \<notin> set b" "c \<notin> set b'" for a a' b b' :: string and c
    using that by (auto simp: append_eq_append_conv2 append_eq_Cons_conv Cons_eq_append_conv)
  have dash: "CHR ''-'' \<notin> set (dec (int n))" for n
  proof -
    have "(of_char (CHR ''-'') :: int) = 45" by simp
    moreover have "(of_char (digit d) :: int) \<noteq> 45" if "0 \<le> d" "d < 10" for d
      using of_char_digit [OF that] that by simp
    ultimately have "CHR ''-'' \<noteq> digit d" if "0 \<le> d" "d < 10" for d
      using that by metis
    then show ?thesis
      using dec_pos_digits [of "int n" "CHR ''-''"] by (auto simp: dec_def)
  qed
  assume "request_ID t i m = request_ID t' i' m'"
  then have "(t @ ''-'' @ dec (int i)) @ CHR ''/'' # dec (int m) = (t' @ ''-'' @ dec (int i')) @ CHR ''/'' # dec (int m')"
    by (simp add: request_ID_def)
  from split [OF this] have "t @ CHR ''-'' # dec (int i) = t' @ CHR ''-'' # dec (int i') \<and> dec (int m) = dec (int m')"
    using dec_no_slash [of "int m"] dec_no_slash [of "int m'"] by (simp add: no_slash_def)
  then show "t = t' \<and> i = i' \<and> m = m'"
    using split [of t "CHR ''-''" "dec (int i)" t' "dec (int i')"] dash by (simp add: dec_inject)
qed simp

lemma send_SomeD:
  assumes "send ws (key, i, now) s = Some s'"
  obtains w where "map_of ws key = Some w" "int i < nSenders w" "progress s key i < length (bin_of w i)"
    "next_send w (ArrivalTimeSec (bin_of w i ! progress s key i)) \<le> now"
    "s' = s\<lparr> progress := (progress s)(key := (progress s key)(i := Suc (progress s key i))),
             sent := sent s @ [((key, i), send_body w i (progress s key i) (bin_of w i ! progress s key i) now)] \<rparr>"
  using assms by (auto simp: send_def gm_get_map_of Let_def split: option.splits if_splits)

lemma replay_inv_init: "replay_inv ws replay_init"
  by (simp add: replay_inv_def replay_init_def)

lemma replay_inv_ID:
  assumes "replay_inv ws s" "map_of ws key = Some w" "w_target w = key" "x \<in> set (sent s)" "ID (snd x) = request_ID key i m"
    and "\<And>k v. map_of ws k = Some v \<Longrightarrow> w_target v = k"
  shows "m < progress s key i"
proof -
  obtain key' i' r where x: "x = ((key', i'), r)"
    by (metis prod.collapse)
  obtain w' where w': "map_of ws key' = Some w'"
    using assms(1,4) x by (fastforce simp: replay_inv_def)
  have "(stamp_free \<circ> snd) x \<in> set (map (stamp_free \<circ> snd) (filter (\<lambda>x. fst x = (key', i')) (sent s)))"
    using assms(4) x by force
  moreover have "map (stamp_free \<circ> snd) (filter (\<lambda>x. fst x = (key', i')) (sent s)) = map (planned w' i') [0..<progress s key' i']"
    using assms(1) w' by (simp add: replay_inv_def)
  ultimately have "stamp_free r \<in> planned w' i' ` {0..<progress s key' i'}"
    using x by (metis comp_apply list.set_map set_upt snd_conv)
  then obtain m' where "m' < progress s key' i'" "ID r = request_ID key' i' m'"
    using assms(6) [OF w'] by (auto simp: stamp_free_def planned_def)
  then show ?thesis
    using assms(5) x by (simp add: request_ID_inject)
qed

lemma replay_inv_send:
  assumes inv: "replay_inv ws s" and step: "send ws ev s = Some s'"
    and targets: "\<And>k v. map_of ws k = Some v \<Longrightarrow> w_target v = k"
  shows "replay_inv ws s'"
proof -
  obtain key i now where ev: "ev = (key, i, now)"
    by (metis prod_cases3)
  define k where "k = progress s key i"
  obtain w where w: "map_of ws key = Some w" "int i < nSenders w" "k < length (bin_of w i)"
    "next_send w (ArrivalTimeSec (bin_of w i ! k)) \<le> now"
    "s' = s\<lparr> progress := (progress s)(key := (progress s key)(i := Suc k)),
             sent := sent s @ [((key, i), send_body w i k (bin_of w i ! k) now)] \<rparr>"
    using step unfolding ev k_def by (rule send_SomeD)
  let ?r = "send_body w i k (bin_of w i ! k) now"
  have t: "w_target w = key"
    by (rule targets [OF w(1)])
  have "ID (snd x) \<noteq> ID ?r" if "x \<in> set (sent s)" for x
    using replay_inv_ID [OF inv w(1) t that, of i k] targets by (auto simp: send_body_def t k_def)
  then have "distinct (map (ID \<circ> snd) (sent s'))"
    using inv unfolding replay_inv_def w(5) by (simp add: image_iff) metis
  moreover have "stamp_free ?r = planned w i k" "Target ?r = key"
      "time_Add (clientStartTime w) (TraceRelTime ?r) \<le> ClientSendTS ?r"
    using w(4) t by (simp_all add: stamp_free_def planned_def send_body_def next_send_def)
  moreover have "progress s' key' j \<le> length (bin_of w' j)
      \<and> map (stamp_free \<circ> snd) (filter (\<lambda>x. fst x = (key', j)) (sent s')) = map (planned w' j) [0..<progress s' key' j]"
    if "map_of ws key' = Some w'" for key' w' j
    using inv that w(1,3,5) calculation(2) by (cases "(key', j) = (key, i)") (auto simp: replay_inv_def k_def)
  ultimately show ?thesis
    using inv w(1,2,5) unfolding replay_inv_def by auto
qed

lemma replay_run_inv:
  assumes "replay_run ws evs s = Some s'" "replay_inv ws s" "\<And>k v. map_of ws k = Some v \<Longrightarrow> w_target v = k"
  shows "replay_inv ws s'"
  using assms(1,2)
proof (induction evs arbitrary: s)
  case (Cons ev evs)
  then show ?case
    using replay_inv_send [OF _ _ assms(3)] by (auto split: option.splits)
qed simp

lemma image_mset_sum: "image_mset f (sum g A) = (\<Sum>i\<in>A. image_mset f (g i))"
  using sum_comp_morphism [of "image_mset f" g A] by (simp add: comp_def)

text \<open>When every sender is done, each trace has been sent.\<close>

lemma split_by_sender:
  fixes n :: nat
  assumes "\<And>x. x \<in> set xs \<Longrightarrow> fst (fst x) = key \<Longrightarrow> snd (fst x) < n"
  shows "mset (filter (\<lambda>x. fst (fst x) = key) xs) = (\<Sum>i<n. mset (filter (\<lambda>x. fst x = (key, i)) xs))"
  using assms
proof (induction xs)
  case (Cons x xs)
  have IH: "mset (filter (\<lambda>x. fst (fst x) = key) xs) = (\<Sum>i<n. mset (filter (\<lambda>x. fst x = (key, i)) xs))"
    using Cons by simp
  have "(\<Sum>i<n. mset (filter (\<lambda>x. fst x = (key, i)) (x # xs)))
      = (\<Sum>i<n. (if fst x = (key, i) then {#x#} else {#})) + (\<Sum>i<n. mset (filter (\<lambda>x. fst x = (key, i)) xs))"
    unfolding sum.distrib [symmetric] by (intro sum.cong) simp_all
  also have "(\<Sum>i<n. (if fst x = (key, i) then {#x#} else {#})) = (if fst (fst x) = key then {#x#} else {#})"
  proof (cases "fst (fst x) = key")
    case True
    then have "fst x = (key, i) \<longleftrightarrow> snd (fst x) = i" for i
      by (auto simp: prod_eq_iff)
    then show ?thesis
      using True Cons.prems [of x] by simp
  next
    case False
    then have "fst x \<noteq> (key, i)" for i
      by auto
    then show ?thesis
      using False by simp
  qed
  finally show ?case
    using IH by simp
qed simp

definition spec_free :: "InvocationSpec \<Rightarrow> int \<times> duration" where
  "spec_free v = (RuntimeMilliSec v, seconds_to_Duration (ArrivalTimeSec v))"

lemma finished_sends_trace:
  assumes inv: "replay_inv ws s" and w: "map_of ws key = Some w" and d: "dealt key w" and fin: "finished_send ws s"
  shows "{# (DurationMilliSec (snd x), TraceRelTime (snd x)). x \<in># mset (filter (\<lambda>x. fst (fst x) = key) (sent s)) #}
    = image_mset spec_free (mset (Invocations (trace w)))"
proof -
  let ?n = "length (senderInvocations w)" and ?f = "\<lambda>x. (DurationMilliSec (snd x), TraceRelTime (snd x))"
  have "snd (fst x) < ?n" if "x \<in> set (sent s)" "fst (fst x) = key" for x
    using that inv w d by (fastforce simp: replay_inv_def dealt_def)
  note split = split_by_sender [of "sent s" key ?n, OF this]
  have bin: "map ?f (filter (\<lambda>x. fst x = (key, i)) (sent s)) = map spec_free (bin_of w i)" if "i < ?n" for i
  proof -
    have "progress s key i = length (bin_of w i)"
      using fin map_of_SomeD [OF w] that d by (fastforce simp: finished_send_def list_all_iff dealt_def)
    then have *: "map (stamp_free \<circ> snd) (filter (\<lambda>x. fst x = (key, i)) (sent s)) = map (planned w i) [0..<length (bin_of w i)]"
      using inv w by (simp add: replay_inv_def)
    have "map ?f (filter (\<lambda>x. fst x = (key, i)) (sent s)) = map snd (map (stamp_free \<circ> snd) (filter (\<lambda>x. fst x = (key, i)) (sent s)))"
      by (simp add: stamp_free_def)
    also have "\<dots> = map (\<lambda>m. spec_free (bin_of w i ! m)) [0..<length (bin_of w i)]"
      unfolding * by (simp add: planned_def spec_free_def)
    also have "\<dots> = map spec_free (bin_of w i)"
      by (rule nth_equalityI) simp_all
    finally show ?thesis .
  qed
  have "image_mset ?f (mset (filter (\<lambda>x. fst (fst x) = key) (sent s))) = (\<Sum>i<?n. mset (map ?f (filter (\<lambda>x. fst x = (key, i)) (sent s))))"
    by (simp only: split image_mset_sum mset_map)
  also have "\<dots> = (\<Sum>i<?n. image_mset spec_free (mset (bin_of w i)))"
    using bin by (intro sum.cong) simp_all
  also have "\<dots> = image_mset spec_free (mset (Invocations (trace w)))"
    unfolding image_mset_sum [symmetric] using d by (simp add: dealt_def)
  finally show ?thesis .
qed

section \<open>Setting up\<close>

lemma register_workers_dealt:
  assumes "length targets \<le> length trs" "list_all (\<lambda>tr. length (Invocations tr) \<le> 2 ^ 50) trs"
    and "\<And>t. t \<in> set targets \<Longrightarrow> \<exists>c. requestChan (KeyFromObject t) = Ret c"
    and "\<And>k w. map_of ws k = Some w \<Longrightarrow> dealt k w \<and> requestChan k = Ret (toGateway w)"
  shows "\<exists>ws'. register_workers requestChan targets trs ws = Ret ws'
    \<and> dom (map_of ws') = dom (map_of ws) \<union> KeyFromObject ` set targets
    \<and> (\<forall>k w. map_of ws' k = Some w \<longrightarrow> dealt k w \<and> requestChan k = Ret (toGateway w))"
  using assms
proof (induction targets arbitrary: trs ws)
  case (Cons t targets)
  then obtain tr trs' where trs: "trs = tr # trs'"
    by (cases trs) auto
  obtain c where c: "requestChan (KeyFromObject t) = Ret c"
    using Cons.prems(3) by auto
  obtain w where w: "newWorker (KeyFromObject t) tr c = Ret w" "dealt (KeyFromObject t) w" "toGateway w = c"
    using newWorker_dealt [of tr "KeyFromObject t" c] Cons.prems(2) trs by auto
  have "\<exists>ws'. register_workers requestChan targets trs' (gm_set ws (KeyFromObject t) w) = Ret ws'
    \<and> dom (map_of ws') = dom (map_of (gm_set ws (KeyFromObject t) w)) \<union> KeyFromObject ` set targets
    \<and> (\<forall>k w. map_of ws' k = Some w \<longrightarrow> dealt k w \<and> requestChan k = Ret (toGateway w))"
    using Cons.prems trs w c by (intro Cons.IH) (auto split: if_splits)
  then show ?case
    using trs c w by auto
qed auto

lemma register_workers_chan:
  "register_workers requestChan targets trs ws = Ret ws' \<Longrightarrow> t \<in> set targets \<Longrightarrow> \<exists>c. requestChan (KeyFromObject t) = Ret c"
  by (induction targets arbitrary: trs ws) (auto simp: go_bind_eq_Ret Let_def split: list.splits)

section \<open>Properties\<close>

definition one_trace :: TraceSpec where
  "one_trace = \<lparr> DurationMinutes = 1, Invocations = [\<lparr> ArrivalTimeSec = Fin 0, RuntimeMilliSec = 5 \<rparr>, \<lparr> ArrivalTimeSec = Fin 2, RuntimeMilliSec = 7 \<rparr>] \<rparr>"

definition one_target :: ObjectMeta where
  "one_target = \<lparr> Namespace = ''ns'', Name = ''f'', Labels = [(''app'', ''f'')] \<rparr>"

text \<open>
  C17. The number of senders, computed with two floating-point divisions, is exactly the number of
  invocations over 60000 rounded up, for any trace of up to \<open>2^50\<close> invocations. Building the worker cannot
  panic; sender \<open>j\<close> gets the invocations at the positions congruent to \<open>j\<close>, in trace order, no sender
  gets more than 60000, and together the senders have every invocation exactly once.
\<close>
theorem worker_deals_exactly:
  assumes "length (Invocations tr) \<le> 2 ^ 50" and "n = (length (Invocations tr) + 59999) div 60000"
  shows "\<exists>w. newWorker key tr c = Ret w \<and> nSenders w = int n
    \<and> senderInvocations w = map (\<lambda>j. nths (Invocations tr) {m. m mod n = j}) [0..<n]
    \<and> mset (concat (senderInvocations w)) = mset (Invocations tr)
    \<and> list_all (\<lambda>bin. length bin \<le> 60000) (senderInvocations w)"
proof -
  let ?bins = "map (\<lambda>j. every_nth n j 0 (Invocations tr)) [0..<n]"
  have len: "length (Invocations tr) \<le> 60000 * n"
    using mult_div_mod_eq [of 60000 "length (Invocations tr) + 59999"] mod_less_divisor [of 60000 "length (Invocations tr) + 59999"]
    unfolding assms(2) by simp
  have "mset (concat ?bins) = (\<Sum>j<n. mset (every_nth n j 0 (Invocations tr)))"
    by (simp add: mset_concat comp_def sum_list_sum_nth atLeast0LessThan)
  also have "\<dots> = mset (Invocations tr)"
    using every_nth_partition [of n 0 "Invocations tr"] len by (cases "n = 0") auto
  finally have "mset (concat ?bins) = mset (Invocations tr)" .
  moreover have "list_all (\<lambda>bin. length bin \<le> 60000) ?bins"
    using every_nth_length [of n "Invocations tr" 60000] len by (auto simp: list_all_iff)
  ultimately show ?thesis
    using newWorker_eq [OF assms, of key c] by (simp add: every_nth_def)
qed

theorem worker_deals_exactly_witness:
  "\<exists>w. newWorker ''ns/f'' one_trace () = Ret w \<and> nSenders w = 1"
  using worker_deals_exactly [of one_trace 1 "''ns/f''" "()"] by (auto simp: one_trace_def)

text \<open>
  C12. Any run of the client's senders, in any interleaving: no two requests carry the same identifier, across all
  targets and senders; no request is sent before its arrival time in the trace; and when every sender
  has finished, the requests sent for a target are exactly the invocations of its trace, each once.
\<close>
theorem replay_sends_traces:
  assumes "Client_SetupWithManager requestChan (Inr targets) \<lparr> traces = trs, workers = [] \<rparr> = Ret (Inr c)"
    and "list_all (\<lambda>tr. length (Invocations tr) \<le> 2 ^ 50) trs"
    and "replay_run (Start t0 c) evs replay_init = Some s"
  shows "distinct (map (ID \<circ> snd) (sent s))
    \<and> (\<forall>((key, i), r) \<in> set (sent s). Target r = key \<and> time_Add t0 (TraceRelTime r) \<le> ClientSendTS r)
    \<and> (finished_send (Start t0 c) s \<longrightarrow> (\<forall>key w. map_of (workers c) key = Some w \<longrightarrow>
         {# (DurationMilliSec (snd x), TraceRelTime (snd x)). x \<in># mset (filter (\<lambda>x. fst (fst x) = key) (sent s)) #}
           = image_mset spec_free (mset (Invocations (trace w)))))"
proof -
  obtain ws where ws: "register_workers requestChan targets trs [] = Ret ws" "c = \<lparr> traces = trs, workers = ws \<rparr>"
    "length targets \<le> length trs"
    using assms(1) by (auto simp: Client_SetupWithManager_def go_bind_eq_Ret split: if_splits)
  have reg: "\<exists>c. requestChan (KeyFromObject t) = Ret c" if "t \<in> set targets" for t
    using register_workers_chan [OF ws(1) that] .
  have dealt: "dealt k w" if "map_of ws k = Some w" for k w
    using register_workers_dealt [OF ws(3) assms(2), of requestChan "[]"] reg ws(1) that by auto
  have start: "map_of (Start t0 c) key = map_option (replay_start t0) (map_of ws key)" for key
    by (simp add: Start_def ws(2) map_of_map)
  have "w_target w = k" if "map_of (Start t0 c) k = Some w" for k w
    using that dealt by (auto simp: start replay_start_def dealt_def)
  note inv = replay_run_inv [OF assms(3) replay_inv_init this]
  have "{# (DurationMilliSec (snd x), TraceRelTime (snd x)). x \<in># mset (filter (\<lambda>x. fst (fst x) = key) (sent s)) #}
      = image_mset spec_free (mset (Invocations (trace w)))"
    if "finished_send (Start t0 c) s" "map_of (workers c) key = Some w" for key w
  proof -
    have "dealt key (replay_start t0 w)"
      using dealt [of key w] that(2) ws(2) by (simp add: dealt_def replay_start_def bin_of_def)
    moreover have "map_of (Start t0 c) key = Some (replay_start t0 w)"
      using that(2) unfolding start by (simp add: ws(2))
    ultimately show ?thesis
      using finished_sends_trace [OF inv _ _ that(1)] by (simp add: replay_start_def)
  qed
  moreover have "clientStartTime w = t0" if "map_of (Start t0 c) k = Some w" for k w
    using that by (auto simp: start replay_start_def)
  ultimately show ?thesis
    using inv unfolding replay_inv_def by fastforce
qed

definition one_client :: "unit Client" where
  "one_client = \<lparr> traces = [one_trace], workers = [(''ns/f'', \<lparr> w_target = ''ns/f'', trace = one_trace, toGateway = (),
     clientStartTime = 0, nSenders = 1, senderInvocations = [Invocations one_trace] \<rparr>)] \<rparr>"

lemma one_client_setup:
  "Client_SetupWithManager (\<lambda>k. Ret ()) (Inr [one_target]) \<lparr> traces = [one_trace], workers = [] \<rparr> = Ret (Inr one_client)"
  by code_simp

lemma one_client_run:
  "map_option (\<lambda>s. (map (ID \<circ> snd) (sent s), finished_send (Start 0 one_client) s))
     (replay_run (Start 0 one_client) [(''ns/f'', 0, 1), (''ns/f'', 0, 2000000000)] replay_init)
   = Some ([''ns/f-0/0'', ''ns/f-0/1''], True)"
  by code_simp

theorem replay_sends_traces_witness:
  "\<exists>s. replay_run (Start 0 one_client) [(''ns/f'', 0, 1), (''ns/f'', 0, 2000000000)] replay_init = Some s
     \<and> finished_send (Start 0 one_client) s \<and> length (sent s) = 2 \<and> distinct (map (ID \<circ> snd) (sent s))"
proof -
  obtain s where s: "replay_run (Start 0 one_client) [(''ns/f'', 0, 1), (''ns/f'', 0, 2000000000)] replay_init = Some s"
    and p: "(map (ID \<circ> snd) (sent s), finished_send (Start 0 one_client) s) = ([''ns/f-0/0'', ''ns/f-0/1''], True)"
    using map_option_eq_Some [THEN iffD1, OF one_client_run] by (elim exE conjE)
  from p have f: "finished_send (Start 0 one_client) s" "map (ID \<circ> snd) (sent s) = [''ns/f-0/0'', ''ns/f-0/1'']"
    by (simp_all only: prod.inject)
  have "length (sent s) = 2"
    using arg_cong [OF f(2), of length] by simp
  moreover have "list_all (\<lambda>tr. length (Invocations tr) \<le> 2 ^ 50) [one_trace]"
    by (simp add: one_trace_def)
  ultimately show ?thesis
    using replay_sends_traces [OF one_client_setup _ s] s f(1) by blast
qed

subsection \<open>The output file\<close>

lemma write_loop_eq:
  assumes "0 < k"
  shows "write_loop (int k) (\<lambda>_. True) (map Some rs @ rest) v =
    write_loop (int k) (\<lambda>_. True) rest \<lparr> nTotal = nTotal v + int (length rs),
      nFailed = nFailed v + int (length (filter (\<lambda>r. Status r \<noteq> SUCCESS) rs)),
      outputFile = outputFile v @ map Response_Summary (nths rs {m. int k dvd nTotal v + 1 + int m}) \<rparr>"
proof (induction rs arbitrary: v)
  case (Cons r rs)
  let ?v = "v\<lparr> nTotal := nTotal v + 1, nFailed := (if Status r \<noteq> SUCCESS then nFailed v + 1 else nFailed v),
      outputFile := outputFile v @ (if int k dvd nTotal v + 1 then [Response_Summary r] else []) \<rparr>"
  have "write_loop (int k) (\<lambda>_. True) (map Some (r # rs) @ rest) v = write_loop (int k) (\<lambda>_. True) (map Some rs @ rest) ?v"
    using assms by (simp add: WriteString_def Let_def)
  also have "\<dots> = write_loop (int k) (\<lambda>_. True) rest \<lparr> nTotal = nTotal ?v + int (length rs),
      nFailed = nFailed ?v + int (length (filter (\<lambda>r. Status r \<noteq> SUCCESS) rs)),
      outputFile = outputFile ?v @ map Response_Summary (nths rs {m. int k dvd nTotal ?v + 1 + int m}) \<rparr>"
    by (rule Cons.IH)
  also have "\<lparr> nTotal = nTotal ?v + int (length rs),
      nFailed = nFailed ?v + int (length (filter (\<lambda>r. Status r \<noteq> SUCCESS) rs)),
      outputFile = outputFile ?v @ map Response_Summary (nths rs {m. int k dvd nTotal ?v + 1 + int m}) \<rparr>
    = \<lparr> nTotal = nTotal v + int (length (r # rs)),
      nFailed = nFailed v + int (length (filter (\<lambda>r. Status r \<noteq> SUCCESS) (r # rs))),
      outputFile = outputFile v @ map Response_Summary (nths (r # rs) {m. int k dvd nTotal v + 1 + int m}) \<rparr>"
    by (simp add: nths_Cons add.assoc)
  finally show ?case .
next
  case Nil
  then show ?case by (cases v) simp
qed

text \<open>
  If the file can be written and the sampling factor is positive, the writer ends with one summary line
  whose total is the number of responses, split into successes and failures; before it stand the summaries
  of every \<open>k\<close>-th response, in order. With factor 0 the first response makes it panic.
\<close>
theorem writer_counts:
  assumes "\<And>line. canWrite line"
  shows "(if k = 0 then rs \<noteq> [] \<longrightarrow> panics (Client_write 0 canWrite (map Some rs))
     else \<exists>v failed ok. Client_write (int k) canWrite (map Some rs) = Ret v
       \<and> outputFile v = map Response_Summary (nths rs {m. k dvd Suc m}) @ [summary_line (int (length rs)) failed]
       \<and> failed = int (length (filter (\<lambda>r. Status r \<noteq> SUCCESS) rs))
       \<and> ok = int (length (filter (\<lambda>r. Status r = SUCCESS) rs)) \<and> int (length rs) - failed = ok)"
proof (cases "k = 0")
  case True
  then show ?thesis
    by (cases rs) (simp_all add: Client_write_def)
next
  case False
  have "length (filter (\<lambda>r. Status r = SUCCESS) rs) + length (filter (\<lambda>r. Status r \<noteq> SUCCESS) rs) = length rs"
    by (rule sum_length_filter_compl)
  moreover have "canWrite = (\<lambda>_. True)"
    using assms by (simp add: fun_eq_iff)
  moreover have "{m. int k dvd 1 + int m} = {m. k dvd Suc m}"
    by (metis (no_types) int_dvd_int_iff of_nat_Suc)
  ultimately show ?thesis
    using False write_loop_eq [of k rs "[]"]
    by (simp add: Client_write_def WriteString_def)
qed

theorem writer_counts_witness:
  "\<exists>v failed. Client_write 1 (\<lambda>l. True) [Some (mk_Response sample_request FAIL_DISPATCH)] = Ret v
     \<and> outputFile v = [Response_Summary (mk_Response sample_request FAIL_DISPATCH), summary_line 1 failed] \<and> failed = 1"
  using writer_counts [of "\<lambda>l. True" 1 "[mk_Response sample_request FAIL_DISPATCH]"] by (simp add: nths_singleton)

end
