(* ===== verification/EndToEnd.thy ===== *)
theory EndToEnd
  imports Replay
begin

text \<open>
  The client, the gateway, the dispatchers and the autoscaler together. The locale \<open>counting_callbacks\<close> says
  what the relays need of an autoscaler's callbacks to keep its request count right, and both
  autoscalers are checked against it; the properties follow the requests from the client's
  workers to the gateway's channels and the relays' counts into the decider's concurrency metric.
\<close>

section \<open>Callbacks that count\<close>

text \<open>
  \<open>seen a key n\<close>: the autoscaler in state \<open>a\<close> counts \<open>n\<close> requests in flight at \<open>key\<close>. The bound is where
  floating-point counting ends.
\<close>

locale counting_callbacks =
  fixes cb :: "'a gw_callbacks" and seen :: "'a \<Rightarrow> string \<Rightarrow> int \<Rightarrow> bool"
  assumes ReqIn_counts: "on_ReqIn cb t req a = Ret a' \<Longrightarrow> seen a key n \<Longrightarrow> \<bar>n\<bar> < 2 ^ 53 \<Longrightarrow>
      seen a' key (if Target req = key then n + 1 else n)"
    and ReqOut_counts: "on_ReqOut cb t res a = Ret a' \<Longrightarrow> seen a key n \<Longrightarrow> \<bar>n\<bar> < 2 ^ 53 \<Longrightarrow>
      seen a' key (if Target (Source res) = key then n - 1 else n)"

lemma core_Target [simp]: "Target (core r) = Target r"
  by (simp add: core_def)

locale observed_gateway = gateway_env D pending CQ iq CS ir + counting_callbacks cb seen
  for D :: "('ev, 's) dispatcher_ops" and pending :: "'s \<Rightarrow> Request list"
    and CQ :: "(Request, 'rq) chann" and iq :: "'rq \<Rightarrow> Request list"
    and CS :: "(Response, 'rs) chann" and ir :: "'rs \<Rightarrow> Response list"
    and cb :: "'a gw_callbacks" and seen :: "'a \<Rightarrow> string \<Rightarrow> int \<Rightarrow> bool"
begin

definition outstanding :: "('rq, 'rs, 's, 'a) gw_sys \<Rightarrow> string \<Rightarrow> int" where
  "outstanding s key = nSend (gs_relay s key) - nRecv (gs_relay s key)"

text \<open>Past a relay there are only requests of its target, and the autoscaler counts what the relay does.\<close>

definition observed :: "string set \<Rightarrow> ('rq, 'rs, 's, 'a) gw_sys \<Rightarrow> bool" where
  "observed K s \<longleftrightarrow> (\<forall>key. \<forall>r \<in># inner s key. Target r = key) \<and> (\<forall>key \<in> K. seen (gs_as s) key (outstanding s key))"

lemma relay_req_cases:
  assumes "gw_step CQ CS D cb period (GRelayReq key t now) s = Some s'"
  obtains (reject) "gs_as s' = gs_as s" "gs_relay s' = gs_relay s" "inner s' = inner s"
    | (forward) req where "Target req = key" "on_ReqIn cb t req (gs_as s) = Ret (gs_as s')"
        "inner s' = (inner s)(key := add_mset (core req) (inner s key))"
        "outstanding s' = (outstanding s)(key := outstanding s key + 1)"
  using assms
proof (cases rule: relay_req_shape)
  case (reject c req c')
  then show ?thesis
    by (intro that(1)) (auto simp: between_def [abs_def])
next
  case (forward c req c' r a d)
  then show ?thesis
    by (intro that(2)) (auto simp: between_def [abs_def] outstanding_def [abs_def] fun_eq_iff in_chan_def gm_get_map_of)
qed

lemma relay_res_cases:
  assumes "gw_step CQ CS D cb period (GRelayRes key t) s = Some s'"
  obtains res where "core (Source res) \<in># inner s key" "on_ReqOut cb t res (gs_as s) = Ret (gs_as s')"
    "\<And>k. inner s' k \<subseteq># inner s k" "outstanding s' = (outstanding s)(key := outstanding s key - 1)"
  using assms
proof (cases rule: relay_res_shape)
  case (1 c res c' r a)
  have ic: "ir c = res # ir c'"
    using 1(2) by (simp add: s.recv_SomeD)
  show thesis
  proof (rule that)
    show "core (Source res) \<in># inner s key"
      using 1(1) ic by (simp add: between_def in_chan_def)
    show "on_ReqOut cb t res (gs_as s) = Ret (gs_as s')"
      using 1(5,6) by simp
    show "inner s' k \<subseteq># inner s k" for k
      using 1(1,6) ic by (cases "k = key") (simp_all add: between_def in_chan_def gm_get_map_of)
    show "outstanding s' = (outstanding s)(key := outstanding s key - 1)"
      using 1(3,4,6) by (auto simp: outstanding_def fun_eq_iff)
  qed
qed

text \<open>Every other step keeps what is past the relays, the counts and, but for its own steps, the autoscaler.\<close>

lemma other_steps:
  assumes "gw_step CQ CS D cb period ev s = Some s'"
    and "\<And>key t now. ev \<noteq> GRelayReq key t now" "\<And>key t. ev \<noteq> GRelayRes key t" "\<And>f. ev \<noteq> GAutoscaler f"
  shows "inner s' k = inner s k \<and> gs_as s' = gs_as s \<and> outstanding s' k = outstanding s k"
proof (cases ev)
  case (GSubmit key req)
  then show ?thesis
    using assms(1) by (auto simp: between_def outstanding_def split: option.splits)
next
  case (GDispIn key)
  then have "gw_step CQ CS D cb period (GDispIn key) s = Some s'"
    using assms(1) by simp
  then show ?thesis
  proof (cases rule: disp_in_shape)
    case (1 c req c' d)
    then show ?thesis
      using load_put [OF 1(3)] q.recv_SomeD [OF 1(2)] by (auto simp: between_def in_chan_def gm_get_map_of outstanding_def)
  qed
next
  case (GDisp key e)
  then have "gw_step CQ CS D cb period (GDisp key e) s = Some s'"
    using assms(1) by simp
  then show ?thesis
  proof (cases rule: disp_shape)
    case (1 d)
    then show ?thesis
      using load_step [OF 1(1,2)] by (auto simp: between_def outstanding_def)
  qed
next
  case (GDispOut key)
  then have "gw_step CQ CS D cb period (GDispOut key) s = Some s'"
    using assms(1) by simp
  then show ?thesis
  proof (cases rule: disp_out_shape)
    case (1 c res rest)
    then show ?thesis
      using load_pop [OF 1(2)] by (auto simp: between_def in_chan_def gm_get_map_of outstanding_def)
  qed
next
  case GDeliver
  then show ?thesis
    using assms(1) by (auto simp: between_def outstanding_def split: option.splits)
qed (use assms(2-4) in auto)

end

context observed_gateway
begin

lemma observed_step:
  assumes "gw_step CQ CS D cb period ev s = Some s'" "observed K s" "\<And>key. key \<in> K \<Longrightarrow> \<bar>outstanding s key\<bar> < 2 ^ 53"
    and "\<And>f a key n. ev = GAutoscaler f \<Longrightarrow> seen a key n \<Longrightarrow> seen (f a) key n"
  shows "observed K s' \<and> (\<forall>key. \<bar>outstanding s' key\<bar> \<le> \<bar>outstanding s key\<bar> + 1)"
proof -
  have tgt: "Target r = key" if "r \<in># inner s key" for r key
    using assms(2) that by (simp add: observed_def)
  have sn: "seen (gs_as s) key (outstanding s key)" if "key \<in> K" for key
    using assms(2) that by (simp add: observed_def)
  consider (req) key t now where "ev = GRelayReq key t now" | (res) key t where "ev = GRelayRes key t"
    | (own) f where "ev = GAutoscaler f"
    | (rest) "\<And>key t now. ev \<noteq> GRelayReq key t now" "\<And>key t. ev \<noteq> GRelayRes key t" "\<And>f. ev \<noteq> GAutoscaler f"
    by blast
  then show ?thesis
  proof cases
    case (req key t now)
    then have "gw_step CQ CS D cb period (GRelayReq key t now) s = Some s'"
      using assms(1) by simp
    then show ?thesis
    proof (cases rule: relay_req_cases)
      case reject
      then show ?thesis
        using assms(2) by (simp add: observed_def outstanding_def)
    next
      case (forward r)
      have "seen (gs_as s') k (outstanding s' k)" if "k \<in> K" for k
        using ReqIn_counts [OF forward(2) sn [OF that] assms(3) [OF that]] forward(1,4) by (simp split: if_split_asm)
      then show ?thesis
        using tgt forward(1,3,4) by (auto simp: observed_def split: if_split_asm)
    qed
  next
    case (res key t)
    then obtain r where r: "core (Source r) \<in># inner s key" "on_ReqOut cb t r (gs_as s) = Ret (gs_as s')"
      "\<And>k. inner s' k \<subseteq># inner s k" "outstanding s' = (outstanding s)(key := outstanding s key - 1)"
      using relay_res_cases [of period key t s s'] assms(1) by metis
    have "seen (gs_as s') k (outstanding s' k)" if "k \<in> K" for k
      using ReqOut_counts [OF r(2) sn [OF that] assms(3) [OF that]] tgt [OF r(1)] r(4) by (simp split: if_split_asm)
    then show ?thesis
      using tgt r(3,4) mset_subset_eqD unfolding observed_def by fastforce
  next
    case (own f)
    then have "s' = s\<lparr> gs_as := f (gs_as s) \<rparr>"
      using assms(1) by simp
    then show ?thesis
      using assms(2,4) own by (simp add: observed_def outstanding_def between_def)
  next
    case rest
    note same = other_steps [OF assms(1) rest]
    then show ?thesis
      using assms(2) by (simp add: observed_def)
  qed
qed

lemma observed_run:
  assumes "gw_run CQ CS D cb period evs s = Some s'" "observed K s" "\<And>key. \<bar>outstanding s key\<bar> + int (length evs) \<le> 2 ^ 53"
    and "\<And>f a key n. GAutoscaler f \<in> set evs \<Longrightarrow> seen a key n \<Longrightarrow> seen (f a) key n"
  shows "observed K s'"
  using assms
proof (induction evs arbitrary: s)
  case (Cons ev evs)
  obtain s1 where s1: "gw_step CQ CS D cb period ev s = Some s1" "gw_run CQ CS D cb period evs s1 = Some s'"
    using Cons.prems(1) by (auto split: option.splits)
  have b: "\<bar>outstanding s key\<bar> < 2 ^ 53" for key
    using Cons.prems(3) [of key] by simp
  have step: "observed K s1" "\<bar>outstanding s1 key\<bar> \<le> \<bar>outstanding s key\<bar> + 1" for key
    using observed_step [OF s1(1) Cons.prems(2) b] Cons.prems(4) by (auto simp: list.set_intros)
  show ?case
  proof (rule Cons.IH [OF s1(2) step(1)])
    show "\<bar>outstanding s1 key\<bar> + int (length evs) \<le> 2 ^ 53" for key
      using step(2) [of key] Cons.prems(3) [of key] by simp
  qed (use Cons.prems(4) in auto)
qed simp

end

section \<open>The Knative autoscaler counts\<close>

definition kpa_seen :: "('b, 'w, 'q) anyAutoscaler option \<Rightarrow> string \<Rightarrow> int \<Rightarrow> bool" where
  "kpa_seen a key n \<longleftrightarrow> (\<exists>s d. a = Some (KPA_Autoscaler s) \<and> map_of (deciders s) key = Some d
     \<and> InstantConcurrency (stats (collector d)) = Fin (of_int n))"

definition kpa_callbacks ::
    "(string, 'q) workqueue \<Rightarrow> 'b timed_buckets \<Rightarrow> 'w time_window \<Rightarrow> ('b, 'w, 'q) anyAutoscaler option gw_callbacks" where
  "kpa_callbacks Q B W = \<lparr> on_ReqIn = k8s_onReqIn Q B W, on_ReqOut = k8s_onReqOut B W \<rparr>"

lemma KPA_concurrency:
  "InstantConcurrency (stats (collector (snd (KPA_ReqIn t d)))) = fadd (InstantConcurrency (stats (collector d))) (Fin 1)"
  "InstantConcurrency (stats (collector (snd (KPA_ReqOut t d)))) = fsub (InstantConcurrency (stats (collector d))) (Fin 1)"
  "InstantConcurrency (stats (collector (snd (Activate d)))) = InstantConcurrency (stats (collector d))"
  by (simp_all add: KPA_ReqIn_def KPA_ReqOut_def Stats_ReqIn_def Stats_ReqOut_def InstantConcurrency_def Activate_def Let_def)

interpretation kpa_counts: counting_callbacks "kpa_callbacks Q B W" kpa_seen
proof
  show "kpa_seen a' key (if Target req = key then n + 1 else n)"
    if c: "on_ReqIn (kpa_callbacks Q B W) t req a = Ret a'" "kpa_seen a key n" "\<bar>n\<bar> < 2 ^ 53" for t req a a' key n
  proof -
    obtain s d where s: "a = Some (KPA_Autoscaler s)" "map_of (deciders s) key = Some d"
        "InstantConcurrency (stats (collector d)) = Fin (of_int n)"
      using c(2) by (auto simp: kpa_seen_def)
    obtain s' where s': "ReqIn Q (KPA_ops B W) t req s = Ret s'" "a' = Some (KPA_Autoscaler s')"
      using c(1) s(1) by (auto simp: kpa_callbacks_def k8s_onReqIn_def go_bind_eq_Ret)
    obtain d0 where st: "started s" "map_of (deciders s) (Target req) = Some d0"
      using s'(1) by (auto simp: ReqIn_def gm_get_map_of Let_def split: if_splits option.splits)
    have "deciders s' = gm_set (deciders s) (Target req) (snd (Activate (snd (KPA_ReqIn t d0))))"
      using s'(1) by (auto simp: ReqIn_eq [OF st] Let_def)
    then show ?thesis
      using s s'(2) st(2) c(3) fadd_one [of n] by (auto simp: kpa_seen_def KPA_concurrency)
  qed
  show "kpa_seen a' key (if Target (Source res) = key then n - 1 else n)"
    if c: "on_ReqOut (kpa_callbacks Q B W) t res a = Ret a'" "kpa_seen a key n" "\<bar>n\<bar> < 2 ^ 53" for t res a a' key n
  proof -
    obtain s d where s: "a = Some (KPA_Autoscaler s)" "map_of (deciders s) key = Some d"
        "InstantConcurrency (stats (collector d)) = Fin (of_int n)"
      using c(2) by (auto simp: kpa_seen_def)
    obtain s' where s': "ReqOut (KPA_ops B W) t res s = Ret s'" "a' = Some (KPA_Autoscaler s')"
      using c(1) s(1) by (auto simp: kpa_callbacks_def k8s_onReqOut_def go_bind_eq_Ret)
    then obtain d0 where "map_of (deciders s) (Target (Source res)) = Some d0"
        "deciders s' = gm_set (deciders s) (Target (Source res)) (snd (KPA_ReqOut t d0))"
      by (auto simp: ReqOut_def gm_get_map_of Let_def split_beta split: if_splits option.splits)
    then show ?thesis
      using s s'(2) c(3) fsub_one [of n] by (auto simp: kpa_seen_def KPA_concurrency)
  qed
qed

text \<open>The gateway with pod dispatchers, over Go's maps and channels, under the Knative autoscaler.\<close>

interpretation kpa_observed: observed_gateway "pod_ops gomap_shared gochan" in_flight gochan "\<lambda>c. c" gochan "\<lambda>c. c" "kpa_callbacks Q B W" kpa_seen
  by (intro observed_gateway.intro pod_gw.gateway_env_axioms kpa_counts.counting_callbacks_axioms)

text \<open>The autoscaler's own goroutines: a tick, a worker taking a target, a scaling round, a collection.\<close>

datatype own_op =
  OwnTick string | OwnTake | OwnFinish string "Pod \<Rightarrow> bool" k8s_client scale_op gotime | OwnCollect string gotime

fun own_step ::
    "(string, 'q) workqueue \<Rightarrow> 'b timed_buckets \<Rightarrow> 'w time_window \<Rightarrow> own_op \<Rightarrow> (('b, 'w) KPADecider, 'q) autoscalerImpl
       \<Rightarrow> (('b, 'w) KPADecider, 'q) autoscalerImpl" where
  "own_step Q B W (OwnTick key) s = tickAutoScaler Q key s"
| "own_step Q B W OwnTake s = (case take_item Q s of None \<Rightarrow> s | Some (key, s') \<Rightarrow> s')"
| "own_step Q B W (OwnFinish key isPodReady cl sc now) s =
     (case finish_item Q (KPA_ops B W) isPodReady cl sc now key s of Ret s' \<Rightarrow> s' | Panic m \<Rightarrow> s)"
| "own_step Q B W (OwnCollect key now) s =
     (case gm_get (deciders s) key of None \<Rightarrow> s
      | Some d \<Rightarrow> set_decider key (d\<lparr> collector := collect B now (collector d) \<rparr>) s)"

fun own_event ::
    "(string, 'q) workqueue \<Rightarrow> 'b timed_buckets \<Rightarrow> 'w time_window \<Rightarrow> own_op \<Rightarrow> ('b, 'w, 'q) anyAutoscaler option
       \<Rightarrow> ('b, 'w, 'q) anyAutoscaler option" where
  "own_event Q B W op (Some (KPA_Autoscaler s)) = Some (KPA_Autoscaler (own_step Q B W op s))"
| "own_event Q B W op a = a"

lemma collect_concurrency: "InstantConcurrency (stats (collect B now c)) = InstantConcurrency (stats c)"
  by (simp add: collect_def Stats_Report_def Stats_reset_def InstantConcurrency_def Let_def split_beta)

lemma update_collector:
  "collector (snd (apply_delay W now n k)) = collector k" "collector (snd (apply_mode a c k)) = collector k"
  "collector (update_panicTime now b k) = collector k"
  by (simp_all add: apply_delay_def apply_mode_def update_panicTime_def Let_def split: option.splits)

lemma KPA_Reconcile_collector: "collector (snd (KPA_Reconcile B W now ready k)) = collector k"
  by (simp add: KPA_Reconcile_eq Let_def update_collector split_beta)

lemma own_step_concurrency:
  assumes "map_of (deciders s) key = Some d"
  shows "\<exists>d'. map_of (deciders (own_step Q B W op s)) key = Some d'
    \<and> InstantConcurrency (stats (collector d')) = InstantConcurrency (stats (collector d))"
proof (cases op)
  case (OwnTick k)
  then show ?thesis using assms by (simp add: tickAutoScaler_def)
next
  case OwnTake
  then show ?thesis using assms by (auto simp: take_item_def split: option.splits)
next
  case (OwnCollect k now)
  then show ?thesis
    using assms by (auto simp: gm_get_map_of collect_concurrency split: option.splits)
next
  case (OwnFinish k isPodReady cl sc now)
  show ?thesis
  proof (cases "finish_item Q (KPA_ops B W) isPodReady cl sc now k s")
    case (Ret s')
    then obtain err s1 where s1: "scale (KPA_ops B W) isPodReady cl sc now k s = Ret (err, s1)" "deciders s' = deciders s1"
      by (auto simp: finish_item_def go_bind_eq_Ret split: option.splits if_splits)
    then show ?thesis
      using scale_frame [OF s1(1)] assms OwnFinish Ret by (auto simp: gm_get_map_of KPA_Reconcile_collector)
  qed (use OwnFinish assms in simp)
qed

lemma own_event_keeps: "kpa_seen a key n \<Longrightarrow> kpa_seen (own_event Q B W op a) key n"
  using own_step_concurrency by (fastforce simp: kpa_seen_def)

context observed_gateway
begin

lemma seen_is_inner:
  assumes "gw_run CQ CS D cb period evs (gw_init CQ CS keys dinit a t) = Some s" "\<And>k. load (dinit k) = {#}"
    and "\<And>k. k \<in> set keys \<Longrightarrow> seen a k 0" "int (length evs) \<le> 2 ^ 53"
    and "\<And>f a key n. GAutoscaler f \<in> set evs \<Longrightarrow> seen a key n \<Longrightarrow> seen (f a) key n" "key \<in> set keys"
  shows "seen (gs_as s) key (int (size (inner s key)))"
proof -
  let ?s0 = "gw_init CQ CS keys dinit a t"
  have inner: "inner ?s0 k = {#}" for k
    by (rule gw_init_empty(3)) (rule assms(2))
  have start: "outstanding ?s0 k = 0" "gs_as ?s0 = a" for k
    by (simp_all add: outstanding_def gw_init_def relay_init_def)
  have "observed (set keys) ?s0"
    by (simp add: observed_def inner start assms(3))
  then have "observed (set keys) s"
    using assms(4,5) start(1) by (intro observed_run [OF assms(1)]) simp_all
  then show ?thesis
    using gw_run_init [OF assms(1,2), of key] assms(6) unfolding observed_def outstanding_def by metis
qed

end

lemma fresh_deciders_idle:
  assumes "key \<in> set keys"
  shows "kpa_seen (Some (KPA_Autoscaler (Run (NewKnativeAutoscaler Q B W cfg keys)))) key 0"
  using assms
  by (auto simp: kpa_seen_def Run_def NewKnativeAutoscaler_def kpa_deciders NewKPADecider_def NewCollector_def NewRequestStats_def
      InstantConcurrency_def Let_def)

section \<open>Properties\<close>

text \<open>
  C5. The autoscaler sees the load. In any run of the Kubernetes gateway under the Knative autoscaler, with clients,
  relays, dispatchers, scaling rounds, ticks and metric collections interleaved, the instant
  concurrency of a target's decider is exactly the number of its requests that are past the relay on the way in and
  not yet past it on the way out (for up to \<open>2^53\<close> events, where float counting is exact).
\<close>
theorem autoscaler_sees_outstanding:
  assumes "unbounded_chan CQ iq" "unbounded_chan CS ir"
    and "gw_run CQ CS (pod_ops S T) (kpa_callbacks Q B W) period evs
      (gw_init CQ CS keys (\<lambda>k. ds_init (pd k)) (Some (KPA_Autoscaler (Run (NewKnativeAutoscaler Q B W cfg keys)))) t) = Some s"
    and "\<And>f. GAutoscaler f \<in> set evs \<Longrightarrow> \<exists>op. f = own_event Q B W op"
    and "int (length evs) \<le> 2 ^ 53" and "key \<in> set keys"
  shows "\<exists>a d. gs_as s = Some (KPA_Autoscaler a) \<and> gm_get (deciders a) key = Some d
    \<and> InstantConcurrency (stats (collector d)) = Fin (of_int (int (size (between iq ir workload_of s key))))"
proof -
  have env: "gateway_env (pod_ops S T) in_flight CQ iq CS ir"
    unfolding gateway_env_def ops_sel by (intro conjI pod_request_dispatcher assms(1,2))
  have obs: "observed_gateway (pod_ops S T) in_flight CQ iq CS ir (kpa_callbacks Q B W) kpa_seen"
    by (intro observed_gateway.intro env kpa_counts.counting_callbacks_axioms)
  have load: "request_dispatcher.load in_flight (d_responses (pod_ops S T)) = workload_of"
    using request_dispatcher.load_def [OF pod_request_dispatcher [of S T]] by (simp add: workload_of_def fun_eq_iff)
  have "workload_of (ds_init (pd k)) = {#}" for k
    by (simp add: workload_of_def in_flight_def ds_init_def)
  then have "kpa_seen (gs_as s) key (int (size (between iq ir workload_of s key)))"
    using observed_gateway.seen_is_inner [OF obs assms(3) _ fresh_deciders_idle assms(5) _ assms(6)] assms(4) own_event_keeps
    unfolding load by blast
  then show ?thesis
    by (auto simp: kpa_seen_def gm_get_map_of)
qed

definition e2e_events :: "(nat disp_event, (float64, int list, string list \<times> string list) anyAutoscaler option) gw_event list" where
  "e2e_events = [GSubmit ''default/f'' sample_request, GAutoscaler (own_event list_queue last_value all_values (OwnTick ''default/f'')),
     GRelayReq ''default/f'' 1 2, GAutoscaler (own_event list_queue last_value all_values (OwnCollect ''default/f'' 3)), GDispIn ''default/f'']"

abbreviation e2e_init where
  "e2e_init \<equiv> gw_init gochan gochan [''default/f''] (\<lambda>k. ds_init empty_dispatcher)
     (Some (KPA_Autoscaler (Run (NewKnativeAutoscaler list_queue last_value all_values sample_kpa_config [''default/f''])))) (\<lambda>k. 0)"

lemma e2e_run:
  "map_option (\<lambda>s. size (between (\<lambda>c. c) (\<lambda>c. c) workload_of s ''default/f''))
     (gw_run gochan gochan (pod_ops gomap_shared gochan) (kpa_callbacks list_queue last_value all_values) tracingOutputPeriod e2e_events e2e_init) = Some 1"
  by code_simp

theorem autoscaler_sees_outstanding_witness:
  "\<exists>s a d. gw_run gochan gochan (pod_ops gomap_shared gochan) (kpa_callbacks list_queue last_value all_values) tracingOutputPeriod e2e_events e2e_init = Some s
     \<and> gs_as s = Some (KPA_Autoscaler a) \<and> gm_get (deciders a) ''default/f'' = Some d
     \<and> InstantConcurrency (stats (collector d)) = Fin 1"
proof -
  obtain s where s: "gw_run gochan gochan (pod_ops gomap_shared gochan) (kpa_callbacks list_queue last_value all_values) tracingOutputPeriod e2e_events e2e_init = Some s"
    and n: "size (between (\<lambda>c. c) (\<lambda>c. c) workload_of s ''default/f'') = 1"
    using map_option_eq_Some [THEN iffD1, OF e2e_run] by (elim exE conjE)
  have own: "\<exists>op. f = own_event list_queue last_value all_values op" if "GAutoscaler f \<in> set e2e_events" for f
    using that by (auto simp: e2e_events_def)
  have "int (length e2e_events) \<le> 2 ^ 53" "''default/f'' \<in> set [''default/f'']"
    by (simp_all add: e2e_events_def)
  from autoscaler_sees_outstanding [OF native.unbounded_chan_axioms native.unbounded_chan_axioms s own this]
  show ?thesis
    using s n by auto
qed

text \<open>
  The client fits the gateway. Once the gateway is set up on a list of deployments, setting up the client on
  the same list fails cleanly when there are too few traces, and otherwise cannot panic: every
  deployment gets a worker that sends into the gateway's channel for it. And no relay ever rejects what
  the worker of its target sends: the answer \<open>INVALID_TARGET\<close> cannot occur.
\<close>
theorem client_fits_gateway:
  assumes "NewK8sGateway CS timeout fw config = Inr g"
    and "k8s_SetUpWithManager CQ CS S T Q B W (Inr targets) g = Ret (Inr g')"
    and "list_all (\<lambda>tr. length (Invocations tr) \<le> 2 ^ 50) trs"
  shows "if length trs < length targets
    then \<exists>err. Client_SetupWithManager (RequestChan (gw_impl g')) (Inr targets) \<lparr> traces = trs, workers = [] \<rparr> = Ret (Inl err)
    else \<exists>c. Client_SetupWithManager (RequestChan (gw_impl g')) (Inr targets) \<lparr> traces = trs, workers = [] \<rparr> = Ret (Inr c)
      \<and> dom (map_of (workers c)) = KeyFromObject ` set targets
      \<and> (\<forall>key w. map_of (workers c) key = Some w \<longrightarrow> RequestChan (gw_impl g') key = Ret (toGateway w)
           \<and> (\<forall>period now r i m spec t. \<exists>l r' req. relay_request period key now (send_body w i m spec t) r = (l, Forward req, r')))"
proof (cases "length trs < length targets")
  case True
  then show ?thesis
    by (simp add: Client_SetupWithManager_def)
next
  case False
  have "gw_impl g' = gw_impl (register_all CQ CS S T targets g)"
    using assms(2) by (auto simp: k8s_SetUpWithManager_def Let_def go_bind_eq_Ret split: option.splits)
  then have chan: "RequestChan (gw_impl g') (KeyFromObject t) = Ret (ch_new CQ)" if "t \<in> set targets" for t
    using that by (simp add: RequestChan_def register_all_impl register_fold gm_get_map_of)
  obtain ws where ws: "register_workers (RequestChan (gw_impl g')) targets trs [] = Ret ws"
    "dom (map_of ws) = KeyFromObject ` set targets"
    "\<And>k w. map_of ws k = Some w \<Longrightarrow> dealt k w \<and> RequestChan (gw_impl g') k = Ret (toGateway w)"
    using register_workers_dealt [of targets trs "RequestChan (gw_impl g')" "[]"] False assms(3) chan by auto
  have "\<exists>l r' req. relay_request period key now (send_body w i m spec t) r = (l, Forward req, r')"
    if "map_of ws key = Some w" for key w period now r i m spec t
  proof -
    have "Target (send_body w i m spec t) = key"
      using ws(3) [OF that] by (simp add: send_body_def dealt_def)
    from relay_request_forward [OF this] show ?thesis by blast
  qed
  then show ?thesis
    using False ws by (auto simp: Client_SetupWithManager_def)
qed

definition e2e_deployment :: Deployment where
  "e2e_deployment = \<lparr> Namespace = ''ns'', Name = ''f'', Labels = [(''app'', ''f'')], Deleting = False, Replicas = None, TemplateLabels = [] \<rparr>"

theorem client_fits_gateway_witness:
  "\<exists>g' c. k8s_SetUpWithManager gochan gochan (gomap_shared :: ((string, unit) gomap, unit) sharedMap) gochan list_queue last_value all_values (Inr [e2e_deployment])
        \<lparr> gw_impl = newGatewayImpl gochan, dispatchTimeout = 5, dispatchers = [], gw_autoscaler = None, newAutoscalerFn = None \<rparr> = Ret (Inr g')
     \<and> Client_SetupWithManager (RequestChan (gw_impl g')) (Inr [e2e_deployment]) \<lparr> traces = [one_trace], workers = [] \<rparr> = Ret (Inr c)
     \<and> dom (map_of (workers c)) = {''ns/f''}"
proof -
  let ?g = "\<lparr> gw_impl = newGatewayImpl gochan, dispatchTimeout = 5, dispatchers = [], gw_autoscaler = None, newAutoscalerFn = None \<rparr>"
  have new: "NewK8sGateway gochan 5 ''none'' (Inr None) = Inr ?g"
    by (simp add: NewK8sGateway_def)
  obtain g' where g': "k8s_SetUpWithManager gochan gochan (gomap_shared :: ((string, unit) gomap, unit) sharedMap) gochan list_queue last_value all_values (Inr [e2e_deployment]) ?g = Ret (Inr g')"
    by (simp add: k8s_SetUpWithManager_def Let_def)
  have bound: "list_all (\<lambda>tr. length (Invocations tr) \<le> 2 ^ 50) [one_trace]"
    by (simp add: one_trace_def)
  have enough: "\<not> length [one_trace] < length [e2e_deployment]"
    by simp
  have key: "KeyFromObject e2e_deployment = ''ns/f''"
    by (simp add: e2e_deployment_def KeyFromObject_def label_def gm_get_def)
  obtain c where c: "Client_SetupWithManager (RequestChan (gw_impl g')) (Inr [e2e_deployment]) \<lparr> traces = [one_trace], workers = [] \<rparr> = Ret (Inr c)"
      "dom (map_of (workers c)) = KeyFromObject ` set [e2e_deployment]"
    using client_fits_gateway [OF new g' bound] unfolding if_not_P [OF enough] by (elim exE conjE)
  then have "dom (map_of (workers c)) = {''ns/f''}"
    by (simp add: key)
  then show ?thesis
    using g' c(1) by (intro exI conjI)
qed

end
