(* ===== verification/Monitor.thy ===== *)
theory Monitor
  imports Kubelet "HOL-Library.Signed_Division"
begin

text \<open>
  The pod monitors of the microbenchmarks, \<open>experiments/microbench/breakdown/kubelet/monitor.go\<close> and
  \<open>experiments/microbench/e2e/common.go\<close>. A monitor watches pod events and releases a \<open>sync.WaitGroup\<close>
  when the pods the experiment waits for have been seen; the times of first sight give the latency
  it reports. The locale \<open>once_counter\<close> says what both have in common, that each expected key is
  counted once; its interpretations are the two expectation types.
\<close>

section \<open>Wait groups\<close>

text \<open>The counter of a \<open>sync.WaitGroup\<close> is 32 bits wide, and \<open>Add\<close> panics when it becomes negative.\<close>

definition wg_Add :: "int \<Rightarrow> int \<Rightarrow> int go" where
  "wg_Add counter n =
     (let v = int32_of (counter + n) in if v < 0 then Panic ''sync: negative WaitGroup counter'' else Ret v)"

definition wg_Done :: "int \<Rightarrow> int go" where
  "wg_Done counter = wg_Add counter (- 1)"

lemma wg_Add_exact [go_simps]: "0 \<le> n \<Longrightarrow> n < 2 ^ 31 \<Longrightarrow> wg_Add 0 n = Ret n"
  by (simp add: wg_Add_def)

lemma wg_Add_range: "wg_Add c n = Ret c' \<Longrightarrow> 0 \<le> c' \<and> c' < 2 ^ 31"
  using int32_of_range(2) [of "c + n"] by (auto simp: wg_Add_def Let_def split: if_splits)

lemma wg_Done_pos [go_simps]: "0 < c \<Longrightarrow> c < 2 ^ 31 \<Longrightarrow> wg_Done c = Ret (c - 1)"
  by (simp add: wg_Done_def wg_Add_def)

lemma wg_Done_zero [go_simps]: "wg_Done 0 = Panic ''sync: negative WaitGroup counter''"
  by (simp add: wg_Done_def wg_Add_def)

section \<open>Pod events\<close>

text \<open>
  What the controller delivers to \<open>handler.Funcs\<close>. \<open>kdutil\<close> and the predicates of controller-runtime are
  parameters; \<open>b_NewPredicateFuncs\<close> turns a filter on objects into one on events.
\<close>

datatype pod_event = CreateEvent kpod | UpdateEvent kpod kpod | DeleteEvent kpod | GenericEvent kpod

record bench_lib =
  b_IsManaged :: "kpod \<Rightarrow> bool"
  b_IsPodReady :: "kpod \<Rightarrow> bool"
  b_OwnerNameLabel :: string
  b_NewPredicateFuncs :: "(kpod \<Rightarrow> bool) \<Rightarrow> pod_event \<Rightarrow> bool"

definition podKey :: "'a ObjectMeta_scheme \<Rightarrow> string" where
  "podKey pod = Namespace pod @ ''/'' @ Name pod"

section \<open>The monitor of the kubelet breakdown\<close>

text \<open>\<open>ex_wg\<close> is the counter of the wait group the pointer \<open>wg\<close> refers to, \<open>None\<close> where it is nil.\<close>

record kb_Expectation =
  ex_wg :: "int option"
  desired :: "(string, gotime) gomap"

definition kb_NewExpectation :: kb_Expectation where
  "kb_NewExpectation = \<lparr> ex_wg = None, desired = [] \<rparr>"

definition infoKey :: "'x PodInfo_scheme \<Rightarrow> string" where
  "infoKey podInfo = InfoNamespace podInfo @ ''/'' @ InfoName podInfo"

definition kb_Expectation_Watch :: "int \<Rightarrow> 'x PodInfo_scheme list \<Rightarrow> kb_Expectation \<Rightarrow> kb_Expectation" where
  "kb_Expectation_Watch wg podInfos s =
     s\<lparr> ex_wg := Some wg, desired := foldl (\<lambda>m podInfo. gm_set m (infoKey podInfo) zeroTime) (desired s) podInfos \<rparr>"

text \<open>\<open>Done\<close>, the key of the pod computed first.\<close>

definition kb_Done_key :: "gotime \<Rightarrow> string \<Rightarrow> kb_Expectation \<Rightarrow> (bool \<times> kb_Expectation) go" where
  "kb_Done_key now key s =
     (case ex_wg s of
        None \<Rightarrow> Ret (False, s)
      | Some wg \<Rightarrow>
          (case gm_get (desired s) key of
             None \<Rightarrow> Ret (False, s)
           | Some t \<Rightarrow>
               if IsZero t
               then go_bind (wg_Done wg) (\<lambda>wg'. Ret (True, s\<lparr> desired := gm_set (desired s) key now, ex_wg := Some wg' \<rparr>))
               else Ret (False, s)))"

definition kb_Done :: "gotime \<Rightarrow> kpod \<Rightarrow> kb_Expectation \<Rightarrow> (bool \<times> kb_Expectation) go" where
  "kb_Done now pod s = kb_Done_key now (podKey pod) s"

record kb_PodMonitor =
  mon_ownerName :: string
  mon_expectation :: kb_Expectation

definition kb_NewPodMonitor :: "string \<Rightarrow> kb_PodMonitor" where
  "kb_NewPodMonitor ownerName = \<lparr> mon_ownerName = ownerName, mon_expectation = kb_NewExpectation \<rparr>"

definition kb_Watch :: "int \<Rightarrow> 'x PodInfo_scheme list \<Rightarrow> kb_PodMonitor \<Rightarrow> kb_PodMonitor" where
  "kb_Watch wg podInfos m = m\<lparr> mon_expectation := kb_Expectation_Watch wg podInfos (mon_expectation m) \<rparr>"

text \<open>The index of the 90th percentile in the sorted times, and the duration since \<open>start\<close>.\<close>

definition percentile_since :: "gotime list \<Rightarrow> gotime \<Rightarrow> duration go" where
  "percentile_since seenTimes start =
     (if length seenTimes = 0 then Ret 0
      else let times = sort seenTimes; idx = (90 * length seenTimes) div 100
           in if idx < length times then Ret (time_Sub (times ! idx) start) else Panic ''index out of range'')"

definition kb_Since :: "gotime \<Rightarrow> kb_PodMonitor \<Rightarrow> duration go" where
  "kb_Since start m = percentile_since (map snd (desired (mon_expectation m))) start"

definition kb_FilterEvent :: "bench_lib \<Rightarrow> kb_PodMonitor \<Rightarrow> kpod \<Rightarrow> bool" where
  "kb_FilterEvent L m object \<longleftrightarrow> b_IsManaged L object \<and> label (Labels object) (b_OwnerNameLabel L) = mon_ownerName m"

definition kb_Done_on :: "gotime \<Rightarrow> kpod \<Rightarrow> kb_PodMonitor \<Rightarrow> kb_PodMonitor go" where
  "kb_Done_on now pod m = go_bind (kb_Done now pod (mon_expectation m)) (\<lambda>(_, e). Ret (m\<lparr> mon_expectation := e \<rparr>))"

definition kb_HandlePodEvent :: "bench_lib \<Rightarrow> gotime \<Rightarrow> kpod option \<Rightarrow> kpod option \<Rightarrow> kb_PodMonitor \<Rightarrow> kb_PodMonitor go" where
  "kb_HandlePodEvent L now old new m =
     (case new of
        None \<Rightarrow> (case old of None \<Rightarrow> Panic ''nil pointer dereference'' | Some pod \<Rightarrow> kb_Done_on now pod m)
      | Some pod \<Rightarrow> if b_IsPodReady L pod then kb_Done_on now pod m else Ret m)"

text \<open>The handlers that \<open>SetupWithManager\<close> installs, behind its event filter.\<close>

fun kb_Funcs :: "bench_lib \<Rightarrow> gotime \<Rightarrow> pod_event \<Rightarrow> kb_PodMonitor \<Rightarrow> kb_PodMonitor go" where
  "kb_Funcs L now (CreateEvent pod) m = kb_HandlePodEvent L now None (Some pod) m"
| "kb_Funcs L now (UpdateEvent old new) m = kb_HandlePodEvent L now (Some old) (Some new) m"
| "kb_Funcs L now (DeleteEvent pod) m = kb_HandlePodEvent L now (Some pod) None m"
| "kb_Funcs L now (GenericEvent pod) m = Ret m"

definition kb_event :: "bench_lib \<Rightarrow> gotime \<Rightarrow> pod_event \<Rightarrow> kb_PodMonitor \<Rightarrow> kb_PodMonitor go" where
  "kb_event L now ev m = (if b_NewPredicateFuncs L (kb_FilterEvent L m) ev then kb_Funcs L now ev m else Ret m)"

fun kb_events :: "bench_lib \<Rightarrow> (gotime \<times> pod_event) list \<Rightarrow> kb_PodMonitor \<Rightarrow> kb_PodMonitor go" where
  "kb_events L [] m = Ret m"
| "kb_events L ((now, ev) # evs) m = go_bind (kb_event L now ev m) (kb_events L evs)"

text \<open>The pods to bind, \<open>newPodInfos\<close> of \<open>breakdown/kubelet/client.go\<close>; \<open>ts\<close> is \<open>metav1.Now()\<close>, \<open>nano\<close> its \<open>UnixNano()\<close>.\<close>

record benchPodInfo = PodInfo +
  InfoNodeName :: string
  InfoCreationTimestamp :: gotime

definition newPodInfos :: "string \<Rightarrow> string \<Rightarrow> string \<Rightarrow> int \<Rightarrow> gotime \<Rightarrow> int \<Rightarrow> benchPodInfo list go" where
  "newPodInfos ownerNamespace ownerName node nPods ts nano =
     (if nPods < 0 then Panic ''makeslice: len out of range''
      else Ret (map (\<lambda>i. \<lparr> InfoNamespace = ownerNamespace,
             InfoName = ownerName @ ''-'' @ dec nano @ ''-'' @ dec i, OwnerName = ownerName,
             InfoNodeName = node, InfoCreationTimestamp = ts \<rparr>) [0..nPods - 1]))"

section \<open>The monitor of the end-to-end experiment\<close>

text \<open>
  The monitor maps a target's key to a pointer to its expectation: \<open>e_cells\<close> are the expectations
  allocated so far, a pointer is an index into them. All of them share the one wait group of \<open>run\<close>,
  whose counter is \<open>e_wg\<close>.
\<close>

record e2e_Expectation =
  ee_seen :: "(string, gotime) gomap"

record 'm e2e_state =
  em_selector :: string
  em_expectations :: 'm
  e_cells :: "e2e_Expectation list"
  e_wg :: int

definition e2e_NewExpectation :: e2e_Expectation where
  "e2e_NewExpectation = \<lparr> ee_seen = [] \<rparr>"

definition e2e_NewPodMonitor :: "('m, nat) sharedMap \<Rightarrow> string \<Rightarrow> 'm e2e_state" where
  "e2e_NewPodMonitor S selector = \<lparr> em_selector = selector, em_expectations = sm_new S, e_cells = [], e_wg = 0 \<rparr>"

definition e2e_Done_key :: "gotime \<Rightarrow> string \<Rightarrow> nat \<Rightarrow> 'm e2e_state \<Rightarrow> (bool \<times> 'm e2e_state) go" where
  "e2e_Done_key now key s st =
     (case gm_get (ee_seen (e_cells st ! s)) key of
        Some _ \<Rightarrow> Ret (False, st)
      | None \<Rightarrow>
          go_bind (wg_Done (e_wg st)) (\<lambda>wg.
            Ret (True, st\<lparr> e_cells := (e_cells st)[s := \<lparr> ee_seen = gm_set (ee_seen (e_cells st ! s)) key now \<rparr>],
                           e_wg := wg \<rparr>)))"

definition e2e_Done :: "gotime \<Rightarrow> kpod \<Rightarrow> nat \<Rightarrow> 'm e2e_state \<Rightarrow> (bool \<times> 'm e2e_state) go" where
  "e2e_Done now pod s st = e2e_Done_key now (podKey pod) s st"

definition e2e_Since :: "('m, nat) sharedMap \<Rightarrow> gotime \<Rightarrow> 'm e2e_state \<Rightarrow> duration go" where
  "e2e_Since S start st =
     percentile_since (concat (map (\<lambda>(_, s). map snd (ee_seen (e_cells st ! s))) (sm_Inner S (em_expectations st)))) start"

definition e2e_Watch :: "('m, nat) sharedMap \<Rightarrow> string \<Rightarrow> 'm e2e_state \<Rightarrow> 'm e2e_state" where
  "e2e_Watch S key st =
     st\<lparr> em_expectations := sm_Set S (em_expectations st) key (length (e_cells st)),
         e_cells := e_cells st @ [e2e_NewExpectation] \<rparr>"

definition e2e_FilterEvent :: "'m e2e_state \<Rightarrow> kpod \<Rightarrow> bool" where
  "e2e_FilterEvent st object \<longleftrightarrow> IsWorkload object \<and> label (Labels object) ''workload'' = em_selector st"

definition e2e_HandlePodEvent ::
    "bench_lib \<Rightarrow> ('m, nat) sharedMap \<Rightarrow> gotime \<Rightarrow> kpod option \<Rightarrow> kpod option \<Rightarrow> 'm e2e_state \<Rightarrow> 'm e2e_state go" where
  "e2e_HandlePodEvent L S now old new st =
     (case new of
        None \<Rightarrow> Ret st
      | Some pod \<Rightarrow>
          if b_IsPodReady L pod
          then (case sm_Get S (em_expectations st) (KeyFromObject pod) of
                  None \<Rightarrow> Ret st
                | Some s \<Rightarrow> go_bind (e2e_Done now pod s st) (\<lambda>(_, st'). Ret st'))
          else Ret st)"

fun e2e_Funcs :: "bench_lib \<Rightarrow> ('m, nat) sharedMap \<Rightarrow> gotime \<Rightarrow> pod_event \<Rightarrow> 'm e2e_state \<Rightarrow> 'm e2e_state go" where
  "e2e_Funcs L S now (CreateEvent pod) st = e2e_HandlePodEvent L S now None (Some pod) st"
| "e2e_Funcs L S now (UpdateEvent old new) st = e2e_HandlePodEvent L S now (Some old) (Some new) st"
| "e2e_Funcs L S now (DeleteEvent pod) st = e2e_HandlePodEvent L S now (Some pod) None st"
| "e2e_Funcs L S now (GenericEvent pod) st = Ret st"

definition e2e_event :: "bench_lib \<Rightarrow> ('m, nat) sharedMap \<Rightarrow> gotime \<Rightarrow> pod_event \<Rightarrow> 'm e2e_state \<Rightarrow> 'm e2e_state go" where
  "e2e_event L S now ev st = (if b_NewPredicateFuncs L (e2e_FilterEvent st) ev then e2e_Funcs L S now ev st else Ret st)"

fun e2e_events :: "bench_lib \<Rightarrow> ('m, nat) sharedMap \<Rightarrow> (gotime \<times> pod_event) list \<Rightarrow> 'm e2e_state \<Rightarrow> 'm e2e_state go" where
  "e2e_events L S [] st = Ret st"
| "e2e_events L S ((now, ev) # evs) st = go_bind (e2e_event L S now ev st) (e2e_events L S evs)"

text \<open>How \<open>run\<close> prepares the wait: pods per target, the wait group, one expectation for each target.\<close>

definition nPodsPerTarget :: "int \<Rightarrow> nat \<Rightarrow> int" where
  "nPodsPerTarget nPods targets = (let n = nPods sdiv int targets in if n = 0 then 1 else n)"

definition e2e_prepare :: "('m, nat) sharedMap \<Rightarrow> int \<Rightarrow> 'd ObjectMeta_scheme list \<Rightarrow> 'm e2e_state \<Rightarrow> 'm e2e_state go" where
  "e2e_prepare S nPods targets st =
     go_bind (wg_Add (e_wg st) (int64_of (nPodsPerTarget nPods (length targets) * int (length targets)))) (\<lambda>wg.
       Ret (foldl (\<lambda>st target. e2e_Watch S (KeyFromObject target) st) (st\<lparr> e_wg := wg \<rparr>) targets))"

section \<open>Counting each key once\<close>

text \<open>
  \<open>mark t k\<close> reports that \<open>k\<close> was seen at \<open>t\<close>. Of the keys that are expected the first report is recorded
  and takes one from the counter; a report that would take the counter below zero panics.
\<close>

locale once_counter =
  fixes mark :: "gotime \<Rightarrow> 'k \<Rightarrow> 's \<Rightarrow> 's go"
    and expects :: "'s \<Rightarrow> 'k \<Rightarrow> bool" and sighted :: "'s \<Rightarrow> 'k \<Rightarrow> gotime option" and left :: "'s \<Rightarrow> int"
    and inv :: "'s \<Rightarrow> bool" and valid :: "gotime \<Rightarrow> bool"
  assumes mark_first: "inv s \<Longrightarrow> valid t \<Longrightarrow> expects s k \<Longrightarrow> sighted s k = None \<Longrightarrow> 0 < left s \<Longrightarrow>
      \<exists>s'. mark t k s = Ret s' \<and> inv s' \<and> expects s' = expects s \<and> sighted s' = (sighted s)(k \<mapsto> t) \<and> left s' = left s - 1"
    and mark_over: "inv s \<Longrightarrow> expects s k \<Longrightarrow> sighted s k = None \<Longrightarrow> left s = 0 \<Longrightarrow> panics (mark t k s)"
    and mark_other: "inv s \<Longrightarrow> \<not> (expects s k \<and> sighted s k = None) \<Longrightarrow> mark t k s = Ret s"
    and left_nonneg: "inv s \<Longrightarrow> 0 \<le> left s"
begin

fun marks :: "(gotime \<times> 'k) list \<Rightarrow> 's \<Rightarrow> 's go" where
  "marks [] s = Ret s"
| "marks ((t, k) # evs) s = go_bind (mark t k s) (marks evs)"

definition fresh :: "(gotime \<times> 'k) list \<Rightarrow> 's \<Rightarrow> 'k set" where
  "fresh evs s = {k \<in> snd ` set evs. expects s k \<and> sighted s k = None}"

abbreviation first_time :: "(gotime \<times> 'k) list \<Rightarrow> 'k \<Rightarrow> gotime option" where
  "first_time evs \<equiv> map_of (map (\<lambda>(t, k). (k, t)) evs)"

lemma finite_fresh [simp]: "finite (fresh evs s)"
  by (simp add: fresh_def)

lemma fresh_skip: "\<not> (expects s k \<and> sighted s k = None) \<Longrightarrow> fresh ((t, k) # evs) s = fresh evs s"
  by (auto simp: fresh_def)

lemma fresh_first:
  "expects s k \<Longrightarrow> sighted s k = None \<Longrightarrow> expects s' = expects s \<Longrightarrow> sighted s' = (sighted s)(k \<mapsto> t) \<Longrightarrow>
   fresh ((t, k) # evs) s = insert k (fresh evs s') \<and> k \<notin> fresh evs s'"
  by (auto simp: fresh_def)

lemma marks_exact:
  assumes "inv s" "list_all (valid \<circ> fst) evs"
  shows "if int (card (fresh evs s)) \<le> left s
    then \<exists>s'. marks evs s = Ret s' \<and> inv s' \<and> expects s' = expects s \<and> left s' = left s - int (card (fresh evs s))
          \<and> sighted s' = (\<lambda>k. if k \<in> fresh evs s then first_time evs k else sighted s k)
    else panics (marks evs s)"
  using assms
proof (induction evs arbitrary: s)
  case Nil
  then show ?case by (simp add: fresh_def left_nonneg)
next
  case (Cons e evs)
  obtain t k where e: "e = (t, k)" by (cases e)
  show ?case
  proof (cases "expects s k \<and> sighted s k = None")
    case False
    then have "k \<notin> fresh evs s" by (auto simp: fresh_def)
    then have "(\<lambda>k'. if k' \<in> fresh evs s then first_time (e # evs) k' else sighted s k')
        = (\<lambda>k'. if k' \<in> fresh evs s then first_time evs k' else sighted s k')"
      by (auto simp: e fun_eq_iff)
    then show ?thesis
      using Cons.IH [of s] Cons.prems False by (simp add: e fresh_skip mark_other)
  next
    case True
    show ?thesis
    proof (cases "left s = 0")
      case z: True
      have "k \<in> fresh (e # evs) s" using True by (simp add: fresh_def e)
      then have "0 < card (fresh (e # evs) s)" by (auto simp: card_gt_0_iff)
      moreover have "panics (marks (e # evs) s)"
        using mark_over [of s k t] True z Cons.prems by (simp add: e panics_go_bind)
      ultimately show ?thesis using z by auto
    next
      case False
      then have "0 < left s" using left_nonneg [of s] Cons.prems(1) by simp
      then obtain s' where s': "mark t k s = Ret s'" "inv s'" "expects s' = expects s" "sighted s' = (sighted s)(k \<mapsto> t)" "left s' = left s - 1"
        using mark_first [of s t k] True Cons.prems by (auto simp: e)
      have fr: "fresh (e # evs) s = insert k (fresh evs s')" "k \<notin> fresh evs s'"
        using fresh_first [of s k s' t evs] True s' by (simp_all add: e)
      have c: "int (card (fresh (e # evs) s)) = int (card (fresh evs s')) + 1"
        using fr by simp
      have sg: "(\<lambda>k'. if k' \<in> fresh (e # evs) s then first_time (e # evs) k' else sighted s k')
          = (\<lambda>k'. if k' \<in> fresh evs s' then first_time evs k' else sighted s' k')"
        using fr s'(4) by (auto simp: e fun_eq_iff)
      have m: "marks (e # evs) s = marks evs s'"
        using s'(1) by (simp add: e)
      show ?thesis
        using Cons.IH [OF s'(2)] Cons.prems s'(3,5) unfolding c sg m by (auto simp: algebra_simps)
    qed
  qed
qed

end

section \<open>Percentiles\<close>

lemma index_in_range: "ts \<noteq> [] \<Longrightarrow> (90 * length ts) div 100 < length ts"
  by (cases ts) simp_all

lemma sorted_nth_le_count:
  fixes ys :: "'a :: linorder list"
  assumes "sorted ys" "i < length ys"
  shows "Suc i \<le> length (filter (\<lambda>y. y \<le> ys ! i) ys)"
proof -
  have "\<forall>y \<in> set (take (Suc i) ys). y \<le> ys ! i"
    using assms by (auto simp: in_set_conv_nth sorted_iff_nth_mono)
  then have "filter (\<lambda>y. y \<le> ys ! i) (take (Suc i) ys) = take (Suc i) ys"
    by (simp add: filter_id_conv)
  moreover have "filter (\<lambda>y. y \<le> ys ! i) ys
      = filter (\<lambda>y. y \<le> ys ! i) (take (Suc i) ys) @ filter (\<lambda>y. y \<le> ys ! i) (drop (Suc i) ys)"
    by (metis append_take_drop_id filter_append)
  ultimately show ?thesis using assms(2) by simp
qed

lemma sorted_nth_less_count:
  fixes ys :: "'a :: linorder list"
  assumes "sorted ys" "i < length ys"
  shows "length (filter (\<lambda>y. y < ys ! i) ys) \<le> i"
proof -
  have "\<forall>y \<in> set (drop i ys). \<not> y < ys ! i"
    using assms by (auto simp: in_set_conv_nth sorted_iff_nth_mono not_less)
  then have "filter (\<lambda>y. y < ys ! i) (drop i ys) = []"
    by (simp add: filter_empty_conv)
  moreover have "filter (\<lambda>y. y < ys ! i) ys = filter (\<lambda>y. y < ys ! i) (take i ys) @ filter (\<lambda>y. y < ys ! i) (drop i ys)"
    by (metis append_take_drop_id filter_append)
  ultimately show ?thesis
    using length_filter_le [of "\<lambda>y. y < ys ! i" "take i ys"] by simp
qed

lemma length_filter_sort: "length (filter P (sort ts)) = length (filter P ts)"
  by (metis mset_filter mset_sort size_mset)

lemma percentile_since_perm: "mset ts = mset us \<Longrightarrow> percentile_since ts start = percentile_since us start"
proof -
  assume p: "mset ts = mset us"
  then have "sort ts = sort us" "length ts = length us"
    by (metis sorted_list_of_multiset_mset) (metis p size_mset)
  then show ?thesis by (simp add: percentile_since_def)
qed

lemma percentile_since_rank:
  assumes "ts \<noteq> []"
  shows "\<exists>p \<in> set ts. percentile_since ts start = Ret (time_Sub p start)
    \<and> 90 * length ts < 100 * length (filter (\<lambda>t. t \<le> p) ts)
    \<and> 100 * length (filter (\<lambda>t. t < p) ts) \<le> 90 * length ts"
proof -
  let ?i = "(90 * length ts) div 100" and ?ys = "sort ts"
  have i: "?i < length ?ys" using index_in_range [OF assms] by simp
  have "?ys ! ?i \<in> set ts" using nth_mem [OF i] by simp
  moreover have "percentile_since ts start = Ret (time_Sub (?ys ! ?i) start)"
    using assms i by (simp add: percentile_since_def Let_def)
  moreover have "90 * length ts < 100 * length (filter (\<lambda>t. t \<le> ?ys ! ?i) ts)"
    using sorted_nth_le_count [OF sorted_sort i] unfolding length_filter_sort by linarith
  moreover have "100 * length (filter (\<lambda>t. t < ?ys ! ?i) ts) \<le> 90 * length ts"
    using sorted_nth_less_count [OF sorted_sort i] unfolding length_filter_sort by linarith
  ultimately show ?thesis by blast
qed

section \<open>The two expectations\<close>

definition kb_mark :: "gotime \<Rightarrow> string \<Rightarrow> kb_Expectation \<Rightarrow> kb_Expectation go" where
  "kb_mark t key e = go_bind (kb_Done_key t key e) (\<lambda>(_, e'). Ret e')"

definition kb_expects :: "kb_Expectation \<Rightarrow> string \<Rightarrow> bool" where
  "kb_expects e key \<longleftrightarrow> map_of (desired e) key \<noteq> None"

definition kb_sighted :: "kb_Expectation \<Rightarrow> string \<Rightarrow> gotime option" where
  "kb_sighted e key = (case map_of (desired e) key of None \<Rightarrow> None | Some t \<Rightarrow> if IsZero t then None else Some t)"

definition kb_left :: "kb_Expectation \<Rightarrow> int" where
  "kb_left e = (case ex_wg e of None \<Rightarrow> 0 | Some c \<Rightarrow> c)"

definition kb_inv :: "kb_Expectation \<Rightarrow> bool" where
  "kb_inv e \<longleftrightarrow> ex_wg e \<noteq> None \<and> 0 \<le> kb_left e \<and> kb_left e < 2 ^ 31 \<and> distinct (gm_keys (desired e))"

lemmas kb_defs = kb_mark_def kb_Done_key_def kb_expects_def kb_sighted_def kb_left_def kb_inv_def gm_get_map_of

interpretation kb: once_counter kb_mark kb_expects kb_sighted kb_left kb_inv "\<lambda>t. \<not> IsZero t"
proof
  fix e :: kb_Expectation and k t
  show "\<exists>e'. kb_mark t k e = Ret e' \<and> kb_inv e' \<and> kb_expects e' = kb_expects e \<and> kb_sighted e' = (kb_sighted e)(k \<mapsto> t) \<and> kb_left e' = kb_left e - 1"
    if asm: "kb_inv e" "\<not> IsZero t" "kb_expects e k" "kb_sighted e k = None" "0 < kb_left e"
  proof -
    obtain c z where c: "ex_wg e = Some c" "map_of (desired e) k = Some z" "IsZero z" "0 < c" "c < 2 ^ 31"
      using asm by (auto simp: kb_defs split: option.splits if_splits)
    let ?e = "e\<lparr> desired := gm_set (desired e) k t, ex_wg := Some (c - 1) \<rparr>"
    have "kb_mark t k e = Ret ?e"
      using c by (simp add: kb_mark_def kb_Done_key_def gm_get_map_of wg_Done_pos)
    moreover have "kb_inv ?e" "kb_expects ?e = kb_expects e" "kb_left ?e = kb_left e - 1"
      using asm(1) c by (auto simp: kb_inv_def kb_left_def kb_expects_def distinct_gm_set fun_eq_iff)
    moreover have "kb_sighted ?e = (kb_sighted e)(k \<mapsto> t)"
      using asm(2) by (auto simp: kb_sighted_def fun_eq_iff)
    ultimately show ?thesis by blast
  qed
  show "panics (kb_mark t k e)" if "kb_inv e" "kb_expects e k" "kb_sighted e k = None" "kb_left e = 0"
    using that by (auto simp: kb_defs wg_Done_zero split: option.splits if_splits)
  show "kb_mark t k e = Ret e" if "kb_inv e" "\<not> (kb_expects e k \<and> kb_sighted e k = None)"
    using that by (auto simp: kb_defs split: option.splits if_splits)
  show "0 \<le> kb_left e" if "kb_inv e"
    using that by (simp add: kb_inv_def)
qed

definition e2e_mark :: "('m, nat) sharedMap \<Rightarrow> gotime \<Rightarrow> string \<times> string \<Rightarrow> 'm e2e_state \<Rightarrow> 'm e2e_state go" where
  "e2e_mark S t k st = (case sm_Get S (em_expectations st) (fst k) of
      None \<Rightarrow> Ret st
    | Some s \<Rightarrow> go_bind (e2e_Done_key t (snd k) s st) (\<lambda>(_, st'). Ret st'))"

definition e2e_expects :: "('m, nat) sharedMap \<Rightarrow> 'm e2e_state \<Rightarrow> string \<times> string \<Rightarrow> bool" where
  "e2e_expects S st k \<longleftrightarrow> sm_Get S (em_expectations st) (fst k) \<noteq> None"

definition e2e_sighted :: "('m, nat) sharedMap \<Rightarrow> 'm e2e_state \<Rightarrow> string \<times> string \<Rightarrow> gotime option" where
  "e2e_sighted S st k = (case sm_Get S (em_expectations st) (fst k) of
      None \<Rightarrow> None | Some s \<Rightarrow> map_of (ee_seen (e_cells st ! s)) (snd k))"

definition e2e_inv :: "('m, nat) sharedMap \<Rightarrow> 'm e2e_state \<Rightarrow> bool" where
  "e2e_inv S st \<longleftrightarrow> 0 \<le> e_wg st \<and> e_wg st < 2 ^ 31
     \<and> (\<forall>k s. sm_Get S (em_expectations st) k = Some s \<longrightarrow> s < length (e_cells st))
     \<and> (\<forall>k k' s. sm_Get S (em_expectations st) k = Some s \<longrightarrow> sm_Get S (em_expectations st) k' = Some s \<longrightarrow> k = k')"

lemmas e2e_defs = e2e_mark_def e2e_Done_key_def e2e_expects_def e2e_sighted_def gm_get_map_of

lemma e2e_mark_first:
  assumes "e2e_inv S st" "e2e_expects S st k" "e2e_sighted S st k = None" "0 < e_wg st"
  shows "\<exists>st'. e2e_mark S t k st = Ret st' \<and> e2e_inv S st' \<and> e2e_expects S st' = e2e_expects S st
     \<and> e2e_sighted S st' = (e2e_sighted S st)(k \<mapsto> t) \<and> e_wg st' = e_wg st - 1"
proof -
  obtain s where s: "sm_Get S (em_expectations st) (fst k) = Some s" "s < length (e_cells st)" "map_of (ee_seen (e_cells st ! s)) (snd k) = None"
    using assms(1-3) by (auto simp: e2e_inv_def e2e_expects_def e2e_sighted_def)
  let ?st = "st\<lparr> e_cells := (e_cells st)[s := \<lparr> ee_seen = gm_set (ee_seen (e_cells st ! s)) (snd k) t \<rparr>], e_wg := e_wg st - 1 \<rparr>"
  have "e2e_mark S t k st = Ret ?st"
    using assms(1,4) s by (simp add: e2e_mark_def e2e_Done_key_def gm_get_map_of e2e_inv_def wg_Done_pos)
  moreover have "e2e_inv S ?st"
    using assms(1,4) unfolding e2e_inv_def by auto
  moreover have other: "s' \<noteq> s" if "sm_Get S (em_expectations st) key = Some s'" "key \<noteq> fst k" for key s'
    using assms(1) that s(1) unfolding e2e_inv_def by blast
  have "e2e_sighted S ?st k' = ((e2e_sighted S st)(k \<mapsto> t)) k'" for k'
  proof (cases "fst k' = fst k")
    case True
    then show ?thesis using s by (cases k; cases k') (auto simp: e2e_sighted_def)
  next
    case False
    then show ?thesis using other [of "fst k'"] by (auto simp: e2e_sighted_def split: option.splits)
  qed
  ultimately show ?thesis
    by (intro exI [of _ ?st]) (auto simp: e2e_expects_def fun_eq_iff)
qed

lemma e2e_once_counter: "once_counter (e2e_mark S) (e2e_expects S) (e2e_sighted S) e_wg (e2e_inv S) (\<lambda>_. True)"
proof
  fix st k t
  show "\<exists>st'. e2e_mark S t k st = Ret st' \<and> e2e_inv S st' \<and> e2e_expects S st' = e2e_expects S st
     \<and> e2e_sighted S st' = (e2e_sighted S st)(k \<mapsto> t) \<and> e_wg st' = e_wg st - 1"
    if "e2e_inv S st" "True" "e2e_expects S st k" "e2e_sighted S st k = None" "0 < e_wg st"
    using e2e_mark_first that by blast
  show "panics (e2e_mark S t k st)" if "e2e_inv S st" "e2e_expects S st k" "e2e_sighted S st k = None" "e_wg st = 0"
    using that by (auto simp: e2e_defs wg_Done_zero)
  show "e2e_mark S t k st = Ret st" if "e2e_inv S st" "\<not> (e2e_expects S st k \<and> e2e_sighted S st k = None)"
    using that by (auto simp: e2e_defs split: option.splits)
  show "0 \<le> e_wg st" if "e2e_inv S st"
    using that by (simp add: e2e_inv_def)
qed

interpretation e2e: once_counter "e2e_mark S" "e2e_expects S" "e2e_sighted S" e_wg "e2e_inv S" "\<lambda>_. True"
  for S by (rule e2e_once_counter)

section \<open>Events and reports\<close>

text \<open>The pod an event counts for, and with its time the reports of a sequence of events.\<close>

definition kb_counted :: "bench_lib \<Rightarrow> string \<Rightarrow> pod_event \<Rightarrow> string option" where
  "kb_counted L owner ev =
     (if \<not> b_NewPredicateFuncs L (kb_FilterEvent L (kb_NewPodMonitor owner)) ev then None
      else case ev of
          DeleteEvent pod \<Rightarrow> Some (podKey pod)
        | CreateEvent pod \<Rightarrow> if b_IsPodReady L pod then Some (podKey pod) else None
        | UpdateEvent _ pod \<Rightarrow> if b_IsPodReady L pod then Some (podKey pod) else None
        | GenericEvent _ \<Rightarrow> None)"

definition reports :: "(pod_event \<Rightarrow> 'k option) \<Rightarrow> (gotime \<times> pod_event) list \<Rightarrow> (gotime \<times> 'k) list" where
  "reports counted evs = List.map_filter (\<lambda>(t, ev). map_option (Pair t) (counted ev)) evs"

definition first_report :: "(pod_event \<Rightarrow> 'k option) \<Rightarrow> (gotime \<times> pod_event) list \<Rightarrow> 'k \<Rightarrow> gotime option" where
  "first_report counted evs = map_of (map (\<lambda>(t, k). (k, t)) (reports counted evs))"

lemma reports_simps [simp]:
  "reports counted [] = []"
  "reports counted ((t, ev) # evs) = (case counted ev of None \<Rightarrow> reports counted evs | Some k \<Rightarrow> (t, k) # reports counted evs)"
  by (simp_all add: reports_def List.map_filter_simps split: option.split)

lemma first_report_None_iff: "first_report counted evs k = None \<longleftrightarrow> k \<notin> snd ` set (reports counted evs)"
  by (force simp: first_report_def map_of_eq_None_iff)

lemma set_reports: "snd ` set (reports counted evs) = {k. \<exists>ev \<in> snd ` set evs. counted ev = Some k}"
proof (induction evs)
  case (Cons e evs)
  then show ?case by (cases e; cases "counted (snd e)") auto
qed simp

lemma reports_valid: "list_all (valid \<circ> fst) evs \<Longrightarrow> list_all (valid \<circ> fst) (reports counted evs)"
proof (induction evs)
  case (Cons e evs)
  then show ?case by (cases e) (auto split: option.split)
qed simp

lemma kb_Done_on_mark:
  "kb_Done_on now pod m = go_bind (kb_mark now (podKey pod) (mon_expectation m)) (\<lambda>e. Ret (m\<lparr> mon_expectation := e \<rparr>))"
  by (cases "kb_Done_key now (podKey pod) (mon_expectation m)") (auto simp: kb_Done_on_def kb_Done_def kb_mark_def)

lemma kb_event_mark:
  "kb_event L now ev m = (case kb_counted L (mon_ownerName m) ev of
      None \<Rightarrow> Ret m
    | Some key \<Rightarrow> go_bind (kb_mark now key (mon_expectation m)) (\<lambda>e. Ret (m\<lparr> mon_expectation := e \<rparr>)))"
proof -
  have "kb_FilterEvent L m = kb_FilterEvent L (kb_NewPodMonitor (mon_ownerName m))"
    by (simp add: kb_FilterEvent_def kb_NewPodMonitor_def fun_eq_iff)
  then show ?thesis
    by (cases ev) (auto simp: kb_event_def kb_counted_def kb_HandlePodEvent_def kb_Done_on_mark)
qed

lemma kb_events_marks:
  "kb_events L evs m = go_bind (kb.marks (reports (kb_counted L (mon_ownerName m)) evs) (mon_expectation m))
     (\<lambda>e. Ret (m\<lparr> mon_expectation := e \<rparr>))"
proof (induction evs arbitrary: m)
  case (Cons e evs)
  obtain t ev where e: "e = (t, ev)" by (cases e)
  show ?case
  proof (cases "kb_counted L (mon_ownerName m) ev")
    case None
    then show ?thesis by (simp add: e kb_event_mark Cons.IH)
  next
    case (Some key)
    then show ?thesis
      by (cases "kb_mark t key (mon_expectation m)") (simp_all add: e kb_event_mark Cons.IH)
  qed
qed simp

section \<open>The pods of the kubelet breakdown\<close>

lemma newPodInfos_Ret:
  assumes "newPodInfos ns owner node n ts nano = Ret infos"
  shows "0 \<le> n" "length infos = nat n" "distinct (map infoKey infos)"
proof -
  show n: "0 \<le> n" and "length infos = nat n"
    using assms by (auto simp: newPodInfos_def split: if_splits)
  have "inj_on (\<lambda>i. ns @ ''/'' @ owner @ ''-'' @ dec nano @ ''-'' @ dec i) {0..n - 1}"
    by (rule inj_onI) (simp add: dec_inject)
  moreover have "map infoKey infos = map (\<lambda>i. ns @ ''/'' @ owner @ ''-'' @ dec nano @ ''-'' @ dec i) [0..n - 1]"
    using assms by (auto simp: newPodInfos_def infoKey_def split: if_splits)
  ultimately show "distinct (map infoKey infos)"
    by (simp add: distinct_map)
qed

lemma foldl_gm_set:
  "map_of (foldl (\<lambda>m i. gm_set m (f i) v) m is') = (\<lambda>k. if k \<in> f ` set is' then Some v else map_of m k)"
  by (induction is' arbitrary: m) (auto simp: fun_eq_iff)

lemma distinct_foldl_gm_set:
  "distinct (gm_keys m) \<Longrightarrow> distinct (gm_keys (foldl (\<lambda>m i. gm_set m (f i) v) m is'))"
  by (induction is' arbitrary: m) (auto simp: distinct_gm_set)

lemma mset_values:
  assumes "distinct (gm_keys m)" "distinct keys" "map_of m = (\<lambda>k. if k \<in> set keys then Some (f k) else None)"
  shows "mset (map snd m) = mset (map f keys)"
proof -
  have "set (gm_keys m) = set keys"
    unfolding set_gm_keys assms(3) by (auto split: if_splits)
  then have k: "mset (gm_keys m) = mset keys"
    using assms(1,2) set_eq_iff_mset_eq_distinct by blast
  have "snd p = f (fst p)" if "p \<in> set m" for p
  proof -
    have "map_of m (fst p) = Some (snd p)"
      using that assms(1) by (simp add: gm_keys_def)
    then show ?thesis by (simp add: assms(3) split: if_splits)
  qed
  then have "map snd m = map f (gm_keys m)"
    by (simp add: gm_keys_def)
  then show ?thesis
    by (metis k mset_map)
qed

definition seen_or_zero :: "gotime option \<Rightarrow> gotime" where
  "seen_or_zero t = (case t of None \<Rightarrow> zeroTime | Some t \<Rightarrow> t)"

lemma distinct_seen:
  assumes "distinct (map f is')"
  shows "card {k \<in> f ` set is'. g k \<noteq> None} + length (filter (\<lambda>i. g (f i) = None) is') = length is'"
proof -
  have "{k \<in> f ` set is'. g k \<noteq> None} = set (map f (filter (\<lambda>i. g (f i) \<noteq> None) is'))"
    by auto
  moreover have "distinct (map f (filter (\<lambda>i. g (f i) \<noteq> None) is'))"
    using assms by (simp add: distinct_map_filter)
  ultimately have "card {k \<in> f ` set is'. g k \<noteq> None} = length (filter (\<lambda>i. g (f i) \<noteq> None) is')"
    using distinct_card by (metis length_map)
  then show ?thesis
    using sum_length_filter_compl [of "\<lambda>i. g (f i) \<noteq> None" is'] by simp
qed

lemma kb_events_unwatched: "kb_events L evs (kb_NewPodMonitor owner) = Ret (kb_NewPodMonitor owner)"
proof -
  have "kb_mark t k kb_NewExpectation = Ret kb_NewExpectation" for t k
    by (simp add: kb_mark_def kb_Done_key_def kb_NewExpectation_def)
  then have "kb.marks rs kb_NewExpectation = Ret kb_NewExpectation" for rs
    by (induction rs) auto
  then show ?thesis
    by (simp add: kb_events_marks kb_NewPodMonitor_def)
qed

lemma kb_watched:
  fixes owner :: string
  assumes "distinct (map infoKey infos)" "n = int (length infos)" "n < 2 ^ 31"
  defines "e \<equiv> mon_expectation (kb_Watch n infos (kb_NewPodMonitor owner))"
  shows "ex_wg e = Some n" "kb_inv e" "map_of (desired e) = (\<lambda>k. if k \<in> infoKey ` set infos then Some zeroTime else None)"
    "kb_left e = n" "\<And>k. kb_expects e k \<longleftrightarrow> k \<in> infoKey ` set infos" "kb_sighted e = (\<lambda>k. None)"
proof -
  show wg: "ex_wg e = Some n"
    by (simp add: e_def kb_Watch_def kb_Expectation_Watch_def)
  show d: "map_of (desired e) = (\<lambda>k. if k \<in> infoKey ` set infos then Some zeroTime else None)"
    by (simp add: e_def kb_Watch_def kb_Expectation_Watch_def kb_NewPodMonitor_def kb_NewExpectation_def foldl_gm_set fun_eq_iff)
  show left: "kb_left e = n"
    using wg by (simp add: kb_left_def)
  have "distinct (gm_keys (desired e))"
    unfolding e_def kb_Watch_def kb_Expectation_Watch_def by (simp add: kb_NewPodMonitor_def kb_NewExpectation_def distinct_foldl_gm_set gm_keys_def [of "[]"])
  then show "kb_inv e"
    using assms(2,3) left wg by (simp add: kb_inv_def)
  show "kb_expects e k \<longleftrightarrow> k \<in> infoKey ` set infos" for k
    using d by (simp add: kb_expects_def)
  show "kb_sighted e = (\<lambda>k. None)"
    using d by (simp add: kb_sighted_def fun_eq_iff zeroTime_def IsZero_def)
qed

lemma desired_times:
  assumes "\<And>k. kb_expects e k \<longleftrightarrow> k \<in> K"
  shows "map_of (desired e) = (\<lambda>k. if k \<in> K then Some (seen_or_zero (kb_sighted e k)) else None)"
proof
  fix k
  show "map_of (desired e) k = (if k \<in> K then Some (seen_or_zero (kb_sighted e k)) else None)"
    using assms [of k] by (auto simp: kb_expects_def kb_sighted_def seen_or_zero_def IsZero_def zeroTime_def)
qed

text \<open>
  The kubelet breakdown waits for exactly its pods. Events before \<open>Watch\<close> change nothing. After \<open>Watch\<close>,
  in any sequence of pod events, the wait group never goes below zero, its counter is the number of
  bound pods of which no ready or deletion event has been delivered, and the latency is computed
  from the time of the first such event of each bound pod.
\<close>

theorem kubelet_monitor_exact:
  assumes "newPodInfos ns owner node n ts nano = Ret infos" "n < 2 ^ 31" "list_all (\<lambda>(t, _). \<not> IsZero t) evs"
  shows "kb_events L before (kb_NewPodMonitor owner) = Ret (kb_NewPodMonitor owner)
    \<and> wg_Add 0 (int (length infos)) = Ret n
    \<and> (\<exists>m. kb_events L evs (kb_Watch n infos (kb_NewPodMonitor owner)) = Ret m
        \<and> ex_wg (mon_expectation m)
            = Some (int (length (filter (\<lambda>i. first_report (kb_counted L owner) evs (infoKey i) = None) infos)))
        \<and> kb_Since start m
            = percentile_since (map (\<lambda>i. seen_or_zero (first_report (kb_counted L owner) evs (infoKey i))) infos) start)"
proof -
  note infos = newPodInfos_Ret [OF assms(1)]
  let ?m = "kb_Watch n infos (kb_NewPodMonitor owner)" and ?rs = "reports (kb_counted L owner) evs"
    and ?K = "infoKey ` set infos" and ?f = "first_report (kb_counted L owner) evs"
  have n: "n = int (length infos)" using infos by simp
  note w = kb_watched [where owner = owner, OF infos(3) n assms(2)]
  have owner: "mon_ownerName ?m = owner"
    by (simp add: kb_Watch_def kb_NewPodMonitor_def)
  have valid: "list_all ((\<lambda>t. \<not> IsZero t) \<circ> fst) ?rs"
    using assms(3) by (intro reports_valid) (simp add: comp_def case_prod_unfold)
  have fresh: "kb.fresh ?rs (mon_expectation ?m) = {k \<in> ?K. ?f k \<noteq> None}"
    using w(5,6) by (auto simp: kb.fresh_def first_report_None_iff)
  have cK: "card ?K = length infos"
    using infos(3) distinct_card [of "map infoKey infos"] by simp
  then have "int (card {k \<in> ?K. ?f k \<noteq> None}) \<le> n"
    using card_mono [of ?K "{k \<in> ?K. ?f k \<noteq> None}"] n by simp
  then have le: "int (card (kb.fresh ?rs (mon_expectation ?m))) \<le> kb_left (mon_expectation ?m)"
    unfolding fresh w(4) .
  then obtain e where e: "kb.marks ?rs (mon_expectation ?m) = Ret e" "kb_inv e" "kb_expects e = kb_expects (mon_expectation ?m)"
      "kb_left e = n - int (card {k \<in> ?K. ?f k \<noteq> None})"
      "kb_sighted e = (\<lambda>k. if k \<in> {k \<in> ?K. ?f k \<noteq> None} then ?f k else None)"
    using kb.marks_exact [OF w(2) valid] unfolding w(4,6) fresh first_report_def by auto
  have run: "kb_events L evs ?m = Ret (?m\<lparr> mon_expectation := e \<rparr>)"
    using e(1) by (simp add: kb_events_marks owner)
  have d: "map_of (desired e) = (\<lambda>k. if k \<in> set (map infoKey infos) then Some (seen_or_zero (?f k)) else None)"
    using desired_times [of e ?K] e(3,5) w(5) by (auto simp: fun_eq_iff)
  have "mset (map snd (desired e)) = mset (map (\<lambda>i. seen_or_zero (?f (infoKey i))) infos)"
    using mset_values [OF _ infos(3) d] e(2) by (simp add: kb_inv_def comp_def)
  then have since: "kb_Since start (?m\<lparr> mon_expectation := e \<rparr>) = percentile_since (map (\<lambda>i. seen_or_zero (?f (infoKey i))) infos) start"
    unfolding kb_Since_def by (simp add: percentile_since_perm)
  have "card {k \<in> ?K. ?f k \<noteq> None} + length (filter (\<lambda>i. ?f (infoKey i) = None) infos) = length infos"
    using distinct_seen [OF infos(3), of ?f] .
  then have "kb_left e = int (length (filter (\<lambda>i. ?f (infoKey i) = None) infos))"
    using e(4) n by linarith
  then have "ex_wg e = Some (int (length (filter (\<lambda>i. ?f (infoKey i) = None) infos)))"
    using e(2) by (auto simp: kb_inv_def kb_left_def)
  then show ?thesis
    using run since kb_events_unwatched [of L before owner] wg_Add_exact [of n] infos(1) assms(2) n
    by (intro conjI exI [of _ "?m\<lparr> mon_expectation := e \<rparr>"]) simp_all
qed

definition sample_bench_lib :: bench_lib where
  "sample_bench_lib = \<lparr>
     b_IsManaged = (\<lambda>_. True), b_IsPodReady = (\<lambda>pod. Phase (PodStatus_of pod) = ''Running''), b_OwnerNameLabel = ''owner'',
     b_NewPredicateFuncs = (\<lambda>f ev. case ev of CreateEvent pod \<Rightarrow> f pod | UpdateEvent _ pod \<Rightarrow> f pod | DeleteEvent pod \<Rightarrow> f pod | GenericEvent pod \<Rightarrow> f pod) \<rparr>"

definition bench_pod :: "string \<Rightarrow> kpod" where
  "bench_pod name = \<lparr> Namespace = ''default'', Name = name,
     Labels = [(''app'', ''f''), (''workload'', ''test''), (''owner'', ''f'')], UID = ''u'', ResourceVersion = ''1'',
     DeletionTimestamp = None, NodeName = ''n1'', ReadinessGates = [], Containers = [], InitContainers = [],
     PodStatus_of = \<lparr> Phase = ''Running'', Conditions = [], HostIP = '''', StatusPodIP = '''', StartTime = None,
       ContainerStatuses = [], InitContainerStatuses = [] \<rparr> \<rparr>"

definition two_infos :: "benchPodInfo list" where
  "two_infos = map (\<lambda>name. \<lparr> InfoNamespace = ''default'', InfoName = name, OwnerName = ''f'',
     InfoNodeName = ''n1'', InfoCreationTimestamp = 1 \<rparr>) [''f-7-0'', ''f-7-1'']"

lemma dec_digit: "0 \<le> n \<Longrightarrow> n < 10 \<Longrightarrow> dec n = [digit n]"
  by (simp add: dec_def dec_pos.simps)

lemma two_infos: "newPodInfos ''default'' ''f'' ''n1'' 2 1 7 = Ret two_infos"
  by (simp add: newPodInfos_def two_infos_def upto.simps dec_digit digit_def char_of_def bit_numeral_rec) 

lemma bench_pod_first:
  "first_report (kb_counted sample_bench_lib ''f'') [(5, CreateEvent (bench_pod ''f-7-0''))]
     = (\<lambda>k. if k = ''default/f-7-0'' then Some 5 else None)"
  by (simp add: first_report_def kb_counted_def sample_bench_lib_def bench_pod_def kb_FilterEvent_def kb_NewPodMonitor_def
      label_def gm_get_def podKey_def fun_eq_iff)

theorem kubelet_monitor_exact_witness:
  "\<exists>m. kb_events sample_bench_lib [(5, CreateEvent (bench_pod ''f-7-0''))] (kb_Watch 2 two_infos (kb_NewPodMonitor ''f'')) = Ret m
     \<and> ex_wg (mon_expectation m) = Some 1 \<and> kb_Since 3 m = Ret 2"
proof -
  have "(2 :: int) < 2 ^ 31" "list_all (\<lambda>(t, _). \<not> IsZero t) [(5 :: gotime, CreateEvent (bench_pod ''f-7-0''))]"
    by (simp_all add: IsZero_def)
  from kubelet_monitor_exact [OF two_infos this, of sample_bench_lib "[]" 3]
  show ?thesis
    by (auto simp: bench_pod_first two_infos_def infoKey_def seen_or_zero_def zeroTime_def percentile_since_def time_Sub_def)
qed

text \<open>
  The latency an experiment reports is the 90th percentile of the times it recorded: one of these
  times, with more than nine tenths of them at or before it and at most nine tenths strictly before it.
  It does not depend on the order in which the map is visited, the index is in range however few
  times there are, and no recorded time gives zero.
\<close>

theorem latency_percentile:
  "if ts = [] then percentile_since ts start = Ret 0
   else \<exists>p. p \<in> set ts \<and> 90 * length ts < 100 * length (filter (\<lambda>t. t \<le> p) ts)
     \<and> 100 * length (filter (\<lambda>t. t < p) ts) \<le> 90 * length ts
     \<and> {percentile_since us start | us. mset us = mset ts} = {Ret (time_Sub p start)}"
proof (cases "ts = []")
  case False
  then obtain p where p: "p \<in> set ts" "percentile_since ts start = Ret (time_Sub p start)"
      "90 * length ts < 100 * length (filter (\<lambda>t. t \<le> p) ts)" "100 * length (filter (\<lambda>t. t < p) ts) \<le> 90 * length ts"
    using percentile_since_rank by blast
  have "{percentile_since us start | us. mset us = mset ts} = {Ret (time_Sub p start)}"
    using percentile_since_perm [of _ ts start] p(2) by (auto intro!: exI [of _ ts])
  then show ?thesis using p False by auto
qed (simp add: percentile_since_def)

section \<open>The end-to-end monitor\<close>

definition e2e_counted :: "bench_lib \<Rightarrow> string \<Rightarrow> pod_event \<Rightarrow> (string \<times> string) option" where
  "e2e_counted L selector ev =
     (if \<not> b_NewPredicateFuncs L (\<lambda>pod. IsWorkload pod \<and> label (Labels pod) ''workload'' = selector) ev then None
      else case ev of
          CreateEvent pod \<Rightarrow> if b_IsPodReady L pod then Some (KeyFromObject pod, podKey pod) else None
        | UpdateEvent _ pod \<Rightarrow> if b_IsPodReady L pod then Some (KeyFromObject pod, podKey pod) else None
        | _ \<Rightarrow> None)"

text \<open>The ready pods of the targets that a sequence of events shows, each with the key of its target.\<close>

definition ready_pods :: "bench_lib \<Rightarrow> string \<Rightarrow> 'd ObjectMeta_scheme list \<Rightarrow> (gotime \<times> pod_event) list \<Rightarrow> (string \<times> string) set" where
  "ready_pods L selector targets evs =
     {k \<in> snd ` set (reports (e2e_counted L selector) evs). fst k \<in> KeyFromObject ` set targets}"

lemma e2e_event_mark:
  "e2e_event L S now ev st = (case e2e_counted L (em_selector st) ev of None \<Rightarrow> Ret st | Some k \<Rightarrow> e2e_mark S now k st)"
proof -
  have "e2e_FilterEvent st = (\<lambda>pod. IsWorkload pod \<and> label (Labels pod) ''workload'' = em_selector st)"
    by (simp add: e2e_FilterEvent_def fun_eq_iff)
  then show ?thesis
    by (cases ev) (auto simp: e2e_event_def e2e_counted_def e2e_HandlePodEvent_def e2e_mark_def e2e_Done_def split: option.split)
qed

lemma e2e_mark_selector: "e2e_mark S now k st = Ret st' \<Longrightarrow> em_selector st' = em_selector st"
  by (auto simp: e2e_mark_def e2e_Done_key_def go_bind_eq_Ret split: option.splits prod.splits)

lemma e2e_events_marks: "e2e_events L S evs st = e2e.marks S (reports (e2e_counted L (em_selector st)) evs) st"
proof (induction evs arbitrary: st)
  case (Cons e evs)
  obtain t ev where e: "e = (t, ev)" by (cases e)
  show ?case
  proof (cases "e2e_counted L (em_selector st) ev")
    case None
    then show ?thesis by (simp add: e e2e_event_mark Cons.IH)
  next
    case (Some k)
    then show ?thesis
      by (cases "e2e_mark S t k st") (simp_all add: e e2e_event_mark Cons.IH e2e_mark_selector)
  qed
qed simp

lemma e2e_Watch_inv:
  assumes "shared_map S" "e2e_inv S st"
  shows "e2e_inv S (e2e_Watch S key st)"
  using assms(2) shared_map.Get_inner [OF assms(1)] shared_map.Set_inner [OF assms(1)]
  by (auto simp: e2e_inv_def e2e_Watch_def less_Suc_eq split: if_splits)

definition e2e_watched :: "('m, nat) sharedMap \<Rightarrow> string \<Rightarrow> int \<Rightarrow> string set \<Rightarrow> 'm e2e_state \<Rightarrow> bool" where
  "e2e_watched S selector wg K st \<longleftrightarrow> e2e_inv S st \<and> em_selector st = selector \<and> e_wg st = wg
     \<and> (\<forall>k. e2e_expects S st k \<longleftrightarrow> fst k \<in> K) \<and> e2e_sighted S st = (\<lambda>k. None)"

lemma e2e_watched_Watch:
  assumes "shared_map S" "e2e_watched S selector wg K st"
  shows "e2e_watched S selector wg (insert key K) (e2e_Watch S key st)"
proof -
  have e: "e2e_inv S st" "\<And>k. e2e_expects S st k \<longleftrightarrow> fst k \<in> K" "e2e_sighted S st = (\<lambda>k. None)"
    using assms(2) by (auto simp: e2e_watched_def)
  have g: "sm_Get S (em_expectations (e2e_Watch S key st)) k'
      = (if k' = key then Some (length (e_cells st)) else sm_Get S (em_expectations st) k')" for k'
    using shared_map.Get_inner [OF assms(1)] shared_map.Set_inner [OF assms(1)] by (simp add: e2e_Watch_def)
  have c: "e_cells (e2e_Watch S key st) = e_cells st @ [e2e_NewExpectation]"
    by (simp add: e2e_Watch_def)
  have "e2e_sighted S (e2e_Watch S key st) k = None" for k
  proof -
    have "e2e_sighted S st k = None" using e(3) by simp
    moreover have "s < length (e_cells st)" if "sm_Get S (em_expectations st) (fst k) = Some s" for s
      using e(1) that by (auto simp: e2e_inv_def)
    ultimately show ?thesis
      by (auto simp: e2e_sighted_def g c nth_append e2e_NewExpectation_def split: option.splits)
  qed
  moreover have "e2e_expects S (e2e_Watch S key st) k \<longleftrightarrow> fst k \<in> insert key K" for k
    using e(2) [of k] by (simp add: e2e_expects_def g)
  ultimately show ?thesis
    using e2e_Watch_inv [OF assms(1) e(1)] assms(2) by (simp add: e2e_watched_def fun_eq_iff) (simp add: e2e_Watch_def)
qed

lemma e2e_watched_targets:
  assumes "shared_map S" "e2e_watched S selector wg K st"
  shows "e2e_watched S selector wg (KeyFromObject ` set targets \<union> K) (foldl (\<lambda>st target. e2e_Watch S (KeyFromObject target) st) st targets)"
  using assms(2)
proof (induction targets arbitrary: K st)
  case (Cons d targets)
  show ?case
    using Cons.IH [OF e2e_watched_Watch [OF assms(1) Cons.prems, of "KeyFromObject d"]] by simp
qed simp

lemma e2e_watched_new:
  assumes "shared_map S" "0 \<le> wg" "wg < 2 ^ 31"
  shows "e2e_watched S selector wg {} (e2e_NewPodMonitor S selector\<lparr> e_wg := wg \<rparr>)"
  using assms shared_map.Get_inner [OF assms(1)] shared_map.new_inner [OF assms(1)]
  by (auto simp: e2e_watched_def e2e_inv_def e2e_expects_def e2e_sighted_def e2e_NewPodMonitor_def)

lemma nPodsPerTarget_bounds:
  assumes "0 \<le> nPods" "0 < targets"
  shows "1 \<le> nPodsPerTarget nPods targets"
    and "nPodsPerTarget nPods targets * int targets \<le> max nPods (int targets)"
    and "int targets \<le> nPods \<Longrightarrow> nPods < (nPodsPerTarget nPods targets + 1) * int targets"
proof -
  have d: "nPods sdiv int targets = nPods div int targets"
    using assms by (cases "nPods = 0") (simp_all add: signed_divide_int_def)
  have z: "nPods div int targets = 0 \<longleftrightarrow> nPods < int targets"
    using assms by (auto simp: zdiv_eq_0_iff)
  have "0 \<le> nPods div int targets"
    using assms by (simp add: pos_imp_zdiv_nonneg_iff)
  then show "1 \<le> nPodsPerTarget nPods targets"
    unfolding nPodsPerTarget_def d Let_def by auto
  have "nPods div int targets * int targets \<le> nPods"
    using assms div_mult_mod_eq [of nPods "int targets"] pos_mod_sign [of "int targets" nPods] by linarith
  then show "nPodsPerTarget nPods targets * int targets \<le> max nPods (int targets)"
    unfolding nPodsPerTarget_def d Let_def by auto
  have "nPods < nPods div int targets * int targets + int targets"
    using assms div_mult_mod_eq [of nPods "int targets"] pos_mod_bound [of "int targets" nPods] by linarith
  then show "nPods < (nPodsPerTarget nPods targets + 1) * int targets" if "int targets \<le> nPods"
    unfolding nPodsPerTarget_def d Let_def z using that by (simp add: algebra_simps)
qed

text \<open>
  The end-to-end experiment waits for a number of pods, not for particular ones. Its wait group
  starts at the number of pods per target times the number of targets. In any sequence of pod events
  each ready pod of a target takes one from it, once however often it is reported; pods that are not
  ready, of other targets or deleted take nothing. One ready pod more than expected, such as the
  replacement of a pod that was already counted, makes the program panic.
\<close>

theorem e2e_monitor_exact:
  assumes "shared_map S" "0 \<le> nPods" "nPods < 2 ^ 31" "targets \<noteq> []" "length targets < 2 ^ 31"
  shows "\<exists>st. e2e_prepare S nPods targets (e2e_NewPodMonitor S selector) = Ret st
     \<and> e_wg st = nPodsPerTarget nPods (length targets) * int (length targets)
     \<and> (if int (card (ready_pods L selector targets evs)) \<le> e_wg st
        then \<exists>st'. e2e_events L S evs st = Ret st' \<and> e_wg st' = e_wg st - int (card (ready_pods L selector targets evs))
        else panics (e2e_events L S evs st))"
proof -
  let ?n = "nPodsPerTarget nPods (length targets) * int (length targets)"
  have "0 \<le> ?n" "?n \<le> max nPods (int (length targets))"
    using nPodsPerTarget_bounds(1,2) [of nPods "length targets"] assms(2,4) by simp_all
  then have n: "0 \<le> ?n" "?n < 2 ^ 31"
    using assms(3,5) by (simp_all add: max_def split: if_splits)
  define st where "st = foldl (\<lambda>st target. e2e_Watch S (KeyFromObject target) st) (e2e_NewPodMonitor S selector\<lparr> e_wg := ?n \<rparr>) targets"
  have prep: "e2e_prepare S nPods targets (e2e_NewPodMonitor S selector) = Ret st"
    using n wg_Add_exact [OF n] by (simp add: e2e_prepare_def st_def e2e_NewPodMonitor_def)
  have w: "e2e_watched S selector ?n (KeyFromObject ` set targets) st"
    using e2e_watched_targets [OF assms(1) e2e_watched_new [OF assms(1) n], of selector targets] by (simp add: st_def)
  let ?rs = "reports (e2e_counted L selector) evs"
  have run: "e2e_events L S evs st = e2e.marks S ?rs st"
    using w by (simp add: e2e_events_marks e2e_watched_def)
  have fresh: "e2e.fresh S ?rs st = ready_pods L selector targets evs"
    using w by (auto simp: e2e.fresh_def ready_pods_def e2e_watched_def)
  have inv: "e2e_inv S st" and wg: "e_wg st = ?n"
    using w by (simp_all add: e2e_watched_def)
  have "list_all ((\<lambda>_. True) \<circ> fst) ?rs"
    by (simp add: list_all_iff)
  from e2e.marks_exact [OF inv this] show ?thesis
    unfolding fresh run [symmetric] using prep wg by (auto split: if_splits)
qed

definition e2e_target :: ObjectMeta where
  "e2e_target = \<lparr> Namespace = ''default'', Name = ''f'', Labels = [(''app'', ''f''), (''workload'', ''test'')] \<rparr>"

lemma e2e_target_ready:
  "ready_pods sample_bench_lib ''test'' [e2e_target] [(5, CreateEvent (bench_pod ''a'')), (6, UpdateEvent (bench_pod ''a'') (bench_pod ''a'')), (7, CreateEvent (bench_pod ''b''))]
     = {(''default/f'', ''default/a''), (''default/f'', ''default/b'')}"
  by (auto simp: ready_pods_def e2e_counted_def sample_bench_lib_def bench_pod_def IsWorkload_def e2e_target_def KeyFromObject_def
      label_def gm_get_def podKey_def)

theorem e2e_monitor_exact_witness:
  "\<exists>st. e2e_prepare gomap_shared 1 [e2e_target] (e2e_NewPodMonitor gomap_shared ''test'') = Ret st \<and> e_wg st = 1
     \<and> panics (e2e_events sample_bench_lib gomap_shared
         [(5, CreateEvent (bench_pod ''a'')), (6, UpdateEvent (bench_pod ''a'') (bench_pod ''a'')), (7, CreateEvent (bench_pod ''b''))] st)"
proof -
  have "nPodsPerTarget 1 1 = 1" by (simp add: nPodsPerTarget_def signed_divide_int_def)
  moreover have "(0 :: int) \<le> 1" "(1 :: int) < 2 ^ 31" "[e2e_target] \<noteq> []" "length [e2e_target] < 2 ^ 31" by simp_all
  note e2e_monitor_exact [OF gomap.shared_map_axioms this, of "''test''" sample_bench_lib
     "[(5, CreateEvent (bench_pod ''a'')), (6, UpdateEvent (bench_pod ''a'') (bench_pod ''a'')), (7, CreateEvent (bench_pod ''b''))]"]
  ultimately show ?thesis
    unfolding e2e_target_ready by (auto split: if_splits)
qed

end
