(* ===== verification/Breakdown.thy ===== *)
theory Breakdown
  imports Monitor Autoscaler
begin

text \<open>
  The breakdown experiments of \<open>experiments/microbench/breakdown\<close> and the end-to-end one of
  \<open>experiments/microbench/e2e\<close>: flags, handshakes, address listers, the selection and checking of the targets, the
  requests each experiment sends, and the goroutines that send them with their wait groups and
  counters. The Kubernetes client's answers and the functions of \<open>k8s.io/kubedirect/pkg/...\<close> are
  parameters. The directories \<open>autoscaler\<close> and \<open>deployment\<close> hold the same files; the definitions refer to
  \<open>autoscaler\<close>.
\<close>

section \<open>The packages\<close>

text \<open>
  \<open>kdrpc\<close> and \<open>kdutil\<close>: the predicates of \<open>kdutil\<close> on objects test labels; \<open>GetKubeletServiceOverrideAddr\<close>
  gives the address on the node and whether the node must have one.
\<close>

record kdrpc_lib =
  NewHandshakeRequest :: "string \<Rightarrow> string \<Rightarrow> HandshakeRequest"
  DeploymentServicePort :: string
  EndpointsServicePort :: string
  ReplicaSetServicePort :: string
  SchedulerServicePort :: string
  KubeletServicePort :: string
  GetKubeletServiceOverrideAddr :: "Node \<Rightarrow> string \<times> bool"
  u_IsPodReady :: "kpod \<Rightarrow> bool"
  u_IsManaged :: "labels \<Rightarrow> bool"
  u_IsFallbackScaling :: "labels \<Rightarrow> bool"
  u_IsFallbackBinding :: "labels \<Rightarrow> bool"
  u_IsTemplatePod :: "labels \<Rightarrow> bool"
  u_IsKubeletResponsibleFor :: "labels \<Rightarrow> bool"
  u_OwnerNameLabel :: string

section \<open>Handshakes\<close>

definition testClient :: string where "testClient = ''test''"
definition dpService :: string where "dpService = ''dp''"
definition epService :: string where "epService = ''ep''"
definition rsService :: string where "rsService = ''rs''"
definition schedService :: string where "schedService = ''sched''"

text \<open>The part the handshakes have in common: \<open>rpc\<close> answers with the epoch of the response, or an error.\<close>

definition handshake_epoch :: "kdrpc_lib \<Rightarrow> (HandshakeRequest \<Rightarrow> string + string) \<Rightarrow> string \<Rightarrow> string \<Rightarrow> string + string" where
  "handshake_epoch R rpc src dest =
     (let msg = NewHandshakeRequest R src dest; epoch = hs_Epoch msg in
      case rpc msg of
        Inl err \<Rightarrow> Inl err
      | Inr respEpoch \<Rightarrow>
          if epoch \<noteq> respEpoch then Inl (''epoch mismatch: expected '' @ epoch @ '', got '' @ respEpoch)
          else Inr epoch)"

definition service_handshake ::
    "string \<Rightarrow> kdrpc_lib \<Rightarrow> (HandshakeRequest \<Rightarrow> string + string) \<Rightarrow> string \<Rightarrow> string \<Rightarrow> (string + string) go" where
  "service_handshake service R rpc src dest =
     (if src \<noteq> testClient then Panic (''invalid source: expected '' @ testClient @ '', got '' @ src)
      else if dest \<noteq> service then Panic (''invalid destination: expected '' @ service @ '', got '' @ dest)
      else Ret (handshake_epoch R rpc src dest))"

definition doDeploymentHandshake :: "kdrpc_lib \<Rightarrow> (HandshakeRequest \<Rightarrow> string + string) \<Rightarrow> string \<Rightarrow> string \<Rightarrow> (string + string) go" where
  "doDeploymentHandshake = service_handshake dpService"

definition doEndpointsHandshake :: "kdrpc_lib \<Rightarrow> (HandshakeRequest \<Rightarrow> string + string) \<Rightarrow> string \<Rightarrow> string \<Rightarrow> (string + string) go" where
  "doEndpointsHandshake = service_handshake epService"

definition doReplicaSetHandshake :: "kdrpc_lib \<Rightarrow> (HandshakeRequest \<Rightarrow> string + string) \<Rightarrow> string \<Rightarrow> string \<Rightarrow> (string + string) go" where
  "doReplicaSetHandshake = service_handshake rsService"

definition doSchedulerHandshake :: "kdrpc_lib \<Rightarrow> (HandshakeRequest \<Rightarrow> string + string) \<Rightarrow> string \<Rightarrow> string \<Rightarrow> (string + string) go" where
  "doSchedulerHandshake = service_handshake schedService"

definition kdClientKeyFunc :: "string \<Rightarrow> string" where
  "kdClientKeyFunc node = testClient @ ''/'' @ node"

definition doKubeletHandshake :: "kdrpc_lib \<Rightarrow> (HandshakeRequest \<Rightarrow> string + string) \<Rightarrow> string \<Rightarrow> string \<Rightarrow> (string + string) go" where
  "doKubeletHandshake R rpc src dest =
     (if src \<noteq> kdClientKeyFunc dest then Panic (''invalid source: expected '' @ kdClientKeyFunc dest @ '', got '' @ src)
      else Ret (handshake_epoch R rpc src dest))"

section \<open>Address listers\<close>

text \<open>
  \<open>listed\<close> is the answer to the list request for the controller managers or schedulers. A listing of no
  pods has no addresses, the error is passed on.
\<close>

definition ready_addrs :: "kdrpc_lib \<Rightarrow> string \<Rightarrow> string + kpod list \<Rightarrow> string + string list" where
  "ready_addrs R port listed =
     (case listed of
        Inl err \<Rightarrow> Inl err
      | Inr pods \<Rightarrow> Inr (map (\<lambda>pod. StatusPodIP (PodStatus_of pod) @ port) (filter (u_IsPodReady R) pods)))"

definition newDeploymentServiceLister :: "kdrpc_lib \<Rightarrow> string + kpod list \<Rightarrow> string + string list" where
  "newDeploymentServiceLister R = ready_addrs R (DeploymentServicePort R)"

definition newEndpointsServiceLister :: "kdrpc_lib \<Rightarrow> string + kpod list \<Rightarrow> string + string list" where
  "newEndpointsServiceLister R = ready_addrs R (EndpointsServicePort R)"

definition newReplicaSetServiceLister :: "kdrpc_lib \<Rightarrow> string + kpod list \<Rightarrow> string + string list" where
  "newReplicaSetServiceLister R = ready_addrs R (ReplicaSetServicePort R)"

definition newSchedulerLister :: "kdrpc_lib \<Rightarrow> string + kpod list \<Rightarrow> string + string list" where
  "newSchedulerLister R = ready_addrs R (SchedulerServicePort R)"

definition newKubeletLister :: "kdrpc_lib \<Rightarrow> string + Node \<Rightarrow> string \<Rightarrow> bool \<Rightarrow> (string + string list) go" where
  "newKubeletLister R got node requireAddrAnnotation =
     (case got of
        Inl err \<Rightarrow> Ret (Inl err)
      | Inr n \<Rightarrow>
          let (overrideAddr, mustOverride) = GetKubeletServiceOverrideAddr R n in
          if overrideAddr \<noteq> '''' then Ret (Inr [overrideAddr])
          else if mustOverride \<or> requireAddrAnnotation
          then Panic (''Missing Kubelet service address annotation on node '' @ node)
          else Ret (Inr (map (\<lambda>ip. ip @ KubeletServicePort R)
                 (map snd (filter (\<lambda>a. fst a = ''InternalIP'') (Addresses n))))))"

section \<open>Requests\<close>

text \<open>The identity and epoch of an RPC client, \<open>client.ID()\<close> and \<open>client.Epoch()\<close>.\<close>

record kdClient =
  kc_ID :: string
  kc_Epoch :: string

record DeploymentWatchRequest =
  dw_Source :: string
  dw_Epoch :: string
  dw_Target :: NamespacedName
  dw_Replicas :: int

definition newDeploymentWatchRequest :: "kdClient \<Rightarrow> Deployment \<Rightarrow> int \<Rightarrow> DeploymentWatchRequest" where
  "newDeploymentWatchRequest c dp replicas =
     \<lparr> dw_Source = kc_ID c, dw_Epoch = kc_Epoch c, dw_Target = (Namespace dp, Name dp), dw_Replicas = int32_of replicas \<rparr>"

record Service = ObjectMeta +
  svc_Selector :: labels

record EndpointsWatchRequest =
  ew_Source :: string
  ew_Epoch :: string
  ew_Service :: NamespacedName

definition newEndpointsWatchRequest :: "kdClient \<Rightarrow> Service \<Rightarrow> EndpointsWatchRequest" where
  "newEndpointsWatchRequest c service =
     \<lparr> ew_Source = kc_ID c, ew_Epoch = kc_Epoch c, ew_Service = (Namespace service, Name service) \<rparr>"

text \<open>\<open>RequestForBinding\<close> of \<open>kdctx\<close> is a parameter.\<close>

definition newBindingRequests :: "(benchPodInfo \<Rightarrow> kdClient \<Rightarrow> 'r PodBindingRequest_scheme) \<Rightarrow> kdClient \<Rightarrow> benchPodInfo list \<Rightarrow> 'r PodBindingRequest_scheme list" where
  "newBindingRequests RequestForBinding c podInfos = map (\<lambda>podInfo. RequestForBinding podInfo c) podInfos"

section \<open>Selection of the targets\<close>

record ReplicaSet = ObjectMeta +
  rs_Controlled :: bool
  rs_SpecReplicas :: "int option"
  rs_ReadyReplicas :: int

text \<open>A \<open>for\<close> loop over the items that stops the program at the first that fails its check.\<close>

fun check_all :: "('a \<Rightarrow> unit go) \<Rightarrow> 'a list \<Rightarrow> unit go" where
  "check_all check [] = Ret ()"
| "check_all check (x # xs) = go_bind (check x) (\<lambda>_. check_all check xs)"

definition as_targets :: "kdrpc_lib \<Rightarrow> bool \<Rightarrow> string + Deployment list \<Rightarrow> Deployment list go" where
  "as_targets R fallback listed =
     (case listed of
        Inl err \<Rightarrow> Panic (''Error listing scaling targets: '' @ err)
      | Inr items \<Rightarrow>
          if items = [] then Panic ''No scaling targets selected''
          else go_bind (check_all (\<lambda>dp.
                 if fallback \<noteq> (\<not> u_IsManaged R (Labels dp))
                 then Panic ''Deployment must not be managed in fallback mode and vice versa'' else Ret ()) items)
               (\<lambda>_. Ret items))"

definition rs_targets :: "kdrpc_lib \<Rightarrow> bool \<Rightarrow> string + ReplicaSet list \<Rightarrow> ReplicaSet list go" where
  "rs_targets R fallback listed =
     (case listed of
        Inl err \<Rightarrow> Panic (''Error listing scaling targets: '' @ err)
      | Inr items \<Rightarrow>
          if items = [] then Panic ''No scaling targets selected''
          else go_bind (check_all (\<lambda>rs.
                 if \<not> u_IsManaged R (Labels rs) then Panic ''ReplicaSet must be managed in this breakdown test''
                 else if fallback \<noteq> u_IsFallbackScaling R (Labels rs)
                 then Panic ''ReplicaSet should set fallback label if and only if in fallback mode'' else Ret ()) items)
               (\<lambda>_. Ret items))"

definition checkMetadata :: "kdrpc_lib \<Rightarrow> bool \<Rightarrow> 'a ObjectMeta_scheme \<Rightarrow> unit go" where
  "checkMetadata R fallback obj =
     (if label (Labels obj) ''app'' \<noteq> Name obj
      then Panic (''ReplicaSet \"app\" label must match name: expected '' @ Name obj @ '', got '' @ label (Labels obj) ''app'')
      else if fallback \<noteq> (\<not> u_IsManaged R (Labels obj))
      then Panic ''ReplicaSet should set fallback label if and only if in fallback mode''
      else Ret ())"

text \<open>The ReplicaSet of each service, \<open>get\<close> answering for its namespace and name.\<close>

fun ep_replicaSets :: "kdrpc_lib \<Rightarrow> bool \<Rightarrow> (NamespacedName \<Rightarrow> string + ReplicaSet) \<Rightarrow> Service list \<Rightarrow> ReplicaSet list go" where
  "ep_replicaSets R fallback get [] = Ret []"
| "ep_replicaSets R fallback get (svc # svcs) =
     go_bind (checkMetadata R fallback svc) (\<lambda>_.
       case get (Namespace svc, Name svc) of
         Inl err \<Rightarrow> Panic (''Error getting matching ReplicaSet for Service '' @ Namespace svc @ ''/'' @ Name svc @ '': '' @ err)
       | Inr rs \<Rightarrow>
           go_bind (checkMetadata R fallback rs) (\<lambda>_.
             case rs_SpecReplicas rs of
               None \<Rightarrow> Panic ''nil pointer dereference''
             | Some n \<Rightarrow>
                 if n \<noteq> 0 then Panic (''ReplicaSet '' @ Namespace rs @ ''/'' @ Name rs @ '' has non-zero initial replicas'')
                 else go_bind (ep_replicaSets R fallback get svcs) (\<lambda>rss. Ret (rs # rss))))"

definition ep_targets ::
    "kdrpc_lib \<Rightarrow> bool \<Rightarrow> (NamespacedName \<Rightarrow> string + ReplicaSet) \<Rightarrow> string + Service list \<Rightarrow> (Service list \<times> ReplicaSet list) go" where
  "ep_targets R fallback get listed =
     (case listed of
        Inl err \<Rightarrow> Panic (''Error listing Services: '' @ err)
      | Inr items \<Rightarrow>
          if items = [] then Panic ''No Service selected''
          else go_bind (ep_replicaSets R fallback get items) (\<lambda>rss. Ret (items, rss)))"

text \<open>The template pod of the scheduler and the kubelet breakdown; \<open>agrees\<close> is the last check of either.\<close>

definition template_pod :: "kdrpc_lib \<Rightarrow> string \<Rightarrow> (labels \<Rightarrow> bool) \<Rightarrow> string \<Rightarrow> string + kpod \<Rightarrow> kpod go" where
  "template_pod R target agrees complaint got =
     (case got of
        Inl err \<Rightarrow> Panic (''Error getting template pod: '' @ err)
      | Inr pod \<Rightarrow>
          if \<not> u_IsTemplatePod R (Labels pod) then Panic ''Invalid template pod: missing template pod label''
          else if label (Labels pod) (u_OwnerNameLabel R) \<noteq> target
          then Panic (''Invalid owner label, expected '' @ target @ '', got '' @ label (Labels pod) (u_OwnerNameLabel R))
          else if \<not> agrees (Labels pod) then Panic complaint
          else Ret pod)"

definition sched_template :: "kdrpc_lib \<Rightarrow> string \<Rightarrow> bool \<Rightarrow> string + kpod \<Rightarrow> kpod go" where
  "sched_template R target fallback =
     template_pod R target (\<lambda>ls. fallback = u_IsFallbackBinding R ls)
       ''Invalid template pod: should set fallback binding label if and only if in fallback mode''"

definition kb_template :: "kdrpc_lib \<Rightarrow> string \<Rightarrow> bool \<Rightarrow> string + kpod \<Rightarrow> kpod go" where
  "kb_template R target useDefaultKubelet =
     template_pod R target (\<lambda>ls. useDefaultKubelet = u_IsKubeletResponsibleFor R ls)
       ''Invalid template pod: pod-lifecycle label does not match kubelet implementation''"

section \<open>Waiting\<close>

text \<open>
  \<open>wait.PollUntilContextCancel\<close> calls its condition until it holds; the list has what the API server
  answers at the successive attempts, and \<open>None\<close> means that the program is still waiting after them.
\<close>

fun poll :: "('a \<Rightarrow> bool go) \<Rightarrow> 'a list \<Rightarrow> unit go option" where
  "poll condition [] = None"
| "poll condition (a # rest) =
     (case condition a of Panic m \<Rightarrow> Some (Panic m) | Ret True \<Rightarrow> Some (Ret ()) | Ret False \<Rightarrow> poll condition rest)"

definition waitForReplicaSets :: "nat \<Rightarrow> string + ReplicaSet list \<Rightarrow> bool go" where
  "waitForReplicaSets targets listed =
     (case listed of
        Inl err \<Rightarrow> Panic (''Error listing ReplicaSets: '' @ err)
      | Inr items \<Rightarrow>
          go_bind (check_all (\<lambda>rs. if \<not> rs_Controlled rs
                     then Panic (''ReplicaSet '' @ Namespace rs @ ''/'' @ Name rs @ '' has no owner'') else Ret ()) items)
            (\<lambda>_. Ret (length items = targets)))"

definition waitForReadyPods :: "int \<Rightarrow> string + ReplicaSet list \<Rightarrow> bool go" where
  "waitForReadyPods perTarget listed =
     (case listed of
        Inl err \<Rightarrow> Panic (''Error listing ReplicaSets: '' @ err)
      | Inr items \<Rightarrow> Ret (list_all (\<lambda>rs. rs_ReadyReplicas rs = int32_of perTarget) items))"

section \<open>Requests sent by goroutines\<close>

text \<open>
  One goroutine for each request, a wait group that counts them and an atomic counter of those that
  succeeded. \<open>fan_return i err\<close>: the \<open>i\<close>-th goroutine still running gets its answer and ends.
\<close>

record 'r fan =
  fan_wg :: int
  fan_ok :: int
  fan_running :: "'r list"

definition fan_start :: "'r list \<Rightarrow> 'r fan go" where
  "fan_start reqs = go_bind (wg_Add 0 (int (length reqs))) (\<lambda>wg. Ret \<lparr> fan_wg = wg, fan_ok = 0, fan_running = reqs \<rparr>)"

definition fan_return :: "nat \<Rightarrow> string option \<Rightarrow> 'r fan \<Rightarrow> 'r fan go option" where
  "fan_return i err f =
     (if i < length (fan_running f)
      then Some (go_bind (wg_Done (fan_wg f)) (\<lambda>wg. Ret \<lparr>
             fan_wg = wg,
             fan_ok = (case err of Some _ \<Rightarrow> fan_ok f | None \<Rightarrow> int32_of (fan_ok f + 1)),
             fan_running = take i (fan_running f) @ drop (Suc i) (fan_running f) \<rparr>))
      else None)"

text \<open>The lines an experiment prints.\<close>

datatype report_line =
    TargetsScaled int nat duration
  | RPCReturned int nat duration
  | RPCReturnedIn duration
  | Total int

definition Microseconds :: "duration \<Rightarrow> int" where
  "Microseconds d = d sdiv 1000"

text \<open>
  The second half of \<open>run\<close> in the deployment and endpoints breakdowns: the watch requests are sent, after
  a pause the updates, then \<open>run\<close> waits for the updates and for the watches and prints. At each wait
  it gives up silently if the context was cancelled.
\<close>

datatype trial_phase = Watching | Acting | Acted | Finished | Cancelled

record ('w, 'a) trial =
  t_phase :: trial_phase
  t_actions :: "'a list"
  t_watch :: "'w fan"
  t_act :: "'a fan"
  t_out :: "report_line list"

datatype trial_event =
    WatchReturns nat "string option"
  | StartActions
  | ActionReturns nat "string option"
  | WaitActions bool duration
  | WaitWatches bool duration duration

definition trial_start :: "'w list \<Rightarrow> 'a list \<Rightarrow> ('w, 'a) trial go" where
  "trial_start watches actions =
     go_bind (fan_start watches) (\<lambda>w. Ret \<lparr> t_phase = Watching, t_actions = actions, t_watch = w,
       t_act = \<lparr> fan_wg = 0, fan_ok = 0, fan_running = [] \<rparr>, t_out = [] \<rparr>)"

fun trial_step :: "trial_event \<Rightarrow> ('w, 'a) trial \<Rightarrow> ('w, 'a) trial go option" where
  "trial_step (WatchReturns i err) t =
     (if t_phase t \<in> {Finished, Cancelled} then None
      else map_option (\<lambda>r. go_bind r (\<lambda>w. Ret (t\<lparr> t_watch := w \<rparr>))) (fan_return i err (t_watch t)))"
| "trial_step StartActions t =
     (if t_phase t = Watching then Some (go_bind (fan_start (t_actions t)) (\<lambda>a. Ret (t\<lparr> t_act := a, t_phase := Acting \<rparr>))) else None)"
| "trial_step (ActionReturns i err) t =
     (if t_phase t \<noteq> Acting then None
      else map_option (\<lambda>r. go_bind r (\<lambda>a. Ret (t\<lparr> t_act := a \<rparr>))) (fan_return i err (t_act t)))"
| "trial_step (WaitActions cancelled elapsed) t =
     (if t_phase t = Acting \<and> fan_wg (t_act t) = 0
      then Some (Ret (if cancelled then t\<lparr> t_phase := Cancelled \<rparr>
             else t\<lparr> t_phase := Acted, t_out := t_out t @ [TargetsScaled (fan_ok (t_act t)) (length (t_actions t)) elapsed] \<rparr>))
      else None)"
| "trial_step (WaitWatches cancelled elapsed elapsed') t =
     (if t_phase t = Acted \<and> fan_wg (t_watch t) = 0
      then Some (Ret (if cancelled then t\<lparr> t_phase := Cancelled \<rparr>
             else t\<lparr> t_phase := Finished,
                    t_out := t_out t @ [RPCReturned (fan_ok (t_watch t)) (length (t_actions t)) elapsed, Total (Microseconds elapsed')] \<rparr>))
      else None)"

fun trial_run :: "trial_event list \<Rightarrow> ('w, 'a) trial \<Rightarrow> ('w, 'a) trial go option" where
  "trial_run [] t = Some (Ret t)"
| "trial_run (ev # evs) t = (case trial_step ev t of
      None \<Rightarrow> None | Some (Panic m) \<Rightarrow> Some (Panic m) | Some (Ret t') \<Rightarrow> trial_run evs t')"

section \<open>The experiments\<close>

text \<open>
  The deployment breakdown up to the first watch request: \<open>listed\<close> are the deployments, \<open>polls\<close> the answers to
  \<open>waitForReplicaSets\<close>, \<open>c\<close> the connected client. The updates are those of the scale subresource.
\<close>

definition as_start ::
    "kdrpc_lib \<Rightarrow> int \<Rightarrow> bool \<Rightarrow> string + Deployment list \<Rightarrow> (string + ReplicaSet list) list \<Rightarrow> kdClient
       \<Rightarrow> (DeploymentWatchRequest, NamespacedName \<times> int) trial go option" where
  "as_start R nPods fallback listed polls c =
     (case as_targets R fallback listed of
        Panic m \<Rightarrow> Some (Panic m)
      | Ret targets \<Rightarrow>
          map_option (\<lambda>r. go_bind r (\<lambda>_.
            let perTarget = nPodsPerTarget nPods (length targets) in
            trial_start (map (\<lambda>dp. newDeploymentWatchRequest c dp perTarget) targets)
              (map (\<lambda>dp. ((Namespace dp, Name dp), int32_of perTarget)) targets)))
            (poll (waitForReplicaSets (length targets)) polls))"

text \<open>
  The endpoints breakdown scales the ReplicaSets one after the other, \<open>update\<close> answering, and stops at the
  first error; the updates of the trial are the services with their selector set.
\<close>

fun ep_scaleUp :: "(NamespacedName \<Rightarrow> int \<Rightarrow> string option) \<Rightarrow> int \<Rightarrow> ReplicaSet list \<Rightarrow> (NamespacedName \<times> int) list go" where
  "ep_scaleUp update perTarget [] = Ret []"
| "ep_scaleUp update perTarget (rs # rss) =
     (case update (Namespace rs, Name rs) (int32_of perTarget) of
        Some err \<Rightarrow> Panic (''Error scaling up '' @ Namespace rs @ ''/'' @ Name rs @ '': '' @ err)
      | None \<Rightarrow> go_bind (ep_scaleUp update perTarget rss) (\<lambda>sent. Ret (((Namespace rs, Name rs), int32_of perTarget) # sent)))"

definition ep_select :: "string \<Rightarrow> Service \<Rightarrow> Service" where
  "ep_select selector service = service\<lparr> svc_Selector := [(''app'', Name service), (''workload'', selector)] \<rparr>"

definition ep_start ::
    "kdrpc_lib \<Rightarrow> string \<Rightarrow> int \<Rightarrow> bool \<Rightarrow> string + Service list \<Rightarrow> (NamespacedName \<Rightarrow> string + ReplicaSet)
       \<Rightarrow> (NamespacedName \<Rightarrow> int \<Rightarrow> string option) \<Rightarrow> (string + ReplicaSet list) list \<Rightarrow> kdClient
       \<Rightarrow> (EndpointsWatchRequest, Service) trial go option" where
  "ep_start R selector nPods fallback listed get update polls c =
     (case ep_targets R fallback get listed of
        Panic m \<Rightarrow> Some (Panic m)
      | Ret (services, replicaSets) \<Rightarrow>
          let perTarget = nPodsPerTarget nPods (length services) in
          case ep_scaleUp update perTarget replicaSets of
            Panic m \<Rightarrow> Some (Panic m)
          | Ret _ \<Rightarrow>
              map_option (\<lambda>r. go_bind r (\<lambda>_.
                trial_start (map (newEndpointsWatchRequest c) services) (map (ep_select selector) services)))
                (poll (waitForReadyPods perTarget) polls))"

text \<open>The ReplicaSet breakdown: one blocking request for each target; \<open>NewReplicaSetScalingRequest\<close> is a parameter.\<close>

record ScalingRequest =
  sr_Blocking :: bool

fun rs_requests :: "(kdClient \<Rightarrow> ReplicaSet \<Rightarrow> 'x ScalingRequest_scheme) \<Rightarrow> kdClient \<Rightarrow> int \<Rightarrow> ReplicaSet list \<Rightarrow> 'x ScalingRequest_scheme list go" where
  "rs_requests NewRequest c perTarget [] = Ret []"
| "rs_requests NewRequest c perTarget (target # targets) =
     (case rs_SpecReplicas target of
        None \<Rightarrow> Panic ''nil pointer dereference''
      | Some _ \<Rightarrow>
          let target' = target\<lparr> rs_SpecReplicas := Some (int32_of perTarget) \<rparr> in
          go_bind (rs_requests NewRequest c perTarget targets) (\<lambda>reqs. Ret ((NewRequest c target')\<lparr> sr_Blocking := True \<rparr> # reqs)))"

definition rs_start ::
    "kdrpc_lib \<Rightarrow> (kdClient \<Rightarrow> ReplicaSet \<Rightarrow> 'x ScalingRequest_scheme) \<Rightarrow> int \<Rightarrow> bool \<Rightarrow> string + ReplicaSet list \<Rightarrow> kdClient
       \<Rightarrow> 'x ScalingRequest_scheme fan go" where
  "rs_start R NewRequest nPods fallback listed c =
     go_bind (rs_targets R fallback listed) (\<lambda>targets.
       go_bind (rs_requests NewRequest c (nPodsPerTarget nPods (length targets)) targets) fan_start)"

definition rs_finish :: "nat \<Rightarrow> bool \<Rightarrow> duration \<Rightarrow> duration \<Rightarrow> 'r fan \<Rightarrow> report_line list option" where
  "rs_finish targets cancelled elapsed elapsed' f =
     (if fan_wg f = 0
      then Some (if cancelled then [] else [RPCReturned (fan_ok f) targets elapsed, Total (Microseconds elapsed')])
      else None)"

text \<open>The scheduler breakdown: one request for all pods of a ReplicaSet that need not exist.\<close>

definition sched_run ::
    "kdrpc_lib \<Rightarrow> (kdClient \<Rightarrow> NamespacedName \<Rightarrow> int \<Rightarrow> 'x ScalingRequest_scheme) \<Rightarrow> string \<Rightarrow> int \<Rightarrow> bool \<Rightarrow> string + kpod \<Rightarrow> kdClient
       \<Rightarrow> ('x ScalingRequest_scheme \<Rightarrow> string option) \<Rightarrow> duration \<Rightarrow> duration \<Rightarrow> ('x ScalingRequest_scheme \<times> report_line list) go" where
  "sched_run R NewPodSchedulingRequest target nPods fallback got c SchedulePods elapsed elapsed' =
     go_bind (sched_template R target fallback got) (\<lambda>templatePod.
       let req = (NewPodSchedulingRequest c (Namespace templatePod, target) nPods)\<lparr> sr_Blocking := True \<rparr> in
       Ret (req, case SchedulePods req of Some err \<Rightarrow> [] | None \<Rightarrow> [RPCReturnedIn elapsed, Total (Microseconds elapsed')]))"

text \<open>
  The kubelet breakdown: the binding requests are sent by goroutines that nobody waits for, the wait is
  for the monitor's pods.
\<close>

record 'r kb_trial =
  kt_monitor :: kb_PodMonitor
  kt_nPods :: int
  kt_binding :: "'r PodBindingRequest_scheme list"
  kt_nBound :: int
  kt_out :: "report_line list"
  kt_ended :: bool

definition kb_start ::
    "kdrpc_lib \<Rightarrow> (benchPodInfo \<Rightarrow> kdClient \<Rightarrow> 'r PodBindingRequest_scheme) \<Rightarrow> string \<Rightarrow> string \<Rightarrow> int \<Rightarrow> bool \<Rightarrow> string + kpod
       \<Rightarrow> gotime \<Rightarrow> int \<Rightarrow> kdClient \<Rightarrow> kb_PodMonitor \<Rightarrow> 'r kb_trial go" where
  "kb_start R RequestForBinding node target nPods useDefaultKubelet got ts nano c m =
     go_bind (kb_template R target useDefaultKubelet got) (\<lambda>templatePod.
       go_bind (newPodInfos (Namespace templatePod) target node nPods ts nano) (\<lambda>podInfos.
         let reqs = newBindingRequests RequestForBinding c podInfos in
         go_bind (wg_Add 0 (int (length reqs))) (\<lambda>wg.
           Ret \<lparr> kt_monitor = kb_Watch wg podInfos m, kt_nPods = nPods, kt_binding = reqs, kt_nBound = 0, kt_out = [], kt_ended = False \<rparr>)))"

datatype bench_event =
    CallReturns nat bool
  | PodEvent gotime pod_event
  | WaitPods bool gotime

fun kb_trial_step :: "bench_lib \<Rightarrow> bench_event \<Rightarrow> 'r kb_trial \<Rightarrow> 'r kb_trial go option" where
  "kb_trial_step L (CallReturns i ok) t =
     (if \<not> kt_ended t \<and> i < length (kt_binding t)
      then Some (Ret (t\<lparr> kt_binding := take i (kt_binding t) @ drop (Suc i) (kt_binding t),
                         kt_nBound := (if ok then int32_of (kt_nBound t + 1) else kt_nBound t) \<rparr>))
      else None)"
| "kb_trial_step L (PodEvent now ev) t =
     (if \<not> kt_ended t then Some (go_bind (kb_event L now ev (kt_monitor t)) (\<lambda>m. Ret (t\<lparr> kt_monitor := m \<rparr>))) else None)"
| "kb_trial_step L (WaitPods cancelled start) t =
     (if \<not> kt_ended t \<and> ex_wg (mon_expectation (kt_monitor t)) = Some 0
      then Some (if cancelled then Ret (t\<lparr> kt_ended := True \<rparr>)
             else go_bind (kb_Since start (kt_monitor t)) (\<lambda>latency.
               Ret (t\<lparr> kt_out := [RPCReturned (kt_nBound t) (nat (kt_nPods t)) latency, Total (Microseconds latency)], kt_ended := True \<rparr>)))
      else None)"

text \<open>The end-to-end experiment up to the scale updates.\<close>

definition e2e_start ::
    "('m, nat) sharedMap \<Rightarrow> int \<Rightarrow> string + Deployment list \<Rightarrow> (string + ReplicaSet list) list \<Rightarrow> 'm e2e_state
       \<Rightarrow> ('m e2e_state \<times> (NamespacedName \<times> int) list) go option" where
  "e2e_start S nPods listed polls st =
     (case listed of
        Inl err \<Rightarrow> Some (Panic (''Error listing Deployments: '' @ err))
      | Inr targets \<Rightarrow>
          if targets = [] then Some (Panic ''No Deployment selected'')
          else map_option (\<lambda>r. go_bind r (\<lambda>_.
            go_bind (e2e_prepare S nPods targets st) (\<lambda>st'.
              Ret (st', map (\<lambda>dp. ((Namespace dp, Name dp), int32_of (nPodsPerTarget nPods (length targets)))) targets))))
            (poll (waitForReplicaSets (length targets)) polls))"

definition e2e_finish :: "('m, nat) sharedMap \<Rightarrow> nat \<Rightarrow> int \<Rightarrow> bool \<Rightarrow> gotime \<Rightarrow> 'm e2e_state \<Rightarrow> report_line list go option" where
  "e2e_finish S targets nScaled cancelled start st =
     (if e_wg st = 0
      then Some (if cancelled then Ret []
             else go_bind (e2e_Since S start st) (\<lambda>latency. Ret [TargetsScaled nScaled targets latency, Total (Microseconds latency)]))
      else None)"

section \<open>Command lines\<close>

text \<open>The checks of the \<open>main\<close> functions; the result is the last argument of \<open>run\<close>.\<close>

definition fallback_baseline :: "string \<Rightarrow> bool go" where
  "fallback_baseline baseline =
     (if baseline = ''k8s'' then Ret True
      else if baseline = ''kd'' then Ret False
      else Panic (''unknown baseline '' @ baseline))"

definition as_main :: "string \<Rightarrow> string \<Rightarrow> bool go" where
  "as_main baseline selector = (if selector = '''' then Panic ''must specify workload selector'' else fallback_baseline baseline)"

definition sched_main :: "string \<Rightarrow> string \<Rightarrow> bool go" where
  "sched_main baseline target = (if target = '''' then Panic ''must specify target ReplicaSet'' else fallback_baseline baseline)"

definition kb_main :: "string \<Rightarrow> string \<Rightarrow> string \<Rightarrow> bool go" where
  "kb_main baseline target node =
     (if target = '''' then Panic ''must specify target ReplicaSet''
      else if node = '''' then Panic ''must specify target node''
      else if baseline = ''kubelet'' then Ret True
      else if baseline = ''custom'' then Ret False
      else Panic (''unknown baseline '' @ baseline))"

definition e2e_main :: "string \<Rightarrow> string \<Rightarrow> unit go" where
  "e2e_main baseline selector =
     (if selector = '''' then Panic ''must specify workload selector''
      else if baseline \<in> {''k8s'', ''k8s+'', ''kd'', ''kd+''} then Ret ()
      else Panic (''unknown baseline '' @ baseline))"

section \<open>Trials\<close>

lemma check_all_Ret: "check_all check xs = Ret () \<longleftrightarrow> (\<forall>x \<in> set xs. check x = Ret ())"
  by (induction xs) (auto simp: go_bind_eq_Ret)

lemma as_targets_Ret:
  "as_targets R fallback listed = Ret targets \<longleftrightarrow>
     listed = Inr targets \<and> targets \<noteq> [] \<and> (\<forall>dp \<in> set targets. u_IsManaged R (Labels dp) \<longleftrightarrow> \<not> fallback)"
  by (auto simp: as_targets_def go_bind_eq_Ret check_all_Ret split: sum.splits if_splits)

lemma waitForReplicaSets_True:
  "waitForReplicaSets n listed = Ret True \<longleftrightarrow> (\<exists>items. listed = Inr items \<and> length items = n \<and> (\<forall>rs \<in> set items. rs_Controlled rs))"
  by (auto simp: waitForReplicaSets_def go_bind_eq_Ret check_all_Ret split: sum.splits if_splits)

lemma poll_Ret: "poll condition rest = Some (Ret u) \<Longrightarrow> \<exists>a \<in> set rest. condition a = Ret True"
  by (induction rest) (auto split: go.splits bool.splits)

text \<open>How many goroutines have returned, and how many without an error.\<close>

fun watch_return :: "trial_event \<Rightarrow> string option option" where
  "watch_return (WatchReturns i err) = Some err"
| "watch_return _ = None"

fun action_return :: "trial_event \<Rightarrow> string option option" where
  "action_return (ActionReturns i err) = Some err"
| "action_return _ = None"

definition returned :: "(trial_event \<Rightarrow> string option option) \<Rightarrow> trial_event list \<Rightarrow> nat" where
  "returned sel evs = length (filter (\<lambda>ev. sel ev \<noteq> None) evs)"

definition succeeded :: "(trial_event \<Rightarrow> string option option) \<Rightarrow> trial_event list \<Rightarrow> nat" where
  "succeeded sel evs = length (filter (\<lambda>ev. sel ev = Some None) evs)"

lemma returned_simps [simp]:
  "returned sel [] = 0" "succeeded sel [] = 0"
  "returned sel (evs @ [ev]) = returned sel evs + (if sel ev = None then 0 else 1)"
  "succeeded sel (evs @ [ev]) = succeeded sel evs + (if sel ev = Some None then 1 else 0)"
  by (simp_all add: returned_def succeeded_def)

lemma succeeded_le: "succeeded sel evs \<le> returned sel evs"
  by (induction evs rule: rev_induct) auto

text \<open>A fan of \<open>n\<close> goroutines after \<open>r\<close> of them have returned, \<open>k\<close> without an error.\<close>

definition fan_at :: "nat \<Rightarrow> nat \<Rightarrow> nat \<Rightarrow> 'r fan \<Rightarrow> bool" where
  "fan_at n r k f \<longleftrightarrow> length (fan_running f) + r = n \<and> fan_wg f = int (length (fan_running f)) \<and> fan_ok f = int k \<and> k \<le> r \<and> n < 2 ^ 31"

lemma fan_start_at: "length reqs < 2 ^ 31 \<Longrightarrow> \<exists>f. fan_start reqs = Ret f \<and> fan_at (length reqs) 0 0 f \<and> fan_running f = reqs"
  using wg_Add_exact [of "int (length reqs)"] by (auto simp: fan_start_def fan_at_def)

lemma fan_return_at:
  assumes "fan_return i err f = Some r" "fan_at n m k f"
  shows "\<exists>f'. r = Ret f' \<and> fan_at n (Suc m) (if err = None then Suc k else k) f'"
proof -
  have i: "i < length (fan_running f)"
    using assms(1) by (auto simp: fan_return_def split: if_splits)
  have a: "length (fan_running f) + m = n" "fan_wg f = int (length (fan_running f))" "fan_ok f = int k" "k \<le> m" "n < 2 ^ 31"
    using assms(2) by (auto simp: fan_at_def)
  have "wg_Done (fan_wg f) = Ret (fan_wg f - 1)"
    using a i by (intro wg_Done_pos) auto
  moreover have "int32_of (int k + 1) = int k + 1"
    using a i by (intro int32_of_id) auto
  ultimately show ?thesis
    using assms(1) a i by (auto simp: fan_return_def fan_at_def split: option.splits)
qed

definition trial_inv :: "nat \<Rightarrow> trial_event list \<Rightarrow> ('w, 'a) trial \<Rightarrow> bool" where
  "trial_inv n evs t \<longleftrightarrow> length (t_actions t) = n
     \<and> fan_at n (returned watch_return evs) (succeeded watch_return evs) (t_watch t)
     \<and> (if t_phase t = Watching then returned action_return evs = 0 \<and> succeeded action_return evs = 0
        else fan_at n (returned action_return evs) (succeeded action_return evs) (t_act t))
     \<and> (case t_phase t of
          Acted \<Rightarrow> returned action_return evs = n \<and> (\<exists>e. t_out t = [TargetsScaled (int (succeeded action_return evs)) n e])
        | Finished \<Rightarrow> returned action_return evs = n \<and> returned watch_return evs = n
            \<and> (\<exists>e e' e''. t_out t = [TargetsScaled (int (succeeded action_return evs)) n e,
                 RPCReturned (int (succeeded watch_return evs)) n e', Total (Microseconds e'')])
        | Cancelled \<Rightarrow> True
        | _ \<Rightarrow> t_out t = [])"

lemma trial_inv_start:
  assumes "length watches = n" "length actions = n" "n < 2 ^ 31"
  shows "\<exists>t. trial_start watches actions = Ret t \<and> trial_inv n [] t \<and> fan_running (t_watch t) = watches \<and> t_actions t = actions"
  using fan_start_at [of watches] assms by (auto simp: trial_start_def trial_inv_def)

lemma fan_at_done: "fan_at n r k f \<Longrightarrow> fan_wg f = 0 \<Longrightarrow> r = n"
  by (auto simp: fan_at_def)

lemma fan_at_ok: "fan_at n r k f \<Longrightarrow> fan_ok f = int k"
  by (simp add: fan_at_def)

lemma trial_inv_step:
  assumes "trial_step ev t = Some r" "trial_inv n evs t" "n < 2 ^ 31"
  shows "\<exists>t'. r = Ret t' \<and> trial_inv n (evs @ [ev]) t'"
proof (cases ev)
  case (WatchReturns i err)
  then obtain w where w: "fan_return i err (t_watch t) = Some w" "r = go_bind w (\<lambda>w. Ret (t\<lparr> t_watch := w \<rparr>))" "t_phase t \<notin> {Finished, Cancelled}"
    using assms(1) by (auto split: if_splits)
  have "fan_at n (returned watch_return evs) (succeeded watch_return evs) (t_watch t)"
    using assms(2) by (simp add: trial_inv_def)
  then obtain w' where "w = Ret w'" "fan_at n (Suc (returned watch_return evs)) (if err = None then Suc (succeeded watch_return evs) else succeeded watch_return evs) w'"
    using fan_return_at [OF w(1)] by blast
  then show ?thesis
    using w assms(2) WatchReturns by (auto simp: trial_inv_def split: if_splits trial_phase.splits)
next
  case StartActions
  then show ?thesis
    using assms fan_start_at [of "t_actions t"] by (auto simp: trial_inv_def split: if_splits trial_phase.splits)
next
  case (ActionReturns i err)
  then obtain w where w: "fan_return i err (t_act t) = Some w" "r = go_bind w (\<lambda>w. Ret (t\<lparr> t_act := w \<rparr>))" "t_phase t = Acting"
    using assms(1) by (auto split: if_splits)
  have "fan_at n (returned action_return evs) (succeeded action_return evs) (t_act t)"
    using assms(2) w(3) by (simp add: trial_inv_def)
  then obtain w' where "w = Ret w'" "fan_at n (Suc (returned action_return evs)) (if err = None then Suc (succeeded action_return evs) else succeeded action_return evs) w'"
    using fan_return_at [OF w(1)] by blast
  then show ?thesis
    using w assms(2) ActionReturns by (auto simp: trial_inv_def split: if_splits trial_phase.splits)
next
  case (WaitActions cancelled e)
  then have p: "t_phase t = Acting" "fan_wg (t_act t) = 0"
    and r: "r = Ret (if cancelled then t\<lparr> t_phase := Cancelled \<rparr> else t\<lparr> t_phase := Acted,
        t_out := t_out t @ [TargetsScaled (fan_ok (t_act t)) (length (t_actions t)) e] \<rparr>)"
    using assms(1) by (auto split: if_splits)
  have a: "fan_at n (returned action_return evs) (succeeded action_return evs) (t_act t)"
    using assms(2) p by (simp add: trial_inv_def)
  show ?thesis
    unfolding r using assms(2) p fan_at_done [OF a p(2)] fan_at_ok [OF a]
    by (cases cancelled) (auto simp: trial_inv_def WaitActions)
next
  case (WaitWatches cancelled e e')
  then have p: "t_phase t = Acted" "fan_wg (t_watch t) = 0"
    and r: "r = Ret (if cancelled then t\<lparr> t_phase := Cancelled \<rparr> else t\<lparr> t_phase := Finished,
        t_out := t_out t @ [RPCReturned (fan_ok (t_watch t)) (length (t_actions t)) e, Total (Microseconds e')] \<rparr>)"
    using assms(1) by (auto split: if_splits)
  have a: "fan_at n (returned watch_return evs) (succeeded watch_return evs) (t_watch t)"
    using assms(2) by (simp add: trial_inv_def)
  show ?thesis
    unfolding r using assms(2) p fan_at_done [OF a p(2)] fan_at_ok [OF a]
    by (cases cancelled) (auto simp: trial_inv_def WaitWatches)
qed

lemma trial_inv_run:
  assumes "trial_run evs t = Some r" "trial_inv n past t" "n < 2 ^ 31"
  shows "\<exists>t'. r = Ret t' \<and> trial_inv n (past @ evs) t'"
  using assms(1,2)
proof (induction evs arbitrary: past t)
  case (Cons ev evs)
  obtain r' where r': "trial_step ev t = Some r'"
    using Cons.prems(1) by (auto split: option.splits)
  obtain t' where t': "r' = Ret t'" "trial_inv n (past @ [ev]) t'"
    using trial_inv_step [OF r' Cons.prems(2) assms(3)] by blast
  then have "trial_run evs t' = Some r"
    using Cons.prems(1) r' by simp
  from Cons.IH [OF this t'(2)] show ?case by simp
qed auto

lemma trial_report:
  assumes "trial_run evs t0 = Some r" "trial_start watches actions = Ret t0" "length watches = n" "length actions = n" "n < 2 ^ 31"
  shows "fan_running (t_watch t0) = watches \<and> t_actions t0 = actions
    \<and> (\<exists>t. r = Ret t \<and> (t_phase t = Finished \<longrightarrow> returned action_return evs = n \<and> returned watch_return evs = n
         \<and> (\<exists>e e' e''. t_out t = [TargetsScaled (int (succeeded action_return evs)) n e,
              RPCReturned (int (succeeded watch_return evs)) n e', Total (Microseconds e'')])))"
proof -
  have inv: "trial_inv n [] t0" "fan_running (t_watch t0) = watches" "t_actions t0 = actions"
    using trial_inv_start [OF assms(3-5)] assms(2) by auto
  obtain t where "r = Ret t" "trial_inv n evs t"
    using trial_inv_run [OF assms(1) inv(1) assms(5)] by auto
  then show ?thesis using inv by (auto simp: trial_inv_def)
qed

text \<open>
  The deployment breakdown starts only with at least one target, all of them managed exactly outside fallback mode, after
  a poll that showed as many ReplicaSets as targets, each with an owner. It sends one watch request and one scale
  update to every target, both for the same number of replicas. However its goroutines interleave it does not
  panic, and when it prints its report, every goroutine has returned and the report counts exactly
  the updates and the watches that succeeded.
\<close>

theorem deployment_experiment:
  assumes "as_start R nPods fallback (Inr targets) polls c = Some (Ret t0)" "trial_run evs t0 = Some r" "length targets < 2 ^ 31"
  shows "targets \<noteq> [] \<and> (\<forall>dp \<in> set targets. u_IsManaged R (Labels dp) \<longleftrightarrow> \<not> fallback)
    \<and> (\<exists>items. Inr items \<in> set polls \<and> length items = length targets \<and> list_all rs_Controlled items)
    \<and> fan_running (t_watch t0) = map (\<lambda>dp. \<lparr> dw_Source = kc_ID c, dw_Epoch = kc_Epoch c,
         dw_Target = (Namespace dp, Name dp), dw_Replicas = int32_of (nPodsPerTarget nPods (length targets)) \<rparr>) targets
    \<and> t_actions t0 = map (\<lambda>dp. ((Namespace dp, Name dp), int32_of (nPodsPerTarget nPods (length targets)))) targets
    \<and> (\<exists>t. r = Ret t \<and> (t_phase t = Finished \<longrightarrow>
          returned action_return evs = length targets \<and> returned watch_return evs = length targets
          \<and> (\<exists>e e' e''. t_out t = [TargetsScaled (int (succeeded action_return evs)) (length targets) e,
               RPCReturned (int (succeeded watch_return evs)) (length targets) e', Total (Microseconds e'')])))"
proof -
  let ?n = "length targets" and ?replicas = "int32_of (nPodsPerTarget nPods (length targets))"
  let ?watches = "map (\<lambda>dp. newDeploymentWatchRequest c dp (nPodsPerTarget nPods ?n)) targets"
    and ?actions = "map (\<lambda>dp. ((Namespace dp, Name dp), ?replicas)) targets"
  obtain ts where ts: "as_targets R fallback (Inr targets) = Ret ts"
    using assms(1) by (auto simp: as_start_def split: go.splits)
  then have sel: "ts = targets" "targets \<noteq> []" "\<forall>dp \<in> set targets. u_IsManaged R (Labels dp) \<longleftrightarrow> \<not> fallback"
    by (auto simp: as_targets_Ret)
  obtain u where u: "poll (waitForReplicaSets ?n) polls = Some u" "go_bind u (\<lambda>_. trial_start ?watches ?actions) = Ret t0"
    using assms(1) ts by (auto simp: as_start_def sel(1) Let_def)
  then have p: "poll (waitForReplicaSets ?n) polls = Some (Ret ())" and t0: "trial_start ?watches ?actions = Ret t0"
    by (auto simp: go_bind_eq_Ret)
  obtain a where "a \<in> set polls" "waitForReplicaSets ?n a = Ret True"
    using poll_Ret [OF p] by blast
  then obtain items where items: "Inr items \<in> set polls" "length items = ?n" "list_all rs_Controlled items"
    by (auto simp: waitForReplicaSets_True list_all_iff)
  have w: "?watches = map (\<lambda>dp. \<lparr> dw_Source = kc_ID c, dw_Epoch = kc_Epoch c,
         dw_Target = (Namespace dp, Name dp), dw_Replicas = ?replicas \<rparr>) targets"
    by (simp add: newDeploymentWatchRequest_def)
  from trial_report [OF assms(2) t0, of ?n] show ?thesis
    using sel items w assms(3) by (intro conjI) auto
qed

definition sample_kdrpc :: kdrpc_lib where
  "sample_kdrpc = \<lparr>
     NewHandshakeRequest = (\<lambda>src dest. \<lparr> hs_Source = src, hs_Destination = dest, hs_Epoch = ''e1'' \<rparr>),
     DeploymentServicePort = '':1'', EndpointsServicePort = '':2'', ReplicaSetServicePort = '':3'', SchedulerServicePort = '':4'',
     KubeletServicePort = '':5'', GetKubeletServiceOverrideAddr = (\<lambda>n. (label (Annotations n) ''kubelet-addr'', False)),
     u_IsPodReady = (\<lambda>pod. True), u_IsManaged = (\<lambda>ls. label ls ''managed'' \<noteq> ''''), u_IsFallbackScaling = (\<lambda>ls. False),
     u_IsFallbackBinding = (\<lambda>ls. False), u_IsTemplatePod = (\<lambda>ls. True), u_IsKubeletResponsibleFor = (\<lambda>ls. False),
     u_OwnerNameLabel = ''owner'' \<rparr>"

definition one_deployment :: Deployment where
  "one_deployment = \<lparr> Namespace = ''default'', Name = ''f'', Labels = [(''managed'', ''y'')], Deleting = False, Replicas = Some 0, TemplateLabels = [] \<rparr>"

definition one_replicaset :: ReplicaSet where
  "one_replicaset = \<lparr> Namespace = ''default'', Name = ''f-1'', Labels = [], rs_Controlled = True, rs_SpecReplicas = Some 0, rs_ReadyReplicas = 0 \<rparr>"

definition one_client_bench :: kdClient where
  "one_client_bench = \<lparr> kc_ID = ''test'', kc_Epoch = ''e1'' \<rparr>"

definition one_trial :: "(DeploymentWatchRequest, NamespacedName \<times> int) trial" where
  "one_trial = \<lparr> t_phase = Watching, t_actions = [((''default'', ''f''), 5)],
     t_watch = \<lparr> fan_wg = 1, fan_ok = 0, fan_running = [\<lparr> dw_Source = ''test'', dw_Epoch = ''e1'', dw_Target = (''default'', ''f''), dw_Replicas = 5 \<rparr>] \<rparr>,
     t_act = \<lparr> fan_wg = 0, fan_ok = 0, fan_running = [] \<rparr>, t_out = [] \<rparr>"

definition one_trial_events :: "trial_event list" where
  "one_trial_events = [StartActions, WatchReturns 0 (Some ''unavailable''), ActionReturns 0 None, WaitActions False 7, WaitWatches False 9 9]"

theorem deployment_experiment_witness:
  "\<exists>t. trial_run one_trial_events one_trial = Some (Ret t)
     \<and> (\<exists>e e' e''. t_out t = [TargetsScaled 1 1 e, RPCReturned 0 1 e', Total (Microseconds e'')])"
proof -
  have per: "nPodsPerTarget 5 (Suc 0) = 5" by (simp add: nPodsPerTarget_def signed_divide_int_def)
  have s: "as_start sample_kdrpc 5 False (Inr [one_deployment]) [Inr [], Inr [one_replicaset]] one_client_bench = Some (Ret one_trial)"
    by (simp add: as_start_def as_targets_def sample_kdrpc_def one_deployment_def label_def gm_get_def waitForReplicaSets_def one_replicaset_def
        trial_start_def fan_start_def wg_Add_def one_trial_def newDeploymentWatchRequest_def one_client_bench_def per Let_def)
  obtain t where t: "trial_run one_trial_events one_trial = Some (Ret t)" "t_phase t = Finished"
    by (simp add: one_trial_events_def one_trial_def fan_start_def fan_return_def wg_Add_def wg_Done_def)
  have "length [one_deployment] < 2 ^ 31" by simp
  from deployment_experiment [OF s t(1) this] show ?thesis
    using t by (auto simp: one_trial_events_def returned_def succeeded_def)
qed

section \<open>The kubelet breakdown against the node agent\<close>

text \<open>The binding requests reach the agent one after the other.\<close>

fun bind_all ::
    "('c, 'cp, 'x, 'im, 'tm, 'h, 'q, 't, 'r) kdlib \<Rightarrow> 't kube \<Rightarrow> 'r PodBindingRequest_scheme list
       \<Rightarrow> ('c, 'cp, 'im, 'tm, 'h, 'q) KubedirectServer \<Rightarrow> (rpc_error + unit) list \<times> ('c, 'cp, 'im, 'tm, 'h, 'q) KubedirectServer" where
  "bind_all K E [] s = ([], s)"
| "bind_all K E (req # reqs) s =
     (let (answer, s1) = BindPod K E req s; (others, s2) = bind_all K E reqs s1 in (answer # others, s2))"

lemma BindPod_accepts:
  assumes "kubelet_env K dirty processing delayed epoch"
    and "epoch (serverHub s) (bind_Source req) = Some (bind_Epoch req)"
    and "GetUnnamedTemplateFor E (bind_OwnerNamespace req) (bind_OwnerName req) False = Inr t"
    and "sm_Get (lib_cache K) (inMemCache s) (InfoName (NewPodInfoFromBindingRequest K req)) = None"
  shows "\<exists>s'. BindPod K E req s = (Inr (), s') \<and> epoch (serverHub s') = epoch (serverHub s)
     \<and> dirty (KubedirectServer.queue s') = insert (NewPendingPodFromInMemCache (NewPodInfoFromBindingRequest K req)) (dirty (KubedirectServer.queue s))
     \<and> sm_Get (lib_cache K) (inMemCache s') = (sm_Get (lib_cache K) (inMemCache s))
         (InfoName (NewPodInfoFromBindingRequest K req) \<mapsto> NewPodInfoFromBindingRequest K req)"
proof -
  let ?info = "NewPodInfoFromBindingRequest K req" and ?src = "bind_Source req"
  have hub: "epoch_hub (lib_hub K) epoch" and sm: "shared_map (lib_cache K)"
    and q: "rate_limited_queue (lib_queue K) dirty processing delayed"
    using assms(1) by (simp_all add: kubelet_env_def)
  obtain h where h: "hub_RLock (lib_hub K) (serverHub s) ?src (bind_Epoch req) = Inr h"
      "epoch (hub_RUnlock (lib_hub K) h ?src) = epoch (serverHub s)"
    using epoch_hub.RLock_granted [OF hub assms(2)] by blast
  have g: "sm_GetOrCreate (lib_cache K) (inMemCache s) (InfoName ?info) ?info
      = (?info, True, sm_Set (lib_cache K) (inMemCache s) (InfoName ?info) ?info)"
    using assms(4) by (simp add: shared_map.GetOrCreate_new [OF sm] shared_map.Get_inner [OF sm])
  show ?thesis
    using assms(3) h by (simp add: BindPod_def Let_def g shared_map.Set_inner [OF sm] shared_map.Get_inner [OF sm] fun_eq_iff
        work_queue.Add_dirty [OF rate_limited_queue.axioms(1) [OF q]])
qed

definition req_name :: "('c, 'cp, 'x, 'im, 'tm, 'h, 'q, 't, 'r) kdlib \<Rightarrow> 'r PodBindingRequest_scheme \<Rightarrow> string" where
  "req_name K req = InfoName (NewPodInfoFromBindingRequest K req)"

lemma bind_all_accepts:
  assumes "kubelet_env K dirty processing delayed epoch" "distinct (map (req_name K) reqs)"
    and "\<And>req. req \<in> set reqs \<Longrightarrow> epoch (serverHub s) (bind_Source req) = Some (bind_Epoch req)
           \<and> GetUnnamedTemplateFor E (bind_OwnerNamespace req) (bind_OwnerName req) False = Inr t
           \<and> sm_Get (lib_cache K) (inMemCache s) (req_name K req) = None"
  shows "\<exists>s'. bind_all K E reqs s = (replicate (length reqs) (Inr ()), s')
     \<and> dirty (KubedirectServer.queue s') = dirty (KubedirectServer.queue s) \<union> (NewPendingPodFromInMemCache \<circ> NewPodInfoFromBindingRequest K) ` set reqs
     \<and> (\<forall>k. sm_Get (lib_cache K) (inMemCache s) k \<noteq> None \<or> k \<in> req_name K ` set reqs
           \<longrightarrow> sm_Get (lib_cache K) (inMemCache s') k \<noteq> None)"
  using assms(2,3)
proof (induction reqs arbitrary: s)
  case (Cons req reqs)
  obtain s1 where s1: "BindPod K E req s = (Inr (), s1)" "epoch (serverHub s1) = epoch (serverHub s)"
      "dirty (KubedirectServer.queue s1) = insert (NewPendingPodFromInMemCache (NewPodInfoFromBindingRequest K req)) (dirty (KubedirectServer.queue s))"
      "sm_Get (lib_cache K) (inMemCache s1) = (sm_Get (lib_cache K) (inMemCache s))(req_name K req \<mapsto> NewPodInfoFromBindingRequest K req)"
    using BindPod_accepts [OF assms(1), of s req E t] Cons.prems(2) [of req] by (auto simp: req_name_def)
  have d: "distinct (map (req_name K) reqs)" "req_name K req \<notin> req_name K ` set reqs"
    using Cons.prems(1) by auto
  have "epoch (serverHub s1) (bind_Source r) = Some (bind_Epoch r)
      \<and> GetUnnamedTemplateFor E (bind_OwnerNamespace r) (bind_OwnerName r) False = Inr t
      \<and> sm_Get (lib_cache K) (inMemCache s1) (req_name K r) = None" if r: "r \<in> set reqs" for r
  proof -
    have "req_name K r \<noteq> req_name K req" using d(2) r by (metis imageI)
    then show ?thesis using Cons.prems(2) [of r] r s1(2,4) by auto
  qed
  from Cons.IH [OF d(1) this] obtain s2 where s2: "bind_all K E reqs s1 = (replicate (length reqs) (Inr ()), s2)"
      "dirty (KubedirectServer.queue s2) = dirty (KubedirectServer.queue s1) \<union> (NewPendingPodFromInMemCache \<circ> NewPodInfoFromBindingRequest K) ` set reqs"
      "\<And>k. sm_Get (lib_cache K) (inMemCache s1) k \<noteq> None \<or> k \<in> req_name K ` set reqs \<longrightarrow> sm_Get (lib_cache K) (inMemCache s2) k \<noteq> None"
    by blast
  have "sm_Get (lib_cache K) (inMemCache s2) k \<noteq> None"
    if "sm_Get (lib_cache K) (inMemCache s) k \<noteq> None \<or> k \<in> req_name K ` set (req # reqs)" for k
    using s2(3) [of k] that s1(4) by (cases "k = req_name K req") auto
  then show ?case
    using s1 s2 by auto
qed simp

lemma newPodInfos_names:
  assumes "newPodInfos ns owner node n ts nano = Ret infos"
  shows "distinct (map InfoName infos)" "\<And>i. i \<in> set infos \<Longrightarrow> InfoNamespace i = ns \<and> OwnerName i = owner"
proof -
  show m: "InfoNamespace i = ns \<and> OwnerName i = owner" if "i \<in> set infos" for i
    using assms that by (auto simp: newPodInfos_def split: if_splits)
  have "map infoKey infos = map (\<lambda>x. ns @ ''/'' @ x) (map InfoName infos)"
    using m by (simp add: infoKey_def)
  then show "distinct (map InfoName infos)"
    using newPodInfos_Ret(3) [OF assms] by (metis distinct_map)
qed

text \<open>The binding requests, in the order in which they arrive.\<close>

lemma arriving_requests:
  assumes "newPodInfos ns target node n ts nano = Ret infos" "mset reqs = mset (newBindingRequests RequestForBinding c infos)"
    and "\<And>i. req_name K (RequestForBinding i c) = InfoName i"
  shows "set reqs = (\<lambda>i. RequestForBinding i c) ` set infos" "length reqs = nat n" "distinct (map (req_name K) reqs)"
proof -
  show "set reqs = (\<lambda>i. RequestForBinding i c) ` set infos"
    using mset_eq_setD [OF assms(2)] by (simp add: newBindingRequests_def)
  show "length reqs = nat n"
    using mset_eq_length [OF assms(2)] newPodInfos_Ret(2) [OF assms(1)] by (simp add: newBindingRequests_def)
  have "map (req_name K) (newBindingRequests RequestForBinding c infos) = map InfoName infos"
    using assms(3) by (simp add: newBindingRequests_def)
  then have "mset (map (req_name K) reqs) = mset (map InfoName infos)"
    using assms(2) by (metis mset_map)
  then show "distinct (map (req_name K) reqs)"
    using newPodInfos_names(1) [OF assms(1)] mset_eq_imp_distinct_iff by blast
qed

text \<open>
  C18. The kubelet breakdown works with the node agent. Its handshake with the agent succeeds, and in the
  epoch it obtains every binding request it prepared is accepted, in whatever order the goroutines'
  requests arrive; afterwards every pod waits in the agent's queue and is in its memory.
\<close>

theorem kubelet_experiment_binds:
  assumes "kubelet_env K dirty processing delayed epoch"
    and "\<And>src dest. hs_Source (NewHandshakeRequest R src dest) = src \<and> hs_Destination (NewHandshakeRequest R src dest) = dest"
    and "\<And>i c. bind_Source (RequestForBinding i c) = kc_ID c \<and> bind_Epoch (RequestForBinding i c) = kc_Epoch c
           \<and> bind_OwnerNamespace (RequestForBinding i c) = InfoNamespace i \<and> bind_OwnerName (RequestForBinding i c) = OwnerName i
           \<and> InfoNamespace (NewPodInfoFromBindingRequest K (RequestForBinding i c)) = InfoNamespace i
           \<and> InfoName (NewPodInfoFromBindingRequest K (RequestForBinding i c)) = InfoName i"
    and "newPodInfos ns target node n ts nano = Ret infos"
    and "GetUnnamedTemplateFor E ns target False = Inr t"
    and "\<And>i. i \<in> set infos \<Longrightarrow> sm_Get (lib_cache K) (inMemCache s0) (InfoName i) = None"
    and "Handshake K cl (NewHandshakeRequest R (kdClientKeyFunc node) node) s0 = (msg, s)"
    and "doKubeletHandshake R (\<lambda>_. Inr (hr_Epoch msg)) (kdClientKeyFunc node) node = Ret answer"
    and "mset reqs = mset (newBindingRequests RequestForBinding \<lparr> kc_ID = kdClientKeyFunc node, kc_Epoch = hr_Epoch msg \<rparr> infos)"
  shows "answer = Inr (hr_Epoch msg)
    \<and> (\<exists>s'. bind_all K E reqs s = (replicate (nat n) (Inr ()), s')
        \<and> NewPendingPodFromInMemCache ` set infos \<subseteq> dirty (KubedirectServer.queue s')
        \<and> (\<forall>i \<in> set infos. sm_Get (lib_cache K) (inMemCache s') (InfoName i) \<noteq> None))"
proof -
  let ?c = "\<lparr> kc_ID = kdClientKeyFunc node, kc_Epoch = hr_Epoch msg \<rparr>"
  have hub: "epoch_hub (lib_hub K) epoch"
    using assms(1) by (simp add: kubelet_env_def)
  have m: "hr_Epoch msg = hs_Epoch (NewHandshakeRequest R (kdClientKeyFunc node) node)" "inMemCache s = inMemCache s0"
    and ep: "epoch (serverHub s) (kdClientKeyFunc node) = Some (hr_Epoch msg)"
    using assms(2) [of "kdClientKeyFunc node" node] assms(7)
    by (auto simp: Handshake_def Let_def epoch_hub.epoch_Lock [OF hub] split: prod.splits)
  have ans: "answer = Inr (hr_Epoch msg)"
    using assms(8) m(1) by (simp add: doKubeletHandshake_def handshake_epoch_def Let_def)
  note names = newPodInfos_names [OF assms(4)]
  have rn: "req_name K (RequestForBinding i ?c) = InfoName i" for i
    using assms(3) by (simp add: req_name_def)
  note arr = arriving_requests [OF assms(4,9) rn]
  have ok: "epoch (serverHub s) (bind_Source req) = Some (bind_Epoch req)
      \<and> GetUnnamedTemplateFor E (bind_OwnerNamespace req) (bind_OwnerName req) False = Inr t
      \<and> sm_Get (lib_cache K) (inMemCache s) (req_name K req) = None" if "req \<in> set reqs" for req
  proof -
    from that arr(1) obtain i where i: "i \<in> set infos" "req = RequestForBinding i ?c" by auto
    show ?thesis
      unfolding i(2) rn m(2) using assms(3) [of i ?c] names(2) [OF i(1)] assms(6) [OF i(1)] assms(5) ep by simp
  qed
  have "\<exists>s'. bind_all K E reqs s = (replicate (length reqs) (Inr ()), s')
     \<and> dirty (KubedirectServer.queue s') = dirty (KubedirectServer.queue s) \<union> (NewPendingPodFromInMemCache \<circ> NewPodInfoFromBindingRequest K) ` set reqs
     \<and> (\<forall>k. sm_Get (lib_cache K) (inMemCache s) k \<noteq> None \<or> k \<in> req_name K ` set reqs
           \<longrightarrow> sm_Get (lib_cache K) (inMemCache s') k \<noteq> None)"
    by (rule bind_all_accepts [OF assms(1) arr(3)]) (rule ok)
  then obtain s' where s': "bind_all K E reqs s = (replicate (length reqs) (Inr ()), s')"
      "dirty (KubedirectServer.queue s') = dirty (KubedirectServer.queue s) \<union> (NewPendingPodFromInMemCache \<circ> NewPodInfoFromBindingRequest K) ` set reqs"
      "\<forall>k. sm_Get (lib_cache K) (inMemCache s) k \<noteq> None \<or> k \<in> req_name K ` set reqs \<longrightarrow> sm_Get (lib_cache K) (inMemCache s') k \<noteq> None"
    by (elim exE conjE)
  have "NewPendingPodFromInMemCache (NewPodInfoFromBindingRequest K (RequestForBinding i ?c)) = NewPendingPodFromInMemCache i" for i
    using assms(3) by (simp add: NewPendingPodFromInMemCache_def)
  then have inq: "NewPendingPodFromInMemCache ` set infos \<subseteq> dirty (KubedirectServer.queue s')"
    using s'(2) arr(1) by (simp add: image_image image_comp)
  have inc: "sm_Get (lib_cache K) (inMemCache s') (InfoName i) \<noteq> None" if "i \<in> set infos" for i
  proof -
    have "InfoName i \<in> req_name K ` set reqs"
      using that arr(1) rn by (metis imageI)
    with s'(3) show ?thesis by (elim allE impE) (rule disjI2, assumption)
  qed
  show ?thesis
    unfolding arr(2) [symmetric] by (intro conjI exI [of _ s'] ballI ans s'(1) inq inc)
qed

definition bench_request :: "benchPodInfo \<Rightarrow> kdClient \<Rightarrow> string PodBindingRequest_scheme" where
  "bench_request i c = \<lparr> bind_Source = kc_ID c, bind_Epoch = kc_Epoch c, bind_OwnerNamespace = InfoNamespace i,
     bind_OwnerName = OwnerName i, \<dots> = InfoName i \<rparr>"

lemma sample_template: "GetUnnamedTemplateFor (sample_kube 0 0 (Inl (KNotFound ''p''))) ''default'' ''f'' False = Inr ''template''"
  by (simp add: sample_kube_def)

theorem kubelet_experiment_binds_witness:
  "\<exists>s s'. Handshake sample_lib ''client'' \<lparr> hs_Source = ''test/n1'', hs_Destination = ''n1'', hs_Epoch = ''e1'' \<rparr> sample_server
        = (\<lparr> hr_Epoch = ''e1'', hr_Name = ''n1'', hr_Pods = [] \<rparr>, s)
     \<and> bind_all sample_lib (sample_kube 0 0 (Inl (KNotFound ''p'')))
          (rev (newBindingRequests bench_request \<lparr> kc_ID = ''test/n1'', kc_Epoch = ''e1'' \<rparr> two_infos)) s = (replicate 2 (Inr ()), s')"
proof -
  have k: "kdClientKeyFunc ''n1'' = ''test/n1''"
    by (simp add: kdClientKeyFunc_def testClient_def)
  have r: "NewHandshakeRequest sample_kdrpc src dest = \<lparr> hs_Source = src, hs_Destination = dest, hs_Epoch = ''e1'' \<rparr>" for src dest
    by (simp add: sample_kdrpc_def)
  obtain s where s: "Handshake sample_lib ''client'' (NewHandshakeRequest sample_kdrpc (kdClientKeyFunc ''n1'') ''n1'') sample_server
        = (\<lparr> hr_Epoch = ''e1'', hr_Name = ''n1'', hr_Pods = [] \<rparr>, s)"
    by (simp add: r k sample_defs Handshake_def gm_get_def gm_set_def map_hub_def plain_lib_def)
  have h: "doKubeletHandshake sample_kdrpc (\<lambda>_. Inr (hr_Epoch \<lparr> hr_Epoch = ''e1'', hr_Name = ''n1'', hr_Pods = [] \<rparr>)) (kdClientKeyFunc ''n1'') ''n1'' = Ret (Inr ''e1'')"
    by (simp add: doKubeletHandshake_def handshake_epoch_def r)
  have new: "sm_Get (lib_cache sample_lib) (inMemCache sample_server) (InfoName i) = None" for i :: benchPodInfo
    by (simp add: sample_defs gm_get_def)
  have lib: "bind_Source (bench_request i c) = kc_ID c \<and> bind_Epoch (bench_request i c) = kc_Epoch c
      \<and> bind_OwnerNamespace (bench_request i c) = InfoNamespace i \<and> bind_OwnerName (bench_request i c) = OwnerName i
      \<and> InfoNamespace (NewPodInfoFromBindingRequest sample_lib (bench_request i c)) = InfoNamespace i
      \<and> InfoName (NewPodInfoFromBindingRequest sample_lib (bench_request i c)) = InfoName i" for i c
    by (simp add: bench_request_def sample_lib_def plain_lib_def)
  have hs: "hs_Source (NewHandshakeRequest sample_kdrpc src dest) = src \<and> hs_Destination (NewHandshakeRequest sample_kdrpc src dest) = dest" for src dest
    by (simp add: r)
  have m: "mset (rev reqs) = mset reqs" for reqs :: "string PodBindingRequest_scheme list"
    by simp
  show ?thesis
    using kubelet_experiment_binds [OF sample_env hs lib two_infos sample_template new s h m] s
    by (simp add: k r) blast
qed

lemma publishServiceAddr_Ret:
  assumes "publishServiceAddr K E s = Ret (Inr b, s')"
  shows "\<exists>node ip. ls_GetNode E (nodeName s) = Inr node \<and> ip \<noteq> '''' \<and> (''InternalIP'', ip) \<in> set (Addresses node)
    \<and> (let node' = node\<lparr> Annotations := gm_set (Annotations node) (KubeletServiceAddrAnnotation K) (ip @ CustomKubeletServicePort) \<rparr>
       in s' = s\<lparr> calls := calls s @ [UpdateNode node'] \<rparr> \<and> (b \<longleftrightarrow> api_UpdateNode E node' = None))"
proof -
  obtain n where n: "ls_GetNode E (nodeName s) = Inr n"
    using assms by (auto simp: publishServiceAddr_def split: sum.splits kube_error.splits)
  define ip where "ip = (case filter (\<lambda>a. fst a = ''InternalIP'') (Addresses n) of [] \<Rightarrow> '''' | a # _ \<Rightarrow> snd a)"
  have ip: "ip \<noteq> ''''"
    using assms n by (auto simp: publishServiceAddr_def Let_def ip_def [symmetric] split: if_splits)
  then obtain a as where "filter (\<lambda>a. fst a = ''InternalIP'') (Addresses n) = a # as" "ip = snd a"
    by (auto simp: ip_def split: list.splits)
  then have a: "a \<in> set (Addresses n)" "fst a = ''InternalIP''" "ip = snd a"
    using filter_ConsD by fast+
  have "(''InternalIP'', ip) = a"
    using a(2,3) by (simp add: prod_eq_iff)
  then have "(''InternalIP'', ip) \<in> set (Addresses n)"
    using a(1) by simp
  with n ip show ?thesis
    using assms by (intro exI [of _ n] exI [of _ ip])
      (auto simp: publishServiceAddr_def Let_def ip_def [symmetric] split: option.splits)
qed

text \<open>
  C34. The address the node agent publishes is the address the experiment dials. After a successful attempt of
  \<open>publishServiceAddr\<close> the node it wrote carries an internal address of the node with the agent's port, and the
  lister of the kubelet breakdown answers exactly this address, with or without an address being required.
\<close>

theorem published_address_listed:
  assumes "\<And>n. fst (GetKubeletServiceOverrideAddr R n) = label (Annotations n) (KubeletServiceAddrAnnotation K)"
    and "publishServiceAddr K E s = Ret (Inr True, s')"
  shows "\<exists>node ip. calls s' = calls s @ [UpdateNode node] \<and> api_UpdateNode E node = None \<and> (''InternalIP'', ip) \<in> set (Addresses node)
    \<and> newKubeletLister R (Inr node) name required = Ret (Inr [ip @ CustomKubeletServicePort])"
proof -
  from publishServiceAddr_Ret [OF assms(2)]
  obtain n ip where n: "ip \<noteq> ''''" "(''InternalIP'', ip) \<in> set (Addresses n)"
    and c: "let node = n\<lparr> Annotations := gm_set (Annotations n) (KubeletServiceAddrAnnotation K) (ip @ CustomKubeletServicePort) \<rparr>
       in s' = s\<lparr> calls := calls s @ [UpdateNode node] \<rparr> \<and> (True \<longleftrightarrow> api_UpdateNode E node = None)"
    by blast
  let ?node = "n\<lparr> Annotations := gm_set (Annotations n) (KubeletServiceAddrAnnotation K) (ip @ CustomKubeletServicePort) \<rparr>"
  have "fst (GetKubeletServiceOverrideAddr R ?node) = ip @ CustomKubeletServicePort"
    using assms(1) [of ?node] by (simp add: label_def gm_get_map_of)
  then show ?thesis
    using n c by (intro exI [of _ ?node] exI [of _ ip]) (auto simp: Let_def newKubeletLister_def split: prod.splits)
qed

definition addressed_node :: Node where
  "addressed_node = \<lparr> Namespace = '''', Name = ''n1'', Labels = [], Annotations = [], Addresses = [(''InternalIP'', ''10.0.0.1'')] \<rparr>"

theorem published_address_listed_witness:
  "\<exists>s'. publishServiceAddr sample_lib ((sample_kube 0 0 (Inl (KNotFound ''p'')))\<lparr> ls_GetNode := (\<lambda>n. Inr addressed_node) \<rparr>) joined_server = Ret (Inr True, s')
     \<and> (\<exists>node ip. calls s' = [UpdateNode node] \<and> newKubeletLister sample_kdrpc (Inr node) ''n1'' True = Ret (Inr [ip @ CustomKubeletServicePort]))"
proof -
  let ?E = "(sample_kube 0 0 (Inl (KNotFound ''p'')))\<lparr> ls_GetNode := (\<lambda>n. Inr addressed_node) \<rparr>"
  have a: "fst (GetKubeletServiceOverrideAddr sample_kdrpc n) = label (Annotations n) (KubeletServiceAddrAnnotation sample_lib)" for n
    by (simp add: sample_kdrpc_def sample_lib_def plain_lib_def)
  obtain s' where s': "publishServiceAddr sample_lib ?E joined_server = Ret (Inr True, s')"
    by (simp add: publishServiceAddr_def sample_kube_def addressed_node_def)
  have c: "calls joined_server = []" by (simp add: joined_server_def sample_server_def)
  from published_address_listed [OF a s', of "''n1''" True]
  obtain node ip where n: "calls s' = [UpdateNode node]" "newKubeletLister sample_kdrpc (Inr node) ''n1'' True = Ret (Inr [ip @ CustomKubeletServicePort])"
    unfolding c append_Nil by (elim exE conjE)
  show ?thesis
    by (intro exI [of _ s'] conjI exI [of _ node] exI [of _ ip] s' n)
qed

end
