(* ===== verification/Soundness.thy ===== *)
theory Soundness
  imports EndToEnd
begin

text \<open>
  Soundness and progress of the gateway (\<open>pkg/gateway/interface.go\<close>). In \<open>gw_step\<close> a relay that would panic has no
  step; here it is shown that none can: once every target is registered and its autoscaler is running, each state that
  is reached keeps the property \<open>sound\<close>, and in a sound state an iteration of a relay returns. The locale
  \<open>sound_gateway\<close> asks of the callbacks that they return for the registered targets, and is interpreted by
  both autoscalers and by the Knative gateway. On top of it, \<open>draining_gateway\<close> asks of a dispatcher that it can always
  answer what it holds, and shows that the gateway can then answer every request it was given, in
  at most eight steps per request.
\<close>

section \<open>No relay panics\<close>

locale sound_gateway = observed_gateway D pending CQ iq CS ir cb "\<lambda>a key n. ok a key"
  for D :: "('ev, 's) dispatcher_ops" and pending :: "'s \<Rightarrow> Request list"
    and CQ :: "(Request, 'rq) chann" and iq :: "'rq \<Rightarrow> Request list"
    and CS :: "(Response, 'rs) chann" and ir :: "'rs \<Rightarrow> Response list"
    and cb :: "'a gw_callbacks" and ok :: "'a \<Rightarrow> string \<Rightarrow> bool" +
  assumes ReqIn_returns: "ok a (Target req) \<Longrightarrow> \<exists>a'. on_ReqIn cb t req a = Ret a'"
    and ReqOut_returns: "ok a (Target (Source res)) \<Longrightarrow> \<exists>a'. on_ReqOut cb t res a = Ret a'"
begin

text \<open>The state is typed by the registered targets: the buffers exist, a relay lets only its own requests through, the callbacks are ready.\<close>

definition sound :: "string set \<Rightarrow> ('rq, 'rs, 's, 'a) gw_sys \<Rightarrow> bool" where
  "sound K s \<longleftrightarrow> gw_keys s K \<and> (\<forall>key. \<forall>r \<in># inner s key. Target r = key) \<and> (\<forall>key \<in> K. ok (gs_as s) key)"

lemma soundD:
  assumes "sound K s"
  shows "gw_keys s K" "r \<in># inner s key \<Longrightarrow> Target r = key" "key \<in> K \<Longrightarrow> ok (gs_as s) key"
  using assms by (simp_all add: sound_def)

lemma sound_buffers:
  assumes "sound K s" "key \<in> K"
  obtains c d e where "gm_get (externalInputs (gs_impl s)) key = Some c" "gm_get (internalInputBuffers (gs_impl s)) key = Some d"
    "gm_get (internalOutputBuffers (gs_impl s)) key = Some e"
  using soundD(1) [OF assms(1)] assms(2) unfolding gw_keys_def gm_get_map_of by blast

lemma sound_as_step:
  assumes "on_ReqIn cb t req a = Ret a' \<or> on_ReqOut cb t res a = Ret a'" "ok a key"
  shows "ok a' key"
  using assms ReqIn_counts [of t req a a' key 0] ReqOut_counts [of t res a a' key 0] by auto

lemma sound_step:
  assumes "gw_step CQ CS D cb period ev s = Some s'" "sound K s" "finite K"
    and "\<And>f a key. ev = GAutoscaler f \<Longrightarrow> ok a key \<Longrightarrow> ok (f a) key"
  shows "sound K s'"
proof -
  have keys: "gw_keys s' K"
    using gw_step_effect [OF assms(1) soundD(1) [OF assms(2)] assms(3)] by blast
  consider (req) key t now where "ev = GRelayReq key t now" | (res) key t where "ev = GRelayRes key t"
    | (own) f where "ev = GAutoscaler f"
    | (rest) "\<And>key t now. ev \<noteq> GRelayReq key t now" "\<And>key t. ev \<noteq> GRelayRes key t" "\<And>f. ev \<noteq> GAutoscaler f"
    by blast
  then show ?thesis
  proof cases
    case (req key t now)
    then have "gw_step CQ CS D cb period (GRelayReq key t now) s = Some s'"
      using assms(1) by simp
    then show ?thesis
    proof (cases rule: relay_req_cases)
      case reject
      then show ?thesis
        using assms(2) keys by (simp add: sound_def)
    next
      case (forward r)
      then show ?thesis
        using soundD(2,3) [OF assms(2)] keys sound_as_step [OF disjI1 [OF forward(2)]] by (auto simp: sound_def split: if_split_asm)
    qed
  next
    case (res key t)
    then obtain r where r: "core (Source r) \<in># inner s key" "on_ReqOut cb t r (gs_as s) = Ret (gs_as s')"
      "\<And>k. inner s' k \<subseteq># inner s k" "outstanding s' = (outstanding s)(key := outstanding s key - 1)"
      using relay_res_cases [of period key t s s'] assms(1) by metis
    then show ?thesis
      using soundD(2,3) [OF assms(2)] keys sound_as_step [OF disjI2 [OF r(2)]] mset_subset_eqD [OF r(3)] unfolding sound_def by blast
  next
    case (own f)
    then have "s' = s\<lparr> gs_as := f (gs_as s) \<rparr>"
      using assms(1) by simp
    then show ?thesis
      using assms(2,4) own keys by (simp add: sound_def between_def)
  next
    case rest
    note same = other_steps [OF assms(1) rest]
    then show ?thesis
      using assms(2) keys by (simp add: sound_def)
  qed
qed

lemma sound_run:
  assumes "gw_run CQ CS D cb period evs s = Some s'" "sound K s" "finite K"
    and "\<And>f a key. GAutoscaler f \<in> set evs \<Longrightarrow> ok a key \<Longrightarrow> ok (f a) key"
  shows "sound K s'"
  using assms(1,2,4)
proof (induction evs arbitrary: s)
  case (Cons ev evs)
  obtain s1 where s1: "gw_step CQ CS D cb period ev s = Some s1" "gw_run CQ CS D cb period evs s1 = Some s'"
    using Cons.prems(1) by (auto split: option.splits)
  then have "sound K s1"
    using Cons.prems(3) by (intro sound_step [OF s1(1) Cons.prems(2) assms(3)]) auto
  then show ?case
    using Cons.IH [OF s1(2)] Cons.prems(3) by (meson list.set_intros(2))
qed simp

lemma sound_init:
  assumes "\<And>k. load (dinit k) = {#}" "\<And>key. key \<in> set keys \<Longrightarrow> ok a key"
  shows "sound (set keys) (gw_init CQ CS keys dinit a t)"
  using gw_init_empty [where dinit = dinit and keys = keys and a = a and t = t] assms by (simp add: sound_def gw_init_def)

text \<open>Progress: a sound relay whose case of the \<open>select\<close> is ready returns.\<close>

lemma relay_from_client_returns:
  assumes "sound K s" "key \<in> K" "gm_get (externalInputs (gs_impl s)) key = Some c"
  shows "if iq c = [] then relay_from_client CQ CS (on_ReqIn cb t) period key now (gs_impl s, gs_relay s key, gs_as s) = None
    else \<exists>x. relay_from_client CQ CS (on_ReqIn cb t) period key now (gs_impl s, gs_relay s key, gs_as s) = Some (Ret x)"
proof (cases "iq c")
  case Nil
  then show ?thesis
    using assms(3) by (simp add: relay_from_client_def q.recv_empty)
next
  case (Cons req reqs)
  then obtain c' where c': "ch_recv CQ c = Some (req, c')"
    using q.recv_oldest by blast
  obtain d where d: "gm_get (internalInputBuffers (gs_impl s)) key = Some d"
    using sound_buffers [OF assms(1,2)] by metis
  show ?thesis
  proof (cases "Target req = key")
    case True
    then obtain a' where "on_ReqIn cb t req (gs_as s) = Ret a'"
      using ReqIn_returns soundD(3) [OF assms(1,2)] by blast
    then show ?thesis
      using relay_request_forward [OF True, of period now "gs_relay s key"] Cons c' d assms(3) by (auto simp: relay_from_client_def Let_def)
  next
    case False
    then show ?thesis
      using Cons c' assms(3) by (simp add: relay_from_client_def relay_request_def Let_def)
  qed
qed

lemma relay_to_client_returns:
  assumes "sound K s" "key \<in> K" "gm_get (internalOutputBuffers (gs_impl s)) key = Some c"
  shows "if ir c = [] then relay_to_client CS (on_ReqOut cb t) period key (gs_impl s, gs_relay s key, gs_as s) = None
    else \<exists>x. relay_to_client CS (on_ReqOut cb t) period key (gs_impl s, gs_relay s key, gs_as s) = Some (Ret x)"
proof (cases "ir c")
  case Nil
  then show ?thesis
    using assms(3) by (simp add: relay_to_client_def s.recv_empty)
next
  case (Cons res rest)
  then obtain c' where c': "ch_recv CS c = Some (res, c')"
    using s.recv_oldest by blast
  have "core (Source res) \<in># inner s key"
    using Cons assms(3) by (simp add: between_def in_chan_def)
  then have "ok (gs_as s) (Target (Source res))"
    using soundD(2) [OF assms(1), of "core (Source res)" key] soundD(3) [OF assms(1,2)] by simp
  then obtain a' where "on_ReqOut cb t res (gs_as s) = Ret a'"
    using ReqOut_returns by blast
  then show ?thesis
    using Cons c' assms(3) by (simp add: relay_to_client_def Let_def split_beta)
qed

lemma relays_return:
  assumes "sound K s" "key \<in> K"
  shows "relay_from_client CQ CS (on_ReqIn cb t) period key now (gs_impl s, gs_relay s key, gs_as s) \<noteq> Some (Panic m)"
    and "relay_to_client CS (on_ReqOut cb t) period key (gs_impl s, gs_relay s key, gs_as s) \<noteq> Some (Panic m)"
  using sound_buffers [OF assms] relay_from_client_returns [OF assms, of _ t period now] relay_to_client_returns [OF assms, of _ t period]
  by (metis go.distinct(1) option.distinct(1) option.inject)+

end

section \<open>Both autoscalers, and none\<close>

fun callbacks_ready :: "('b, 'w, 'q) anyAutoscaler option \<Rightarrow> string \<Rightarrow> bool" where
  "callbacks_ready (Some (KPA_Autoscaler s)) key \<longleftrightarrow> started s \<and> map_of (deciders s) key \<noteq> None"
| "callbacks_ready (Some (OneTime_Autoscaler s)) key \<longleftrightarrow> True"
| "callbacks_ready None key \<longleftrightarrow> False"

lemma autoscaler_cases:
  obtains (kpa) s where "a = Some (KPA_Autoscaler s)" | (onetime) s where "a = Some (OneTime_Autoscaler s)" | (none) "a = None"
  by (cases a; cases "the a") auto

lemma callbacks_readyE:
  assumes "callbacks_ready a key"
  obtains (kpa) s d where "a = Some (KPA_Autoscaler s)" "started s" "map_of (deciders s) key = Some d"
    | (onetime) s where "a = Some (OneTime_Autoscaler s)"
  using assms by (cases a rule: autoscaler_cases) auto

lemma ReqIn_ready:
  assumes "started s" "map_of (deciders s) (Target req) = Some d"
  obtains s' where "ReqIn Q D now req s = Ret s'" "started s'" "dom (map_of (deciders s')) = dom (map_of (deciders s))"
proof -
  obtain s' where s': "ReqIn Q D now req s = Ret s'" "started s'"
      "deciders s' = gm_set (deciders s) (Target req) (snd (dec_Activate D (snd (dec_ReqIn D now d))))"
    using assms(1) by (simp add: ReqIn_eq [OF assms] Let_def)
  then show thesis
    using assms(2) that by auto
qed

lemma ReqOut_ready:
  assumes "started s" "map_of (deciders s) (Target (Source res)) = Some d"
  obtains s' where "ReqOut D now res s = Ret s'" "started s'" "dom (map_of (deciders s')) = dom (map_of (deciders s))"
proof -
  have "ReqOut D now res s = Ret (set_decider (Target (Source res)) (snd (dec_ReqOut D now d)) s)"
    using assms by (simp add: ReqOut_def gm_get_map_of Let_def split_beta)
  then show thesis
    using assms that [of "set_decider (Target (Source res)) (snd (dec_ReqOut D now d)) s"] by (auto simp: set_decider_def)
qed

lemma callbacks_return:
  "callbacks_ready a (Target req) \<Longrightarrow>
     \<exists>a'. on_ReqIn (kpa_callbacks Q B W) t req a = Ret a' \<and> (\<forall>key. callbacks_ready a key \<longrightarrow> callbacks_ready a' key)"
  "callbacks_ready a (Target (Source res)) \<Longrightarrow>
     \<exists>a'. on_ReqOut (kpa_callbacks Q B W) t res a = Ret a' \<and> (\<forall>key. callbacks_ready a key \<longrightarrow> callbacks_ready a' key)"
proof -
  show "\<exists>a'. on_ReqIn (kpa_callbacks Q B W) t req a = Ret a' \<and> (\<forall>key. callbacks_ready a key \<longrightarrow> callbacks_ready a' key)"
    if "callbacks_ready a (Target req)"
    using that
  proof (cases rule: callbacks_readyE)
    case (kpa s d)
    obtain s' where "ReqIn Q (KPA_ops B W) t req s = Ret s'" "started s'" "dom (map_of (deciders s')) = dom (map_of (deciders s))"
      by (rule ReqIn_ready [OF kpa(2,3)])
    then show ?thesis
      using kpa(1) by (auto simp: kpa_callbacks_def k8s_onReqIn_def)
  qed (auto simp: kpa_callbacks_def k8s_onReqIn_def)
  show "\<exists>a'. on_ReqOut (kpa_callbacks Q B W) t res a = Ret a' \<and> (\<forall>key. callbacks_ready a key \<longrightarrow> callbacks_ready a' key)"
    if "callbacks_ready a (Target (Source res))"
    using that
  proof (cases rule: callbacks_readyE)
    case (kpa s d)
    obtain s' where "ReqOut (KPA_ops B W) t res s = Ret s'" "started s'" "dom (map_of (deciders s')) = dom (map_of (deciders s))"
      by (rule ReqOut_ready [OF kpa(2,3)])
    then show ?thesis
      using kpa(1) by (auto simp: kpa_callbacks_def k8s_onReqOut_def)
  qed (auto simp: kpa_callbacks_def k8s_onReqOut_def)
qed

text \<open>A callback that returns was ready for its own target.\<close>

lemma callbacks_started:
  "on_ReqIn (kpa_callbacks Q B W) t req a = Ret a' \<Longrightarrow> callbacks_ready a (Target req)"
  "on_ReqOut (kpa_callbacks Q B W) t res a = Ret a' \<Longrightarrow> callbacks_ready a (Target (Source res))"
  by (cases a rule: autoscaler_cases; force simp: kpa_callbacks_def k8s_onReqIn_def k8s_onReqOut_def ReqIn_def ReqOut_def gm_get_map_of
      go_bind_eq_Ret Let_def split: if_splits option.splits)+

interpretation ready_counts: counting_callbacks "kpa_callbacks Q B W" "\<lambda>a key n. callbacks_ready a key"
proof
  show "callbacks_ready a' key" if "on_ReqIn (kpa_callbacks Q B W) t req a = Ret a'" "callbacks_ready a key" for t req a a' key
    using callbacks_return(1) [OF callbacks_started(1) [OF that(1)], of Q B W t] that by auto
  show "callbacks_ready a' key" if "on_ReqOut (kpa_callbacks Q B W) t res a = Ret a'" "callbacks_ready a key" for t res a a' key
    using callbacks_return(2) [OF callbacks_started(2) [OF that(1)], of Q B W t] that by auto
qed

lemma k8s_sound_gateway:
  assumes "unbounded_chan CQ iq" "unbounded_chan CS ir"
  shows "sound_gateway (pod_ops S T) in_flight CQ iq CS ir (kpa_callbacks Q B W) callbacks_ready"
proof (intro sound_gateway.intro observed_gateway.intro sound_gateway_axioms.intro)
  show "gateway_env (pod_ops S T) in_flight CQ iq CS ir"
    unfolding gateway_env_def ops_sel by (intro conjI pod_request_dispatcher assms)
qed (use ready_counts.counting_callbacks_axioms callbacks_return in blast)+

interpretation k8s_sound: sound_gateway "pod_ops gomap_shared gochan" in_flight gochan "\<lambda>c. c" gochan "\<lambda>c. c" "kpa_callbacks Q B W" callbacks_ready
  by (intro k8s_sound_gateway native.unbounded_chan_axioms)

interpretation kn_sound: sound_gateway "kn_ops v (\<lambda>d clk req. fake_Execute clk req) kd" "\<lambda>s. ks_reqs s @ ks_running s" gochan "\<lambda>c. c"
    gochan "\<lambda>c. c" no_callbacks "\<lambda>a key. True"
  by (intro sound_gateway.intro observed_gateway.intro kn_gw.gateway_env_axioms)
    (unfold_locales, simp_all add: no_callbacks_def kn_onReqIn_def kn_onReqOut_def)

text \<open>The autoscaler's own goroutines keep it ready.\<close>

lemma own_step_started: "started (own_step Q B W op s) = started s"
proof (cases op)
  case (OwnFinish k isPodReady cl sc now)
  show ?thesis
  proof (cases "finish_item Q (KPA_ops B W) isPodReady cl sc now k s")
    case (Ret s')
    then obtain err s1 where s1: "scale (KPA_ops B W) isPodReady cl sc now k s = Ret (err, s1)" "started s' = started s1"
      by (auto simp: finish_item_def go_bind_eq_Ret split: option.splits if_splits)
    then show ?thesis
      using scale_frame [OF s1(1)] OwnFinish Ret by (auto simp: set_decider_def)
  qed (use OwnFinish in simp)
qed (auto simp: tickAutoScaler_def take_item_def set_decider_def split: option.splits)

lemma own_event_ready:
  assumes "callbacks_ready a key"
  shows "callbacks_ready (own_event Q B W op a) key"
  using assms
proof (cases rule: callbacks_readyE)
  case (kpa s d)
  then show ?thesis
    using own_step_concurrency [OF kpa(3), of Q B W op] by (auto simp: own_step_started)
qed simp

section \<open>A gateway that was set up\<close>

lemma pod_load: "request_dispatcher.load in_flight ds_resps = workload_of" "workload_of (ds_init pd) = {#}"
  by (rule ext) (simp_all add: request_dispatcher.load_def [OF pod_request_dispatcher] workload_of_def in_flight_def ds_init_def)

text \<open>\<open>Start\<close>: the autoscaler runs, and every registered target has its relay and its dispatcher.\<close>

fun anyAutoscaler_Run :: "('b, 'w, 'q) anyAutoscaler \<Rightarrow> ('b, 'w, 'q) anyAutoscaler" where
  "anyAutoscaler_Run (KPA_Autoscaler s) = KPA_Autoscaler (Run s)"
| "anyAutoscaler_Run (OneTime_Autoscaler s) = OneTime_Autoscaler s"

definition k8s_started ::
    "('rq, 'rs, 'm, 't, 'b, 'w, 'q) k8sGateway \<Rightarrow> (string \<Rightarrow> gotime) \<Rightarrow> ('rq, 'rs, ('m, 't, 'e) disp_sys, ('b, 'w, 'q) anyAutoscaler option) gw_sys" where
  "k8s_started g t = \<lparr> gs_impl = gw_impl g, gs_relay = (\<lambda>key. relay_init (t key) (t key)),
     gs_disp = (\<lambda>key. ds_init (the (gm_get (dispatchers g) key))), gs_as = map_option anyAutoscaler_Run (gw_autoscaler g), gs_delivered = [] \<rparr>"

lemma set_up_autoscaler:
  assumes "NewK8sGateway CS timeout fw config = Inr g" "k8s_SetUpWithManager CQ CS S T Q B W (Inr targets) g = Ret (Inr g')"
    and "gw_autoscaler g' = Some a" "key \<in> KeyFromObject ` set targets"
  shows "callbacks_ready (Some (anyAutoscaler_Run a)) key"
proof -
  have "gw_autoscaler (register_all CQ CS S T targets g) = gw_autoscaler g"
    by (induction targets arbitrary: g) (simp_all add: Let_def)
  moreover have "gw_autoscaler g = None"
    using assms(1) by (auto simp: NewK8sGateway_def split: sum.splits)
  ultimately obtain fn where fn: "run_autoscalerFn Q B W fn (map KeyFromObject targets) = Ret a"
    using assms(2,3) by (auto simp: k8s_SetUpWithManager_def Let_def go_bind_eq_Ret split: option.splits)
  show ?thesis
  proof (cases a)
    case (KPA_Autoscaler s)
    then obtain cfg where "s = NewKnativeAutoscaler Q B W cfg (map KeyFromObject targets)"
      using fn by (cases fn) (auto simp: go_bind_eq_Ret split: option.splits)
    then show ?thesis
      using KPA_Autoscaler assms(4) dom_NewKnativeAutoscaler [of Q B W cfg "map KeyFromObject targets"] by (auto simp: Run_def)
  qed simp
qed

lemma k8s_started_init:
  assumes "NewK8sGateway CS timeout fw config = Inr g" "k8s_SetUpWithManager CQ CS S T Q B W (Inr targets) g = Ret (Inr g')"
  shows "k8s_started g' t = gw_init CQ CS (map KeyFromObject targets) (\<lambda>key. ds_init (the (gm_get (dispatchers g') key)))
    (map_option anyAutoscaler_Run (gw_autoscaler g')) t"
proof -
  have "gw_impl g' = gw_impl (register_all CQ CS S T targets g)"
    using assms(2) by (auto simp: k8s_SetUpWithManager_def Let_def go_bind_eq_Ret split: option.splits)
  moreover have "gw_impl g = newGatewayImpl CS"
    using assms(1) by (auto simp: NewK8sGateway_def split: sum.splits)
  ultimately show ?thesis
    by (simp add: k8s_started_def gw_init_def register_all_impl)
qed

lemma k8s_started_sound:
  assumes "unbounded_chan CQ iq" "unbounded_chan CS ir"
    and "NewK8sGateway CS timeout fw config = Inr g" "k8s_SetUpWithManager CQ CS S T Q B W (Inr targets) g = Ret (Inr g')"
    and "gw_autoscaler g' = Some a"
    and "gw_run CQ CS (pod_ops S T) (kpa_callbacks Q B W) period evs (k8s_started g' t) = Some s"
    and "\<And>f. GAutoscaler f \<in> set evs \<Longrightarrow> \<exists>op. f = own_event Q B W op"
  shows "sound_gateway.sound (pod_ops S T) in_flight iq ir callbacks_ready (KeyFromObject ` set targets) s"
proof -
  note env = k8s_sound_gateway [OF assms(1,2), of S T Q B W]
  have "sound_gateway.sound (pod_ops S T) in_flight iq ir callbacks_ready (set (map KeyFromObject targets)) (k8s_started g' t)"
    unfolding k8s_started_init [OF assms(3,4)]
    using set_up_autoscaler [OF assms(3-5)] assms(5) by (intro sound_gateway.sound_init [OF env]) (simp_all add: pod_load)
  then show ?thesis
    using sound_gateway.sound_run [OF env assms(6)] assms(7) own_event_ready by (metis finite_set set_map)
qed

section \<open>Draining\<close>

text \<open>
  A dispatcher that can always get rid of what it holds. \<open>work\<close> bounds the steps it still needs: at most six
  for a request put into its queue, three less once a response has left.
\<close>

locale draining_gateway = sound_gateway D pending CQ iq CS ir cb ok
  for D :: "('ev, 's) dispatcher_ops" and pending :: "'s \<Rightarrow> Request list"
    and CQ :: "(Request, 'rq) chann" and iq :: "'rq \<Rightarrow> Request list"
    and CS :: "(Response, 'rs) chann" and ir :: "'rs \<Rightarrow> Response list"
    and cb :: "'a gw_callbacks" and ok :: "'a \<Rightarrow> string \<Rightarrow> bool" +
  fixes work :: "'s \<Rightarrow> nat"
  assumes work_put: "d_step D (d_put D req) s = Some s' \<Longrightarrow> work s' \<le> work s + 6"
    and work_answer: "pending s \<noteq> [] \<Longrightarrow> \<exists>ev s'. d_injected D ev = [] \<and> d_step D ev s = Some s' \<and> work s' < work s"
    and work_pop: "d_responses D s \<noteq> [] \<Longrightarrow> work (d_pop D s) + 3 \<le> work s"
    and work_bound: "work s \<le> 6 * size (load s)"
begin

definition chan_size :: "('c \<Rightarrow> 'x list) \<Rightarrow> (string, 'c) gomap \<Rightarrow> string \<Rightarrow> nat" where
  "chan_size items m key = (case gm_get m key of None \<Rightarrow> 0 | Some c \<Rightarrow> length (items c))"

lemma chan_size_set [simp]: "chan_size items (gm_set m key c) k = (if k = key then length (items c) else chan_size items m k)"
  by (simp add: chan_size_def gm_get_map_of)

lemma chan_size_get: "gm_get m key = Some c \<Longrightarrow> chan_size items m key = length (items c)"
  by (simp add: chan_size_def)

lemma chan_size_in_chan: "chan_size items m key = size (in_chan items f m key)"
  by (simp add: chan_size_def in_chan_def split: option.splits)

definition to_do :: "('rq, 'rs, 's, 'a) gw_sys \<Rightarrow> string \<Rightarrow> nat" where
  "to_do s key = 8 * chan_size iq (externalInputs (gs_impl s)) key + 7 * chan_size iq (internalInputBuffers (gs_impl s)) key
     + work (gs_disp s key) + 2 * chan_size ir (internalOutputBuffers (gs_impl s)) key"

definition remaining :: "string set \<Rightarrow> ('rq, 'rs, 's, 'a) gw_sys \<Rightarrow> nat" where
  "remaining K s = (\<Sum>key \<in> K. to_do s key) + length (ir (externalOutput (gs_impl s)))"

lemma to_do_bound: "to_do s key \<le> 8 * size (site s key)"
proof -
  have "size (site s key) = chan_size iq (externalInputs (gs_impl s)) key + (chan_size iq (internalInputBuffers (gs_impl s)) key
      + size (load (gs_disp s key)) + chan_size ir (internalOutputBuffers (gs_impl s)) key)"
    by (simp only: at_target_def between_def size_union chan_size_in_chan [symmetric])
  then show ?thesis
    using work_bound [of "gs_disp s key"] unfolding to_do_def by linarith
qed

lemma remaining_bound: "remaining K s \<le> 8 * (size (\<Sum>key \<in> K. site s key) + size (answered ir s))"
proof -
  have "(\<Sum>key \<in> K. to_do s key) \<le> 8 * (\<Sum>key \<in> K. size (site s key))"
    unfolding sum_distrib_left by (intro sum_mono to_do_bound)
  moreover have "length (ir (externalOutput (gs_impl s))) \<le> size (answered ir s)"
    by (simp add: answered_def)
  ultimately show ?thesis
    unfolding remaining_def size_multiset_sum distrib_left by linarith
qed

text \<open>A step that serves one target brings the end nearer.\<close>

lemma remaining_decreases:
  assumes "finite K" "key \<in> K" "\<And>k. k \<noteq> key \<Longrightarrow> to_do s' k = to_do s k"
    and "to_do s' key + length (ir (externalOutput (gs_impl s'))) < to_do s key + length (ir (externalOutput (gs_impl s)))"
  shows "remaining K s' < remaining K s"
proof -
  have "(\<Sum>k \<in> K. to_do s' k) = to_do s' key + (\<Sum>k \<in> K - {key}. to_do s k)"
    using assms(1-3) by (simp add: sum.remove)
  moreover have "(\<Sum>k \<in> K. to_do s k) = to_do s key + (\<Sum>k \<in> K - {key}. to_do s k)"
    using assms(1,2) by (simp add: sum.remove)
  ultimately show ?thesis
    using assms(4) by (simp add: remaining_def)
qed

definition serves :: "string set \<Rightarrow> ('rq, 'rs, 's, 'a) gw_sys \<Rightarrow> ('ev, 'a) gw_event \<Rightarrow> duration \<Rightarrow> bool" where
  "serves K s ev period \<longleftrightarrow> submitted [ev] = [] \<and> (\<forall>f. ev \<noteq> GAutoscaler f)
     \<and> (\<exists>s'. gw_step CQ CS D cb period ev s = Some s' \<and> remaining K s' < remaining K s)"

lemma serve_client:
  assumes "sound K s" "finite K" "key \<in> K" "gm_get (externalInputs (gs_impl s)) key = Some c" "iq c \<noteq> []"
  shows "serves K s (GRelayReq key t now) period"
proof -
  obtain req c' where c': "ch_recv CQ c = Some (req, c')" "iq c = req # iq c'"
    using q.recv_oldest assms(5) by (metis list.exhaust q.recv_SomeD)
  obtain d where d: "gm_get (internalInputBuffers (gs_impl s)) key = Some d"
    using sound_buffers [OF assms(1,3)] by metis
  show ?thesis
  proof (cases "Target req = key")
    case True
    then obtain a' where a': "on_ReqIn cb t req (gs_as s) = Ret a'"
      using ReqIn_returns soundD(3) [OF assms(1,3)] by blast
    obtain l r where r: "relay_request period key now req (gs_relay s key) = (l, Forward (req\<lparr> GatewayRecvTS := now \<rparr>), r)"
      using relay_request_forward [OF True] by blast
    let ?s = "s\<lparr> gs_impl := (gs_impl s)\<lparr> externalInputs := gm_set (externalInputs (gs_impl s)) key c',
        internalInputBuffers := gm_set (internalInputBuffers (gs_impl s)) key (ch_send CQ d (req\<lparr> GatewayRecvTS := now \<rparr>)) \<rparr>,
        gs_relay := (gs_relay s)(key := r), gs_as := a' \<rparr>"
    have "gw_step CQ CS D cb period (GRelayReq key t now) s = Some ?s"
      using assms(4) c' d a' r by (simp add: relayed_def relay_from_client_def Let_def)
    moreover have "remaining K ?s < remaining K s"
      using assms(2-4) c' d by (intro remaining_decreases [of K key]) (simp_all add: to_do_def chan_size_get)
    ultimately show ?thesis
      by (simp add: serves_def del: gw_step.simps)
  next
    case False
    let ?s = "s\<lparr> gs_impl := (gs_impl s)\<lparr> externalInputs := gm_set (externalInputs (gs_impl s)) key c',
        externalOutput := ch_send CS (externalOutput (gs_impl s)) (mk_Response req INVALID_TARGET) \<rparr> \<rparr>"
    have "gw_step CQ CS D cb period (GRelayReq key t now) s = Some ?s"
      using assms(4) c' False by (simp add: relayed_def relay_from_client_def relay_request_def)
    moreover have "remaining K ?s < remaining K s"
      using assms(2-4) c' by (intro remaining_decreases [of K key]) (simp_all add: to_do_def chan_size_get)
    ultimately show ?thesis
      by (simp add: serves_def del: gw_step.simps)
  qed
qed

lemma serve_dispatcher_in:
  assumes "finite K" "key \<in> K" "gm_get (internalInputBuffers (gs_impl s)) key = Some c" "iq c \<noteq> []"
  shows "serves K s (GDispIn key) period"
proof -
  obtain req c' where c': "ch_recv CQ c = Some (req, c')" "iq c = req # iq c'"
    using q.recv_oldest assms(4) by (metis list.exhaust q.recv_SomeD)
  obtain d where d: "d_step D (d_put D req) (gs_disp s key) = Some d"
    using put_ok by blast
  let ?s = "s\<lparr> gs_impl := (gs_impl s)\<lparr> internalInputBuffers := gm_set (internalInputBuffers (gs_impl s)) key c' \<rparr>,
      gs_disp := (gs_disp s)(key := d) \<rparr>"
  have "gw_step CQ CS D cb period (GDispIn key) s = Some ?s"
    using assms(3) c' d by simp
  moreover have "remaining K ?s < remaining K s"
    using assms(1-3) c' work_put [OF d] by (intro remaining_decreases [of K key]) (simp_all add: to_do_def chan_size_get)
  ultimately show ?thesis
    by (simp add: serves_def del: gw_step.simps)
qed

lemma serve_dispatcher:
  assumes "sound K s" "finite K" "key \<in> K" "pending (gs_disp s key) \<noteq> []"
  obtains ev where "serves K s (GDisp key ev) period"
proof -
  obtain ev d where d: "d_injected D ev = []" "d_step D ev (gs_disp s key) = Some d" "work d < work (gs_disp s key)"
    using work_answer [OF assms(4)] by blast
  obtain c where "gm_get (internalInputBuffers (gs_impl s)) key = Some c"
    using sound_buffers [OF assms(1,3)] by metis
  then have "gw_step CQ CS D cb period (GDisp key ev) s = Some (s\<lparr> gs_disp := (gs_disp s)(key := d) \<rparr>)"
    using d by simp
  moreover have "remaining K (s\<lparr> gs_disp := (gs_disp s)(key := d) \<rparr>) < remaining K s"
    using assms(2,3) d(3) by (intro remaining_decreases [of K key]) (simp_all add: to_do_def)
  ultimately show thesis
    by (intro that [of ev]) (simp add: serves_def del: gw_step.simps)
qed

lemma serve_dispatcher_out:
  assumes "sound K s" "finite K" "key \<in> K" "d_responses D (gs_disp s key) \<noteq> []"
  shows "serves K s (GDispOut key) period"
proof -
  obtain c where c: "gm_get (internalOutputBuffers (gs_impl s)) key = Some c"
    using sound_buffers [OF assms(1,3)] by metis
  obtain res rest where r: "d_responses D (gs_disp s key) = res # rest"
    using assms(4) by (cases "d_responses D (gs_disp s key)") auto
  let ?s = "s\<lparr> gs_impl := (gs_impl s)\<lparr> internalOutputBuffers := gm_set (internalOutputBuffers (gs_impl s)) key (ch_send CS c res) \<rparr>,
      gs_disp := (gs_disp s)(key := d_pop D (gs_disp s key)) \<rparr>"
  have "gw_step CQ CS D cb period (GDispOut key) s = Some ?s"
    using c r by simp
  moreover have "remaining K ?s < remaining K s"
    using assms(2,3) c work_pop [OF assms(4)] by (intro remaining_decreases [of K key]) (simp_all add: to_do_def chan_size_get)
  ultimately show ?thesis
    by (simp add: serves_def del: gw_step.simps)
qed

lemma serve_answer:
  assumes "sound K s" "finite K" "key \<in> K" "gm_get (internalOutputBuffers (gs_impl s)) key = Some c" "ir c \<noteq> []"
  shows "serves K s (GRelayRes key t) period"
proof -
  obtain res c' where c': "ch_recv CS c = Some (res, c')" "ir c = res # ir c'"
    using s.recv_oldest assms(5) by (metis list.exhaust s.recv_SomeD)
  have "\<exists>x. relay_to_client CS (on_ReqOut cb t) period key (gs_impl s, gs_relay s key, gs_as s) = Some (Ret x)"
    using relay_to_client_returns [OF assms(1,3,4), of t period] assms(5) by simp
  then obtain a' where a': "on_ReqOut cb t res (gs_as s) = Ret a'"
    using assms(4) c'(1) by (cases "on_ReqOut cb t res (gs_as s)") (auto simp: relay_to_client_def)
  obtain l r where r: "relay_response period res (gs_relay s key) = (l, r)"
    by fastforce
  let ?s = "s\<lparr> gs_impl := (gs_impl s)\<lparr> internalOutputBuffers := gm_set (internalOutputBuffers (gs_impl s)) key c',
      externalOutput := ch_send CS (externalOutput (gs_impl s)) res \<rparr>, gs_relay := (gs_relay s)(key := r), gs_as := a' \<rparr>"
  have "gw_step CQ CS D cb period (GRelayRes key t) s = Some ?s"
    using assms(4) c' a' r by (simp add: relayed_def relay_to_client_def Let_def)
  moreover have "remaining K ?s < remaining K s"
    using assms(2-4) c' by (intro remaining_decreases [of K key]) (simp_all add: to_do_def chan_size_get)
  ultimately show ?thesis
    by (simp add: serves_def del: gw_step.simps)
qed

lemma serve_delivery:
  assumes "ir (externalOutput (gs_impl s)) \<noteq> []"
  shows "serves K s GDeliver period"
proof -
  obtain res c' where "ch_recv CS (externalOutput (gs_impl s)) = Some (res, c')" "ir (externalOutput (gs_impl s)) = res # ir c'"
    using s.recv_oldest assms by (metis list.exhaust s.recv_SomeD)
  then show ?thesis
    by (simp add: serves_def remaining_def to_do_def)
qed

lemma someone_serves:
  assumes "sound K s" "finite K" "\<nexists>ev. serves K s ev period"
  shows "(\<Sum>key \<in> K. site s key) = {#} \<and> ir (externalOutput (gs_impl s)) = []"
proof -
  have "site s key = {#}" if k: "key \<in> K" for key
  proof -
    obtain c d e where c: "gm_get (externalInputs (gs_impl s)) key = Some c" "gm_get (internalInputBuffers (gs_impl s)) key = Some d"
        "gm_get (internalOutputBuffers (gs_impl s)) key = Some e"
      using sound_buffers [OF assms(1) k] by metis
    have "iq c = []" "iq d = []" "ir e = []" "pending (gs_disp s key) = []" "d_responses D (gs_disp s key) = []"
      using serve_client [OF assms(1,2) k c(1)] serve_dispatcher_in [OF assms(2) k c(2)] serve_answer [OF assms(1,2) k c(3)]
        serve_dispatcher [OF assms(1,2) k] serve_dispatcher_out [OF assms(1,2) k] assms(3) by blast+
    then show ?thesis
      using c by (simp add: at_target_def between_def in_chan_def load_def)
  qed
  then show ?thesis
    using serve_delivery [of s K period] assms(3) by auto
qed

lemma drains:
  assumes "sound K s" "finite K"
  shows "\<exists>evs s'. submitted evs = [] \<and> length evs \<le> remaining K s \<and> gw_run CQ CS D cb period evs s = Some s'
    \<and> (\<Sum>key \<in> K. site s' key) = {#} \<and> ir (externalOutput (gs_impl s')) = []"
  using assms(1)
proof (induction "remaining K s" arbitrary: s rule: less_induct)
  case less
  show ?case
  proof (cases "\<exists>ev. serves K s ev period")
    case True
    then obtain ev s1 where ev: "submitted [ev] = []" "\<And>f. ev \<noteq> GAutoscaler f" "gw_step CQ CS D cb period ev s = Some s1"
        "remaining K s1 < remaining K s"
      unfolding serves_def by blast
    obtain evs s' where evs: "submitted evs = []" "length evs \<le> remaining K s1" "gw_run CQ CS D cb period evs s1 = Some s'"
        "(\<Sum>key \<in> K. site s' key) = {#}" "ir (externalOutput (gs_impl s')) = []"
      using less.hyps [OF ev(4) sound_step [OF ev(3) less.prems assms(2)]] ev(2) by blast
    have "submitted (ev # evs) = []"
      using ev(1) evs(1) by (cases ev) simp_all
    then show ?thesis
      using ev evs by (intro exI [of _ "ev # evs"] exI [of _ s']) simp
  next
    case False
    then show ?thesis
      using someone_serves [OF less.prems assms(2)] by (intro exI [of _ "[]"] exI [of _ s]) auto
  qed
qed

end

context draining_gateway
begin

lemma drains_init:
  assumes "gw_run CQ CS D cb period evs (gw_init CQ CS keys dinit a t) = Some s" "\<And>k. load (dinit k) = {#}"
    and "\<And>key. key \<in> set keys \<Longrightarrow> ok a key" "\<And>f a key. GAutoscaler f \<in> set evs \<Longrightarrow> ok a key \<Longrightarrow> ok (f a) key"
  shows "\<exists>evs' s'. submitted evs' = [] \<and> length evs' \<le> 8 * length (submitted evs) \<and> gw_run CQ CS D cb period evs' s = Some s'
    \<and> mset (map core (submitted evs)) = mset (map (\<lambda>r. core (Source r)) (gs_delivered s'))"
proof -
  have snd: "sound (set keys) s"
    using assms(4) by (intro sound_run [OF assms(1) sound_init finite_set]) (simp_all add: assms(2,3))
  obtain evs' s' where run: "submitted evs' = []" "length evs' \<le> remaining (set keys) s" "gw_run CQ CS D cb period evs' s = Some s'"
    and fin: "(\<Sum>key \<in> set keys. site s' key) = {#}" "ir (externalOutput (gs_impl s')) = []"
    using drains [OF snd finite_set, of period] by blast
  have all: "mset (map core (submitted evs)) = (\<Sum>key \<in> set keys. site s key) + answered ir s"
    using gw_run_init [OF assms(1,2)] by blast
  then have "length (submitted evs) = size (\<Sum>key \<in> set keys. site s key) + size (answered ir s)"
    by (metis length_map size_mset size_union)
  then have "length evs' \<le> 8 * length (submitted evs)"
    using order_trans [OF run(2) remaining_bound] by metis
  moreover have "mset (map core (submitted evs)) = mset (map (\<lambda>r. core (Source r)) (gs_delivered s'))"
    using gw_run_effect [OF run(3) soundD(1) [OF snd] finite_set] run(1) fin all by (simp add: answered_def)
  ultimately show ?thesis
    using run by blast
qed

end

definition ds_work :: "('m, 't, 'e) disp_sys \<Rightarrow> nat" where
  "ds_work s = 6 * length (ds_reqs s) + 5 * length (ds_waiting s) + 4 * length (ds_running s) + 3 * length (ds_resps s)"

definition kn_work :: "kn_sys \<Rightarrow> nat" where
  "kn_work s = 6 * length (ks_reqs s) + 4 * length (ks_running s) + 3 * length (ks_resps s)"

lemma length_del_nth: "i < length xs \<Longrightarrow> length xs = Suc (length (del_nth i xs))"
  by (simp add: del_nth_def)

text \<open>A queued request is accepted, a waiting one times out, a running one returns.\<close>

lemma pod_answers:
  assumes "in_flight s \<noteq> []"
  shows "\<exists>ev s'. enqueued [ev] = [] \<and> ds_step S T ev s = Some s' \<and> ds_work s' < ds_work s"
proof -
  consider (queued) req reqs where "ds_reqs s = req # reqs" | (waiting) "0 < length (ds_waiting s)" | (running) "0 < length (ds_running s)"
    using assms by (cases "ds_reqs s") (auto simp: in_flight_def)
  then show ?thesis
  proof cases
    case queued
    then show ?thesis
      by (intro exI [of _ Accept]) (simp add: ds_work_def)
  next
    case waiting
    then show ?thesis
      using length_del_nth [OF waiting] by (intro exI [of _ "Iter 0 CtxDone"]) (simp add: ds_work_def dispatch_iter_def Let_def)
  next
    case running
    obtain key e req where r: "ds_running s ! 0 = (key, e, req)"
      by (cases "ds_running s ! 0") auto
    then show ?thesis
      using running length_del_nth [OF running]
      by (intro exI [of _ "Finish 0 (mk_Response req SUCCESS)"]) (simp add: ds_work_def answers_def)
  qed
qed

lemma kn_answers:
  assumes "ks_reqs s @ ks_running s \<noteq> []"
  shows "\<exists>ev s'. enqueued [ev] = [] \<and> kn_step v Execute kd ev s = Some s' \<and> kn_work s' < kn_work s"
proof (cases "ks_reqs s")
  case Nil
  then have "0 < length (ks_running s)"
    using assms by simp
  then show ?thesis
    using length_del_nth [OF \<open>0 < length (ks_running s)\<close>] by (intro exI [of _ "Finish 0 undefined"]) (simp add: kn_work_def)
next
  case (Cons req reqs)
  then show ?thesis
    by (intro exI [of _ Accept]) (simp add: kn_work_def)
qed

lemma k8s_draining_gateway:
  assumes "unbounded_chan CQ iq" "unbounded_chan CS ir"
  shows "draining_gateway (pod_ops S T) in_flight CQ iq CS ir (kpa_callbacks Q B W) callbacks_ready ds_work"
proof (intro draining_gateway.intro k8s_sound_gateway assms draining_gateway_axioms.intro)
  show "ds_work s' \<le> ds_work s + 6" if "d_step (pod_ops S T) (d_put (pod_ops S T) req) s = Some s'" for req s s'
    using that by (auto simp: ds_work_def)
  show "ds_work (d_pop (pod_ops S T) s) + 3 \<le> ds_work s" if "d_responses (pod_ops S T) s \<noteq> []" for s
    using that by (cases "ds_resps s") (simp_all add: ds_work_def ds_pop_def)
  show "ds_work s \<le> 6 * size (request_dispatcher.load in_flight (d_responses (pod_ops S T)) s)" for s
    by (simp add: pod_load) (simp add: ds_work_def workload_of_def in_flight_def)
qed (use pod_answers in simp)

interpretation k8s_drain: draining_gateway "pod_ops gomap_shared gochan" in_flight gochan "\<lambda>c. c" gochan "\<lambda>c. c" "kpa_callbacks Q B W" callbacks_ready ds_work
  by (intro k8s_draining_gateway native.unbounded_chan_axioms)

interpretation kn_drain: draining_gateway "kn_ops v (\<lambda>d clk req. fake_Execute clk req) kd" "\<lambda>s. ks_reqs s @ ks_running s" gochan "\<lambda>c. c"
    gochan "\<lambda>c. c" no_callbacks "\<lambda>a key. True" kn_work
proof (intro draining_gateway.intro kn_sound.sound_gateway_axioms draining_gateway_axioms.intro)
  show "kn_work s' \<le> kn_work s + 6"
    if "d_step (kn_ops v (\<lambda>d clk req. fake_Execute clk req) kd) (d_put (kn_ops v (\<lambda>d clk req. fake_Execute clk req) kd) req) s = Some s'" for req s s'
    using that by (auto simp: kn_work_def)
  show "kn_work (d_pop (kn_ops v (\<lambda>d clk req. fake_Execute clk req) kd) s) + 3 \<le> kn_work s"
    if "d_responses (kn_ops v (\<lambda>d clk req. fake_Execute clk req) kd) s \<noteq> []" for s
    using that by (cases "ks_resps s") (simp_all add: kn_work_def kn_pop_def)
  show "kn_work s \<le> 6 * size (request_dispatcher.load (\<lambda>s. ks_reqs s @ ks_running s) (d_responses (kn_ops v (\<lambda>d clk req. fake_Execute clk req) kd)) s)" for s
    by (simp add: kn_disp.load_def kn_work_def)
qed (use kn_answers in simp)

section \<open>Properties\<close>



text \<open>A deployment, the Knative autoscaler, one request in flight and one for another target.\<close>

definition sound_events :: "(nat disp_event, (float64, int list, string list \<times> string list) anyAutoscaler option) gw_event list" where
  "sound_events = [GSubmit ''ns/f'' (sample_request\<lparr> Target := ''ns/f'' \<rparr>), GSubmit ''ns/f'' sample_request,
     GAutoscaler (own_event list_queue last_value all_values (OwnTick ''ns/f'')), GRelayReq ''ns/f'' 1 2, GDispIn ''ns/f'']"

definition sound_config :: "string + AutoscalerConfig option" where
  "sound_config = Inr (Some \<lparr> Knative = Some sample_kpa_config, OneTime = None \<rparr>)"

abbreviation sample_setup where
  "sample_setup \<equiv> k8s_SetUpWithManager gochan gochan (gomap_shared :: ((string, nat) gomap, nat) sharedMap) gochan list_queue last_value all_values (Inr [e2e_deployment])"

abbreviation sample_run where
  "sample_run \<equiv> gw_run gochan gochan (pod_ops (gomap_shared :: ((string, nat) gomap, nat) sharedMap) gochan) (kpa_callbacks list_queue last_value all_values) tracingOutputPeriod"

lemma sound_sample_run:
  "(case NewK8sGateway gochan (15 * Second) ''kpa'' sound_config of
      Inr g \<Rightarrow> (case sample_setup g of
        Ret (Inr g') \<Rightarrow> gw_autoscaler g' \<noteq> None \<and> sample_run sound_events (k8s_started g' (\<lambda>k. 0)) \<noteq> None
      | _ \<Rightarrow> False)
    | _ \<Rightarrow> False)"
  by code_simp

lemma sound_sample:
  obtains g g' a s where "NewK8sGateway gochan (15 * Second) ''kpa'' sound_config = Inr g" "sample_setup g = Ret (Inr g')"
    "gw_autoscaler g' = Some a" "sample_run sound_events (k8s_started g' (\<lambda>k. 0)) = Some s"
proof -
  obtain g :: "(Request list, Response list, (string \<times> nat) list, string list, float64, int list, string list \<times> string list) k8sGateway"
    where g: "NewK8sGateway gochan (15 * Second) ''kpa'' sound_config = Inr g"
    by (simp add: NewK8sGateway_def sound_config_def)
  then obtain r where r: "sample_setup g = Ret r"
    using sound_sample_run by (cases "sample_setup g") simp_all
  then obtain g' where g': "sample_setup g = Ret (Inr g')"
    using sound_sample_run g by (cases r) simp_all
  show thesis
    using sound_sample_run g g' that by auto
qed

lemma sound_events_own: "GAutoscaler f \<in> set sound_events \<Longrightarrow> \<exists>op. f = own_event list_queue last_value all_values op"
  by (auto simp: sound_events_def)

lemma sound_key: "KeyFromObject e2e_deployment = ''ns/f''"
  by (simp add: e2e_deployment_def KeyFromObject_def label_def gm_get_def)



end
