(* ===== verification/TraceMain.thy ===== *)
theory TraceMain
  imports Soundness Trace
begin

text \<open>
  The trace experiment (\<open>experiments/trace/main.go\<close>) as a whole. \<open>main_setup\<close> follows \<open>main\<close> from the working directory and the
  flags to a gateway and a client that are ready to start; every \<open>klog.Fatalf\<close> on the way is a panic. From
  there \<open>main\<close>, the client's senders, its receiver and its writer (\<open>pkg/replay/client.go\<close>), the relays, the dispatchers
  and the autoscaler run concurrently: \<open>tm_step\<close> is one step of one of them. \<open>main\<close> waits for a signal or for the
  end of sending, cancels the context, closes the gateway and waits for the writer. A pause of \<open>main\<close> is no step: it
  can be passed at any time, and where a property needs a pause to be long enough it says so. The
  lemmas show what the output file accounts for, that an orderly end neither crashes nor hangs, and what a
  signal before the end of sending does.
\<close>

section \<open>Setting up\<close>

record trace_flags = flags +
  outputPath :: string
  dispatchTimeoutSeconds :: int

definition default_trace_flags :: trace_flags where
  "default_trace_flags = flags.extend default_flags \<lparr> outputPath = ''trace.log'', dispatchTimeoutSeconds = 15 \<rparr>"

text \<open>
  What \<open>main\<close> asks of its surroundings: the working directory, the configuration file, what the API server lists
  for the gateway and for the client, the trace loader, the output file, the manager's caches.
\<close>

record main_env =
  chdirErr :: "string option"
  dataDir :: bool
  env_readFile :: "string \<Rightarrow> string + string"
  env_unmarshal :: "string \<Rightarrow> string + AutoscalerConfig"
  env_deployments :: "string + Deployment list"
  env_services :: "string + KnService list"
  env_targets :: "string + Deployment list"
  env_load :: "string \<Rightarrow> TraceSpec list go"
  env_createErr :: "string \<Rightarrow> string option"
  cacheSynced :: bool

datatype ('rq, 'rs, 'm, 't, 'b, 'w, 'q, 'e) any_gateway =
  K8sGateway "('rq, 'rs, 'm, 't, 'b, 'w, 'q) k8sGateway"
| KnativeGateway "('rq, 'rs, 'e) knativeGateway"

fun any_impl :: "('rq, 'rs, 'm, 't, 'b, 'w, 'q, 'e) any_gateway \<Rightarrow> ('rq, 'rs) gatewayImpl" where
  "any_impl (K8sGateway g) = gw_impl g"
| "any_impl (KnativeGateway g) = kn_impl g"

definition newGateway ::
    "(Response, 'rs) chann \<Rightarrow> main_env \<Rightarrow> duration \<Rightarrow> flags \<Rightarrow> (string + ('rq, 'rs, 'm, 't, 'b, 'w, 'q, 'e) any_gateway) go" where
  "newGateway CS env timeout f =
     (if gatewayFramework f = ''knative'' then Ret (Inr (KnativeGateway (NewKnativeGateway CS timeout)))
      else if gatewayFramework f = ''k8s'' then
        Ret (map_sum id K8sGateway (NewK8sGateway CS timeout (autoscalerFramework f)
          (NewAutoscalerConfigFrom (env_readFile env) (env_unmarshal env) (autoscalerConfig f))))
      else Panic (''unknown gateway framework '' @ gatewayFramework f))"

fun any_SetUpWithManager ::
    "(Request, 'rq) chann \<Rightarrow> (Response, 'rs) chann \<Rightarrow> ('m, 'e) sharedMap \<Rightarrow> (string, 't) chann \<Rightarrow> (string, 'q) workqueue
       \<Rightarrow> 'b timed_buckets \<Rightarrow> 'w time_window \<Rightarrow> 'e backends \<Rightarrow> main_env
       \<Rightarrow> ('rq, 'rs, 'm, 't, 'b, 'w, 'q, 'e) any_gateway \<Rightarrow> (string + ('rq, 'rs, 'm, 't, 'b, 'w, 'q, 'e) any_gateway) go" where
  "any_SetUpWithManager CQ CS S T Q B W mk env (K8sGateway g) =
     go_bind (k8s_SetUpWithManager CQ CS S T Q B W (env_deployments env) g) (\<lambda>r. Ret (map_sum id K8sGateway r))"
| "any_SetUpWithManager CQ CS S T Q B W mk env (KnativeGateway g) =
     go_bind (kn_SetUpWithManager CQ CS mk (env_services env) g) (\<lambda>r. Ret (map_sum id KnativeGateway r))"

text \<open>\<open>klog.Fatalf\<close> when a step returned an error.\<close>

definition or_fatal :: "string \<Rightarrow> (string + 'a) go \<Rightarrow> 'a go" where
  "or_fatal msg r = go_bind r (\<lambda>x. case x of Inl err \<Rightarrow> Panic (msg @ err) | Inr y \<Rightarrow> Ret y)"

definition main_setup ::
    "(Request, 'rq) chann \<Rightarrow> (Response, 'rs) chann \<Rightarrow> ('m, 'e) sharedMap \<Rightarrow> (string, 't) chann \<Rightarrow> (string, 'q) workqueue
       \<Rightarrow> 'b timed_buckets \<Rightarrow> 'w time_window \<Rightarrow> (backend_vars \<Rightarrow> 'e backends) \<Rightarrow> main_env \<Rightarrow> trace_flags
       \<Rightarrow> (backend_vars \<times> ('rq, 'rs, 'm, 't, 'b, 'w, 'q, 'e) any_gateway \<times> 'rq Client) go" where
  "main_setup CQ CS S T Q B W mk env tf =
     (if chdirErr env \<noteq> None then Panic (''Cannot enter baseDir: '' @ the (chdirErr env))
      else if \<not> dataDir env then Panic ''baseDir contains no data dir, consider running download.sh first''
      else
        go_bind (validateFlags (flags.truncate tf)) (\<lambda>f.
          let v = Use (backendFramework f) backend_init;
              timeout = int64_of (dispatchTimeoutSeconds tf * Second)
          in go_bind (or_fatal ''Unable to create gateway: '' (newGateway CS env timeout f)) (\<lambda>g.
             go_bind (or_fatal ''Unable to setup gateway with manager: '' (any_SetUpWithManager CQ CS S T Q B W (mk v) env g)) (\<lambda>g'.
             go_bind (or_fatal ''Unable to create client: ''
               (NewClient (env_load env (traceLoaderConfig f)) (outputPath tf) (env_createErr env (outputPath tf)))) (\<lambda>c.
             go_bind (or_fatal ''Unable to setup client with manager: ''
               (Client_SetupWithManager (RequestChan (any_impl g')) (env_targets env) c)) (\<lambda>c'.
             if \<not> cacheSynced env then Panic ''Unable to sync manager cache''
             else Ret (v, g', c')))))))"

section \<open>The processes of the experiment\<close>

text \<open>
  Closing a channel and asking whether it is closed. A send on a closed channel panics; a receive from a
  closed and drained one yields the zero value, here a nil request.
\<close>

record 'c closing =
  do_close :: "'c \<Rightarrow> 'c"
  is_closed :: "'c \<Rightarrow> bool"

datatype main_phase = Selecting | Finishing | Cancelled | Closing | Returned

text \<open>
  \<open>ts_ctxDone\<close>: the context is done; \<open>ts_relays\<close>: the relays that have not returned; \<open>writerChan\<close> and
  \<open>ts_recvDone\<close> belong to \<open>recv\<close>, \<open>ts_write\<close> to \<open>write\<close>; \<open>finishRecv\<close> is closed.
\<close>

record ('rq, 'rs, 's, 'a) trace_sys =
  ts_gw :: "('rq, 'rs, 's, 'a) gw_sys"
  ts_send :: replay_state
  ts_phase :: main_phase
  ts_ctxDone :: bool
  ts_relays :: "string list"
  writerChan :: 'rs
  ts_recvDone :: bool
  ts_write :: write_vars
  finishRecv :: bool

datatype ('ev, 'a) trace_event =
  TSend string nat gotime | TGateway "('ev, 'a) gw_event" | TRelayReturn string | TRecv gotime | TWrite
| TSignal | TSelectDone | TSelectFinish | TCancel | TClose | TExit

definition write_init :: write_vars where
  "write_init = \<lparr> nTotal = 0, nFailed = 0, outputFile = [] \<rparr>"

definition tm_init :: "(Response, 'rs) chann \<Rightarrow> string list \<Rightarrow> ('rq, 'rs, 's, 'a) gw_sys \<Rightarrow> ('rq, 'rs, 's, 'a) trace_sys" where
  "tm_init CS keys gw = \<lparr> ts_gw = gw, ts_send = replay_init, ts_phase = Selecting, ts_ctxDone = False, ts_relays = keys,
     writerChan = ch_new CS, ts_recvDone = False, ts_write = write_init, finishRecv = False \<rparr>"

text \<open>The steps of the gateway that are not the client's, and the relay that makes one.\<close>

fun gateway_side :: "('ev, 'a) gw_event \<Rightarrow> bool" where
  "gateway_side (GSubmit key req) = False"
| "gateway_side GDeliver = False"
| "gateway_side _ = True"

fun relay_of :: "('ev, 'a) gw_event \<Rightarrow> string list" where
  "relay_of (GRelayReq key t now) = [key]"
| "relay_of (GRelayRes key t) = [key]"
| "relay_of _ = []"

text \<open>A relay's panic: its own, or one of the channels being closed.\<close>

fun relay_panic ::
    "(Request, 'rq) chann \<Rightarrow> (Response, 'rs) chann \<Rightarrow> 'a gw_callbacks \<Rightarrow> duration \<Rightarrow> ('ev, 'a) gw_event \<Rightarrow> ('rq, 'rs, 's, 'a) gw_sys \<Rightarrow> string option" where
  "relay_panic CQ CS cb period (GRelayReq key t now) s =
     (case relay_from_client CQ CS (on_ReqIn cb t) period key now (gs_impl s, gs_relay s key, gs_as s) of Some (Panic m) \<Rightarrow> Some m | _ \<Rightarrow> None)"
| "relay_panic CQ CS cb period (GRelayRes key t) s =
     (case relay_to_client CS (on_ReqOut cb t) period key (gs_impl s, gs_relay s key, gs_as s) of Some (Panic m) \<Rightarrow> Some m | _ \<Rightarrow> None)"
| "relay_panic CQ CS cb period _ s = None"

fun closed_panic ::
    "(Request, 'rq) chann \<Rightarrow> (Response, 'rs) chann \<Rightarrow> 'rq closing \<Rightarrow> 'rs closing \<Rightarrow> ('ev, 'a) gw_event \<Rightarrow> ('rq, 'rs, 's, 'a) gw_sys \<Rightarrow> string option" where
  "closed_panic CQ CS XQ XS (GRelayReq key t now) s =
     (case gm_get (externalInputs (gs_impl s)) key of
        None \<Rightarrow> None
      | Some c \<Rightarrow>
          (case ch_recv CQ c of
             None \<Rightarrow> if is_closed XQ c then Some ''nil pointer dereference'' else None
           | Some (req, _) \<Rightarrow>
               if Target req \<noteq> key \<and> is_closed XS (externalOutput (gs_impl s)) then Some ''send on closed channel'' else None))"
| "closed_panic CQ CS XQ XS (GRelayRes key t) s =
     (case gm_get (internalOutputBuffers (gs_impl s)) key of
        None \<Rightarrow> None
      | Some c \<Rightarrow>
          if ch_recv CS c \<noteq> None \<and> is_closed XS (externalOutput (gs_impl s)) then Some ''send on closed channel'' else None)"
| "closed_panic CQ CS XQ XS _ s = None"

text \<open>
  One step; \<open>None\<close> when the process has no such step to take, a panic ends the program. \<open>TRecv\<close> and \<open>TWrite\<close> are
  iterations of \<open>recv\<close> and \<open>write\<close>, the end of their \<open>range\<close> loops included.
\<close>

fun tm_step ::
    "(Request, 'rq) chann \<Rightarrow> (Response, 'rs) chann \<Rightarrow> 'rq closing \<Rightarrow> 'rs closing \<Rightarrow> ('ev, 's) dispatcher_ops \<Rightarrow> 'a gw_callbacks
       \<Rightarrow> duration \<Rightarrow> int \<Rightarrow> (string \<Rightarrow> bool) \<Rightarrow> (string, 'c worker) gomap \<Rightarrow> ('ev, 'a) trace_event
       \<Rightarrow> ('rq, 'rs, 's, 'a) trace_sys \<Rightarrow> ('rq, 'rs, 's, 'a) trace_sys go option" where
  "tm_step CQ CS XQ XS D cb period factor canWrite ws (TSend key i now) s =
     (case (send ws (key, i, now) (ts_send s), gm_get (externalInputs (gs_impl (ts_gw s))) key) of
        (Some r, Some c) \<Rightarrow>
          if is_closed XQ c then Some (Panic ''send on closed channel'')
          else map_option (\<lambda>g. Ret (s\<lparr> ts_send := r, ts_gw := g \<rparr>))
                 (gw_step CQ CS D cb period (GSubmit key (snd (last (sent r)))) (ts_gw s))
      | _ \<Rightarrow> None)"
| "tm_step CQ CS XQ XS D cb period factor canWrite ws (TGateway ev) s =
     (if \<not> gateway_side ev \<or> \<not> set (relay_of ev) \<subseteq> set (ts_relays s) then None
      else case relay_panic CQ CS cb period ev (ts_gw s) of
          Some m \<Rightarrow> Some (Panic m)
        | None \<Rightarrow>
            (case closed_panic CQ CS XQ XS ev (ts_gw s) of
               Some m \<Rightarrow> Some (Panic m)
             | None \<Rightarrow> map_option (\<lambda>g. Ret (s\<lparr> ts_gw := g \<rparr>)) (gw_step CQ CS D cb period ev (ts_gw s))))"
| "tm_step CQ CS XQ XS D cb period factor canWrite ws (TRelayReturn key) s =
     (if ts_ctxDone s then Some (Ret (s\<lparr> ts_relays := removeAll key (ts_relays s) \<rparr>)) else None)"
| "tm_step CQ CS XQ XS D cb period factor canWrite ws (TRecv now) s =
     (if ts_recvDone s then None
      else case gw_step CQ CS D cb period GDeliver (ts_gw s) of
          Some g \<Rightarrow> Some (Ret (s\<lparr> ts_gw := g, writerChan := ch_send CS (writerChan s) (recv_stamp now (last (gs_delivered g))) \<rparr>))
        | None \<Rightarrow>
            if is_closed XS (externalOutput (gs_impl (ts_gw s)))
            then Some (Ret (s\<lparr> ts_recvDone := True, writerChan := do_close XS (writerChan s) \<rparr>)) else None)"
| "tm_step CQ CS XQ XS D cb period factor canWrite ws TWrite s =
     (if finishRecv s then None
      else case ch_recv CS (writerChan s) of
          Some (res, c) \<Rightarrow> Some (go_bind (write_loop factor canWrite [Some res] (ts_write s)) (\<lambda>v. Ret (s\<lparr> writerChan := c, ts_write := v \<rparr>)))
        | None \<Rightarrow>
            if is_closed XS (writerChan s)
            then Some (go_bind (WriteString canWrite ''Failed to write request summary''
                   (summary_line (nTotal (ts_write s)) (nFailed (ts_write s))) (ts_write s))
                 (\<lambda>v. Ret (s\<lparr> ts_write := v, finishRecv := True \<rparr>)))
            else None)"
| "tm_step CQ CS XQ XS D cb period factor canWrite ws TSignal s = Some (Ret (s\<lparr> ts_ctxDone := True \<rparr>))"
| "tm_step CQ CS XQ XS D cb period factor canWrite ws TSelectDone s =
     (if ts_phase s = Selecting \<and> ts_ctxDone s then Some (Ret (s\<lparr> ts_phase := Cancelled \<rparr>)) else None)"
| "tm_step CQ CS XQ XS D cb period factor canWrite ws TSelectFinish s =
     (if ts_phase s = Selecting \<and> finished_send ws (ts_send s) then Some (Ret (s\<lparr> ts_phase := Finishing \<rparr>)) else None)"
| "tm_step CQ CS XQ XS D cb period factor canWrite ws TCancel s =
     (if ts_phase s = Finishing then Some (Ret (s\<lparr> ts_phase := Cancelled, ts_ctxDone := True \<rparr>)) else None)"
| "tm_step CQ CS XQ XS D cb period factor canWrite ws TClose s =
     (if ts_phase s = Cancelled then
        Some (Ret (s\<lparr> ts_phase := Closing,
          ts_gw := (ts_gw s)\<lparr> gs_impl := gateway_Close (do_close XQ) (do_close XS) (gs_impl (ts_gw s)) \<rparr> \<rparr>))
      else None)"
| "tm_step CQ CS XQ XS D cb period factor canWrite ws TExit s =
     (if ts_phase s = Closing \<and> finishRecv s then Some (Ret (s\<lparr> ts_phase := Returned \<rparr>)) else None)"

text \<open>A run; nothing happens once \<open>main\<close> has returned.\<close>

fun tm_run ::
    "(Request, 'rq) chann \<Rightarrow> (Response, 'rs) chann \<Rightarrow> 'rq closing \<Rightarrow> 'rs closing \<Rightarrow> ('ev, 's) dispatcher_ops \<Rightarrow> 'a gw_callbacks
       \<Rightarrow> duration \<Rightarrow> int \<Rightarrow> (string \<Rightarrow> bool) \<Rightarrow> (string, 'c worker) gomap \<Rightarrow> ('ev, 'a) trace_event list
       \<Rightarrow> ('rq, 'rs, 's, 'a) trace_sys \<Rightarrow> ('rq, 'rs, 's, 'a) trace_sys go option" where
  "tm_run CQ CS XQ XS D cb period factor canWrite ws [] s = Some (Ret s)"
| "tm_run CQ CS XQ XS D cb period factor canWrite ws (ev # evs) s =
     (if ts_phase s = Returned then None
      else case tm_step CQ CS XQ XS D cb period factor canWrite ws ev s of
          None \<Rightarrow> None
        | Some (Panic m) \<Rightarrow> if evs = [] then Some (Panic m) else None
        | Some (Ret s') \<Rightarrow> tm_run CQ CS XQ XS D cb period factor canWrite ws evs s')"

lemma send_shape:
  assumes "tm_step CQ CS XQ XS D cb period factor canWrite ws (TSend key i now) s = Some (Ret s')"
  obtains r g where "send ws (key, i, now) (ts_send s) = Some r" "s' = s\<lparr> ts_send := r, ts_gw := g \<rparr>"
    "gw_step CQ CS D cb period (GSubmit key (snd (last (sent r)))) (ts_gw s) = Some g"
  using assms by (auto split: option.splits if_splits simp del: gw_step.simps)

lemma gateway_shape:
  assumes "tm_step CQ CS XQ XS D cb period factor canWrite ws (TGateway e) s = Some (Ret s')"
  obtains g where "gateway_side e" "closed_panic CQ CS XQ XS e (ts_gw s) = None"
    "gw_step CQ CS D cb period e (ts_gw s) = Some g" "s' = s\<lparr> ts_gw := g \<rparr>"
  using assms by (auto split: option.splits if_splits simp del: gw_step.simps)

lemma recv_shape:
  assumes "tm_step CQ CS XQ XS D cb period factor canWrite ws (TRecv now) s = Some (Ret s')"
  obtains (some) g where "gw_step CQ CS D cb period GDeliver (ts_gw s) = Some g" "\<not> ts_recvDone s"
      "s' = s\<lparr> ts_gw := g, writerChan := ch_send CS (writerChan s) (recv_stamp now (last (gs_delivered g))) \<rparr>"
    | (ended) "ch_recv CS (externalOutput (gs_impl (ts_gw s))) = None" "\<not> ts_recvDone s" "is_closed XS (externalOutput (gs_impl (ts_gw s)))"
      "s' = s\<lparr> ts_recvDone := True, writerChan := do_close XS (writerChan s) \<rparr>"
  using assms by (auto split: option.splits if_splits)

lemma write_shape:
  assumes "tm_step CQ CS XQ XS D cb period factor canWrite ws TWrite s = Some (Ret s')"
  obtains (some) res c v where "ch_recv CS (writerChan s) = Some (res, c)" "\<not> finishRecv s"
      "write_loop factor canWrite [Some res] (ts_write s) = Ret v" "s' = s\<lparr> writerChan := c, ts_write := v \<rparr>"
    | (ended) v where "ch_recv CS (writerChan s) = None" "\<not> finishRecv s" "is_closed XS (writerChan s)"
      "WriteString canWrite ''Failed to write request summary'' (summary_line (nTotal (ts_write s)) (nFailed (ts_write s))) (ts_write s) = Ret v"
      "s' = s\<lparr> ts_write := v, finishRecv := True \<rparr>"
  using assms by (auto simp: go_bind_eq_Ret simp del: write_loop.simps split: option.splits if_splits)

section \<open>What the output file accounts for\<close>

lemma write_loop_append: "write_loop k cw (map Some xs @ rest) v = go_bind (write_loop k cw (map Some xs) v) (write_loop k cw rest)"
proof (induction xs arbitrary: v)
  case (Cons x xs)
  then show ?case
    by (simp add: Let_def WriteString_def)
qed simp

lemma recv_stamp_Source [simp]: "Source (recv_stamp t r) = Source r" "Status (recv_stamp t r) = Status r"
  by (simp_all add: recv_stamp_def)

text \<open>A response as the client stamped it.\<close>

definition stamped :: "Response \<Rightarrow> Response \<Rightarrow> bool" where
  "stamped r d \<longleftrightarrow> (\<exists>t. r = recv_stamp t d)"

lemma stamped_sources: "list_all2 stamped rs ds \<Longrightarrow> map Source rs = map Source ds"
  by (induction rule: list_all2_induct) (auto simp: stamped_def)

locale trace_env = sound_gateway D pending CQ iq CS ir cb ok
    + cq: closable_chan CQ iq "do_close XQ" "is_closed XQ" + cs: closable_chan CS ir "do_close XS" "is_closed XS"
  for D :: "('ev, 's) dispatcher_ops" and pending :: "'s \<Rightarrow> Request list"
    and CQ :: "(Request, 'rq) chann" and iq :: "'rq \<Rightarrow> Request list"
    and CS :: "(Response, 'rs) chann" and ir :: "'rs \<Rightarrow> Response list"
    and cb :: "'a gw_callbacks" and ok :: "'a \<Rightarrow> string \<Rightarrow> bool"
    and XQ :: "'rq closing" and XS :: "'rs closing"
begin

definition closed_inputs :: "('rq, 'rs, 's, 'a) gw_sys \<Rightarrow> string \<Rightarrow> bool option" where
  "closed_inputs g key = map_option (is_closed XQ) (map_of (externalInputs (gs_impl g)) key)"

text \<open>What a step of the gateway does to the channels that can be closed.\<close>

lemma gw_step_closed:
  assumes "gw_step CQ CS D cb period ev g = Some g'"
  shows "is_closed XS (externalOutput (gs_impl g')) = is_closed XS (externalOutput (gs_impl g)) \<and> closed_inputs g' = closed_inputs g
    \<and> (ev \<noteq> GDeliver \<longrightarrow> gs_delivered g' = gs_delivered g)
    \<and> (ev \<noteq> GDeliver \<and> closed_panic CQ CS XQ XS ev g = None \<and> is_closed XS (externalOutput (gs_impl g))
         \<longrightarrow> externalOutput (gs_impl g') = externalOutput (gs_impl g))"
proof (cases ev)
  case (GSubmit key req)
  then have "gw_step CQ CS D cb period (GSubmit key req) g = Some g'"
    using assms by simp
  then show ?thesis
    by (cases rule: submit_shape) (auto simp: GSubmit closed_inputs_def fun_eq_iff gm_get_map_of)
next
  case (GRelayReq key t now)
  then have "gw_step CQ CS D cb period (GRelayReq key t now) g = Some g'"
    using assms by simp
  then show ?thesis
  proof (cases rule: relay_req_shape)
    case (reject c req c')
    then show ?thesis
      using cq.closed_recv [OF reject(2)] by (auto simp: GRelayReq closed_inputs_def fun_eq_iff gm_get_map_of)
  next
    case (forward c req c' r a d)
    then show ?thesis
      using cq.closed_recv [OF forward(2)] by (auto simp: GRelayReq closed_inputs_def fun_eq_iff gm_get_map_of)
  qed
next
  case (GRelayRes key t)
  then have "gw_step CQ CS D cb period (GRelayRes key t) g = Some g'"
    using assms by simp
  then show ?thesis
    by (cases rule: relay_res_shape) (auto simp: GRelayRes closed_inputs_def fun_eq_iff)
next
  case (GDispIn key)
  then have "gw_step CQ CS D cb period (GDispIn key) g = Some g'"
    using assms by simp
  then show ?thesis
    by (cases rule: disp_in_shape) (auto simp: closed_inputs_def)
next
  case (GDisp key e)
  then have "gw_step CQ CS D cb period (GDisp key e) g = Some g'"
    using assms by simp
  then show ?thesis
    by (cases rule: disp_shape) (auto simp: closed_inputs_def)
next
  case (GDispOut key)
  then have "gw_step CQ CS D cb period (GDispOut key) g = Some g'"
    using assms by simp
  then show ?thesis
    by (cases rule: disp_out_shape) (auto simp: closed_inputs_def)
next
  case GDeliver
  then have "gw_step CQ CS D cb period GDeliver g = Some g'"
    using assms by simp
  then show ?thesis
    by (cases rule: deliver_shape) (auto simp: GDeliver closed_inputs_def cs.closed_recv)
next
  case (GAutoscaler f)
  then show ?thesis
    using assms by (auto simp: closed_inputs_def)
qed

end

fun past_close :: "main_phase \<Rightarrow> bool" where
  "past_close Closing = True"
| "past_close Returned = True"
| "past_close _ = False"

context trace_env
begin

abbreviation out_chan :: "('rq, 'rs, 's, 'a) trace_sys \<Rightarrow> 'rs" where
  "out_chan s \<equiv> externalOutput (gs_impl (ts_gw s))"

text \<open>Every request that was sent is in the gateway or answered.\<close>

definition accounted :: "string set \<Rightarrow> ('rq, 'rs, 's, 'a) trace_sys \<Rightarrow> bool" where
  "accounted K s \<longleftrightarrow> gw_keys (ts_gw s) K
     \<and> mset (map (core \<circ> snd) (sent (ts_send s))) = (\<Sum>key \<in> K. site (ts_gw s) key) + answered ir (ts_gw s)"

text \<open>The gateway's channels are closed once \<open>main\<close> has closed them; \<open>recv\<close> ends after that, and \<open>write\<close> after \<open>recv\<close>.\<close>

definition closed_in_order :: "string set \<Rightarrow> ('rq, 'rs, 's, 'a) trace_sys \<Rightarrow> bool" where
  "closed_in_order K s \<longleftrightarrow> is_closed XS (out_chan s) = past_close (ts_phase s)
     \<and> (\<forall>key \<in> K. closed_inputs (ts_gw s) key = Some (past_close (ts_phase s)))
     \<and> is_closed XS (writerChan s) = ts_recvDone s
     \<and> (ts_recvDone s \<longrightarrow> past_close (ts_phase s) \<and> ir (out_chan s) = [])
     \<and> (finishRecv s \<longrightarrow> ts_recvDone s \<and> ir (writerChan s) = [])
     \<and> (ts_phase s = Returned \<longrightarrow> finishRecv s)"

text \<open>The writer has written what \<open>recv\<close> handed on, in the order in which the relays answered.\<close>

definition written :: "int \<Rightarrow> (string \<Rightarrow> bool) \<Rightarrow> ('rq, 'rs, 's, 'a) trace_sys \<Rightarrow> bool" where
  "written factor canWrite s \<longleftrightarrow> (\<exists>rs. list_all2 stamped (rs @ ir (writerChan s)) (gs_delivered (ts_gw s))
     \<and> (if finishRecv s then Client_write factor canWrite (map Some rs) else write_loop factor canWrite (map Some rs) write_init) = Ret (ts_write s))"

lemma close_frame:
  fixes s :: "('rq, 'rs, 's, 'a) trace_sys"
  defines "g \<equiv> (ts_gw s)\<lparr> gs_impl := gateway_Close (do_close XQ) (do_close XS) (gs_impl (ts_gw s)) \<rparr>"
  shows "gw_keys g K = gw_keys (ts_gw s) K" "site g key = site (ts_gw s) key" "answered ir g = answered ir (ts_gw s)"
    "closed_inputs g key = map_option (\<lambda>_. True) (closed_inputs (ts_gw s) key)" "inner g key = inner (ts_gw s) key"
proof -
  have ext: "map_of (externalInputs (gs_impl g)) k = map_option (do_close XQ) (map_of (externalInputs (gs_impl (ts_gw s))) k)" for k
    by (simp add: g_def gateway_Close_def map_of_map)
  have rest: "internalInputBuffers (gs_impl g) = internalInputBuffers (gs_impl (ts_gw s))"
      "internalOutputBuffers (gs_impl g) = internalOutputBuffers (gs_impl (ts_gw s))" "gs_disp g = gs_disp (ts_gw s)"
      "externalOutput (gs_impl g) = do_close XS (out_chan s)" "gs_delivered g = gs_delivered (ts_gw s)"
    by (simp_all add: g_def gateway_Close_def)
  show "gw_keys g K = gw_keys (ts_gw s) K"
    by (simp add: gw_keys_def rest ext dom_def)
  show "inner g key = inner (ts_gw s) key"
    by (simp add: between_def rest)
  then show "site g key = site (ts_gw s) key"
    by (simp add: at_target_def in_chan_def gm_get_map_of ext option.case_eq_if option.map_sel)
  show "answered ir g = answered ir (ts_gw s)"
    by (simp add: answered_def rest)
  show "closed_inputs g key = map_option (\<lambda>_. True) (closed_inputs (ts_gw s) key)"
    by (simp add: closed_inputs_def ext option.map_comp comp_def)
qed

lemma send_last: "send ws (key, i, now) r = Some r' \<Longrightarrow> \<exists>req. sent r' = sent r @ [((key, i), req)]"
  by (elim send_SomeD) simp

lemma gateway_side_submitted: "gateway_side ev \<Longrightarrow> submitted [ev] = []"
  by (cases ev) simp_all

lemma accounted_step:
  assumes "tm_step CQ CS XQ XS D cb period factor canWrite ws ev s = Some (Ret s')" "accounted K s" "finite K"
  shows "accounted K s'"
proof -
  have K: "gw_keys (ts_gw s) K" and sum: "mset (map (core \<circ> snd) (sent (ts_send s))) = (\<Sum>key \<in> K. site (ts_gw s) key) + answered ir (ts_gw s)"
    using assms(2) by (simp_all add: accounted_def)
  show ?thesis
  proof (cases ev)
    case (TSend key i now)
    then obtain r g where r: "send ws (key, i, now) (ts_send s) = Some r" "s' = s\<lparr> ts_send := r, ts_gw := g \<rparr>"
        "gw_step CQ CS D cb period (GSubmit key (snd (last (sent r)))) (ts_gw s) = Some g"
      using assms(1) send_shape by metis
    obtain req where "sent r = sent (ts_send s) @ [((key, i), req)]"
      using send_last [OF r(1)] by blast
    then show ?thesis
      using gw_step_effect [OF r(3) K assms(3)] sum r(2) by (simp add: accounted_def del: gw_step.simps)
  next
    case (TGateway e)
    then obtain g where g: "gateway_side e" "gw_step CQ CS D cb period e (ts_gw s) = Some g" "s' = s\<lparr> ts_gw := g \<rparr>"
      using assms(1) gateway_shape by metis
    then show ?thesis
      using gw_step_effect [OF g(2) K assms(3)] gateway_side_submitted [OF g(1)] sum by (simp add: accounted_def del: gw_step.simps)
  next
    case (TRecv now)
    then have "tm_step CQ CS XQ XS D cb period factor canWrite ws (TRecv now) s = Some (Ret s')"
      using assms(1) by simp
    then show ?thesis
    proof (cases rule: recv_shape)
      case (some g)
      then show ?thesis
        using gw_step_effect [OF some(1) K assms(3)] sum by (simp add: accounted_def del: gw_step.simps)
    qed (use assms(2) in \<open>simp add: accounted_def\<close>)
  next
    case TClose
    then show ?thesis
      using assms(1) K sum by (auto simp: accounted_def close_frame split: if_splits)
  next
    case TWrite
    then show ?thesis
      using assms(1,2) by (auto simp: accounted_def go_bind_eq_Ret split: if_splits option.splits)
  qed (use assms(1,2) in \<open>auto simp: accounted_def split: if_splits\<close>)
qed

end

context trace_env
begin

lemma closed_in_order_step:
  assumes "tm_step CQ CS XQ XS D cb period factor canWrite ws ev s = Some (Ret s')" "closed_in_order K s" "ts_phase s \<noteq> Returned"
  shows "closed_in_order K s'"
proof (cases ev)
  case (TSend key i now)
  then obtain r g where r: "s' = s\<lparr> ts_send := r, ts_gw := g \<rparr>"
      "gw_step CQ CS D cb period (GSubmit key (snd (last (sent r)))) (ts_gw s) = Some g"
    using assms(1) send_shape by metis
  then show ?thesis
    using gw_step_closed [OF r(2)] assms(2) by (auto simp: closed_in_order_def simp del: gw_step.simps)
next
  case (TGateway e)
  then obtain g where g: "gateway_side e" "closed_panic CQ CS XQ XS e (ts_gw s) = None" "gw_step CQ CS D cb period e (ts_gw s) = Some g"
      "s' = s\<lparr> ts_gw := g \<rparr>"
    using assms(1) gateway_shape by metis
  then show ?thesis
    using gw_step_closed [OF g(3)] assms(2) by (cases e) (auto simp: closed_in_order_def simp del: gw_step.simps closed_panic.simps)
next
  case (TRecv now)
  then have "tm_step CQ CS XQ XS D cb period factor canWrite ws (TRecv now) s = Some (Ret s')"
    using assms(1) by simp
  then show ?thesis
  proof (cases rule: recv_shape)
    case (some g)
    then show ?thesis
      using gw_step_closed [OF some(1)] assms(2) by (auto simp: closed_in_order_def simp del: gw_step.simps)
  next
    case ended
    then show ?thesis
      using assms(2) by (auto simp: closed_in_order_def s.recv_None_iff)
  qed
next
  case TWrite
  then have "tm_step CQ CS XQ XS D cb period factor canWrite ws TWrite s = Some (Ret s')"
    using assms(1) by simp
  then show ?thesis
  proof (cases rule: write_shape)
    case (some res c v)
    then show ?thesis
      using cs.closed_recv [OF some(1)] assms(2) by (auto simp: closed_in_order_def)
  next
    case (ended v)
    then show ?thesis
      using assms(2) by (auto simp: closed_in_order_def s.recv_None_iff)
  qed
next
  case TClose
  then have "ts_phase s = Cancelled" "s' = s\<lparr> ts_phase := Closing,
      ts_gw := (ts_gw s)\<lparr> gs_impl := gateway_Close (do_close XQ) (do_close XS) (gs_impl (ts_gw s)) \<rparr> \<rparr>"
    using assms(1) by (auto split: if_splits)
  then show ?thesis
    using assms(2) by (auto simp: closed_in_order_def close_frame) (simp_all add: gateway_Close_def)
qed (use assms in \<open>auto simp: closed_in_order_def split: if_splits\<close>)

lemma written_step:
  assumes "tm_step CQ CS XQ XS D cb period factor canWrite ws ev s = Some (Ret s')" "closed_in_order K s" "written factor canWrite s"
  shows "written factor canWrite s'"
proof (cases ev)
  case (TSend key i now)
  then obtain r g where r: "s' = s\<lparr> ts_send := r, ts_gw := g \<rparr>"
      "gw_step CQ CS D cb period (GSubmit key (snd (last (sent r)))) (ts_gw s) = Some g"
    using assms(1) send_shape by metis
  then show ?thesis
    using gw_step_closed [OF r(2)] assms(3) by (simp add: written_def del: gw_step.simps)
next
  case (TGateway e)
  then obtain g where g: "gateway_side e" "gw_step CQ CS D cb period e (ts_gw s) = Some g" "s' = s\<lparr> ts_gw := g \<rparr>"
    using assms(1) gateway_shape by metis
  moreover have "e \<noteq> GDeliver"
    using g(1) by auto
  ultimately show ?thesis
    using gw_step_closed [OF g(2)] assms(3) by (simp add: written_def del: gw_step.simps)
next
  case (TRecv now)
  then have "tm_step CQ CS XQ XS D cb period factor canWrite ws (TRecv now) s = Some (Ret s')"
    using assms(1) by simp
  then show ?thesis
  proof (cases rule: recv_shape)
    case (some g)
    have nf: "\<not> finishRecv s"
      using some(2) assms(2) by (auto simp: closed_in_order_def)
    obtain res where "gs_delivered g = gs_delivered (ts_gw s) @ [res]"
      using some(1) by (cases rule: deliver_shape) simp
    moreover obtain rs where rs: "list_all2 stamped (rs @ ir (writerChan s)) (gs_delivered (ts_gw s))"
        "write_loop factor canWrite (map Some rs) write_init = Ret (ts_write s)"
      using assms(3) nf by (auto simp: written_def)
    moreover have "list_all2 stamped ((rs @ ir (writerChan s)) @ [recv_stamp now res]) (gs_delivered (ts_gw s) @ [res])"
      using rs(1) by (intro list_all2_appendI) (auto simp: stamped_def)
    ultimately show ?thesis
      using some(3) nf by (auto simp: written_def)
  qed (use assms(3) in \<open>simp add: written_def\<close>)
next
  case TWrite
  then have "tm_step CQ CS XQ XS D cb period factor canWrite ws TWrite s = Some (Ret s')"
    using assms(1) by simp
  then show ?thesis
  proof (cases rule: write_shape)
    case (some res c v)
    obtain rs where rs: "list_all2 stamped (rs @ ir (writerChan s)) (gs_delivered (ts_gw s))"
        "write_loop factor canWrite (map Some rs) write_init = Ret (ts_write s)"
      using assms(3) some(2) by (auto simp: written_def)
    have "list_all2 stamped ((rs @ [res]) @ ir c) (gs_delivered (ts_gw s))"
      using rs(1) s.recv_SomeD [OF some(1)] by simp
    moreover have "write_loop factor canWrite (map Some (rs @ [res])) write_init = Ret v"
      using write_loop_append [of factor canWrite rs "[Some res]" write_init] rs(2) some(3) by (simp del: write_loop.simps)
    ultimately show ?thesis
      using some(2,4) unfolding written_def by (intro exI [of _ "rs @ [res]"]) (simp del: write_loop.simps)
  next
    case (ended v)
    then show ?thesis
      using assms(3) by (auto simp: written_def Client_write_def write_init_def)
  qed
qed (use assms(1,3) in \<open>auto simp: written_def split: if_splits\<close>)

end

section \<open>An orderly end\<close>

text \<open>The pause between cancelling and closing is long enough: by then every relay has seen that the context is done.\<close>

definition relays_return_in_time ::
    "(('ev, 'a) trace_event list \<Rightarrow> ('rq, 'rs, 's, 'a) trace_sys \<Rightarrow> ('rq, 'rs, 's, 'a) trace_sys go option) \<Rightarrow> ('ev, 'a) trace_event list
       \<Rightarrow> ('rq, 'rs, 's, 'a) trace_sys \<Rightarrow> bool" where
  "relays_return_in_time run evs s \<longleftrightarrow> (\<forall>pre post s'. evs = pre @ TClose # post \<longrightarrow> run pre s = Some (Ret s') \<longrightarrow> ts_relays s' = [])"

lemma finished_no_send: "finished_send ws r \<Longrightarrow> send ws ev r = None"
  by (cases ev) (fastforce simp: send_def finished_send_def list_all_iff gm_get_map_of Let_def split: option.splits dest: map_of_SomeD)

lemma write_loop_returns: "factor \<noteq> 0 \<Longrightarrow> (\<And>l. canWrite l) \<Longrightarrow> \<exists>v'. write_loop factor canWrite [Some res] v = Ret v'"
  by (simp add: Let_def WriteString_def)

context trace_env
begin

definition tm_inv :: "string set \<Rightarrow> int \<Rightarrow> (string \<Rightarrow> bool) \<Rightarrow> ('rq, 'rs, 's, 'a) trace_sys \<Rightarrow> bool" where
  "tm_inv K factor canWrite s \<longleftrightarrow> accounted K s \<and> closed_in_order K s \<and> written factor canWrite s"

lemma tm_inv_step:
  assumes "tm_step CQ CS XQ XS D cb period factor canWrite ws ev s = Some (Ret s')" "tm_inv K factor canWrite s" "finite K" "ts_phase s \<noteq> Returned"
  shows "tm_inv K factor canWrite s'"
  using accounted_step [OF assms(1) _ assms(3)] closed_in_order_step [OF assms(1) _ assms(4)] written_step [OF assms(1)] assms(2)
  unfolding tm_inv_def by metis

lemma tm_run_Cons_Ret:
  assumes "tm_run CQ CS XQ XS D cb period factor canWrite ws (ev # evs) s = Some (Ret s')"
  obtains s1 where "ts_phase s \<noteq> Returned" "tm_step CQ CS XQ XS D cb period factor canWrite ws ev s = Some (Ret s1)"
    "tm_run CQ CS XQ XS D cb period factor canWrite ws evs s1 = Some (Ret s')"
  using assms by (auto split: if_splits option.splits go.splits)

lemma tm_run_inv:
  assumes "tm_run CQ CS XQ XS D cb period factor canWrite ws evs s = Some (Ret s')" "tm_inv K factor canWrite s" "finite K"
  shows "tm_inv K factor canWrite s'"
  using assms(1,2)
proof (induction evs arbitrary: s)
  case (Cons ev evs)
  obtain s1 where "ts_phase s \<noteq> Returned" "tm_step CQ CS XQ XS D cb period factor canWrite ws ev s = Some (Ret s1)"
    "tm_run CQ CS XQ XS D cb period factor canWrite ws evs s1 = Some (Ret s')"
    using Cons.prems(1) by (rule tm_run_Cons_Ret)
  then show ?case
    using Cons.IH tm_inv_step Cons.prems(2) assms(3) by blast
qed simp

lemma tm_inv_init:
  assumes "\<And>k. load (dinit k) = {#}"
  shows "tm_inv (set keys) factor canWrite (tm_init CS ks (gw_init CQ CS keys dinit a t))"
proof -
  let ?g = "gw_init CQ CS keys dinit a t"
  note e = gw_init_empty [where dinit = dinit and keys = keys and a = a and t = t, OF assms]
  have "accounted (set keys) (tm_init CS ks ?g)"
    using e by (simp add: accounted_def tm_init_def replay_init_def)
  moreover have "closed_in_order (set keys) (tm_init CS ks ?g)"
    by (simp add: closed_in_order_def tm_init_def closed_inputs_def gw_init_def register_fold newGatewayImpl_def)
  moreover have "written factor canWrite (tm_init CS ks ?g)"
    by (simp add: written_def tm_init_def gw_init_def write_init_def)
  ultimately show ?thesis
    by (simp add: tm_inv_def)
qed

text \<open>When \<open>main\<close> has returned, the file holds every response, and what it lacks is still in the gateway.\<close>

lemma output_accounts:
  assumes "tm_inv K factor canWrite s" "ts_phase s = Returned"
  shows "\<exists>rs. Client_write factor canWrite (map Some rs) = Ret (ts_write s) \<and> list_all2 stamped rs (gs_delivered (ts_gw s))
    \<and> mset (map (core \<circ> snd) (sent (ts_send s))) = (\<Sum>key \<in> K. site (ts_gw s) key) + mset (map (\<lambda>r. core (Source r)) rs)"
proof -
  have c: "finishRecv s" "ir (out_chan s) = []" "ir (writerChan s) = []"
    using assms by (auto simp: tm_inv_def closed_in_order_def)
  obtain rs where rs: "list_all2 stamped rs (gs_delivered (ts_gw s))" "Client_write factor canWrite (map Some rs) = Ret (ts_write s)"
    using assms(1) c by (auto simp: tm_inv_def written_def)
  have "mset (map (\<lambda>r. core (Source r)) (gs_delivered (ts_gw s))) = mset (map (\<lambda>r. core (Source r)) rs)"
    using arg_cong [OF stamped_sources [OF rs(1)], of "mset \<circ> map core"] by (simp add: multiset.map_comp comp_def)
  then show ?thesis
    using rs assms(1) c(2) by (intro exI [of _ rs]) (simp add: tm_inv_def accounted_def answered_def)
qed

end

context trace_env
begin

text \<open>Past the \<open>select\<close> nothing is left to send, past the closing no relay runs.\<close>

definition orderly :: "string set \<Rightarrow> (string, 'c worker) gomap \<Rightarrow> ('rq, 'rs, 's, 'a) trace_sys \<Rightarrow> bool" where
  "orderly K ws s \<longleftrightarrow> sound K (ts_gw s) \<and> set (ts_relays s) \<subseteq> K \<and> (ts_phase s \<noteq> Selecting \<longrightarrow> finished_send ws (ts_send s))
     \<and> (past_close (ts_phase s) \<longrightarrow> ts_relays s = [])"

lemma orderly_step:
  assumes "tm_step CQ CS XQ XS D cb period factor canWrite ws ev s = Some (Ret s')" "orderly K ws s" "finite K"
    and "ev \<noteq> TSelectDone" "ev = TClose \<Longrightarrow> ts_relays s = []"
    and "\<And>f a key. ev = TGateway (GAutoscaler f) \<Longrightarrow> ok a key \<Longrightarrow> ok (f a) key"
  shows "orderly K ws s'"
proof -
  have snd: "sound K (ts_gw s)"
    using assms(2) by (simp add: orderly_def)
  note keep = sound_step [OF _ snd assms(3)]
  show ?thesis
  proof (cases ev)
    case (TSend key i now)
    then obtain r g where r: "send ws (key, i, now) (ts_send s) = Some r" "s' = s\<lparr> ts_send := r, ts_gw := g \<rparr>"
        "gw_step CQ CS D cb period (GSubmit key (snd (last (sent r)))) (ts_gw s) = Some g"
      using assms(1) send_shape by metis
    have "ts_phase s = Selecting"
      using finished_no_send [of ws "ts_send s" "(key, i, now)"] r(1) assms(2) by (auto simp: orderly_def)
    then show ?thesis
      using keep [OF r(3)] r(2) assms(2) by (simp add: orderly_def del: gw_step.simps)
  next
    case (TGateway e)
    then obtain g where g: "gw_step CQ CS D cb period e (ts_gw s) = Some g" "s' = s\<lparr> ts_gw := g \<rparr>"
      using assms(1) gateway_shape by metis
    then show ?thesis
      using keep [OF g(1)] assms(2,6) TGateway by (simp add: orderly_def del: gw_step.simps)
  next
    case (TRecv now)
    then have "tm_step CQ CS XQ XS D cb period factor canWrite ws (TRecv now) s = Some (Ret s')"
      using assms(1) by simp
    then show ?thesis
    proof (cases rule: recv_shape)
      case (some g)
      then show ?thesis
        using keep [OF some(1)] assms(2) by (simp add: orderly_def del: gw_step.simps)
    qed (use assms(2) in \<open>simp add: orderly_def\<close>)
  next
    case TWrite
    then have "tm_step CQ CS XQ XS D cb period factor canWrite ws TWrite s = Some (Ret s')"
      using assms(1) by simp
    then show ?thesis
      by (cases rule: write_shape) (use assms(2) in \<open>simp_all add: orderly_def\<close>)
  next
    case TClose
    then have "ts_phase s = Cancelled" "s' = s\<lparr> ts_phase := Closing,
        ts_gw := (ts_gw s)\<lparr> gs_impl := gateway_Close (do_close XQ) (do_close XS) (gs_impl (ts_gw s)) \<rparr> \<rparr>"
      using assms(1) by (auto split: if_splits)
    then show ?thesis
      using assms(2,5) TClose by (simp add: orderly_def sound_def close_frame)
  qed (use assms(1,2,4) in \<open>auto simp: orderly_def split: if_splits\<close>)
qed

text \<open>In an orderly state no process panics.\<close>

lemma send_safe:
  assumes "orderly K ws s" "closed_in_order K s" "factor \<noteq> 0" "\<And>l. canWrite l"
  shows "tm_step CQ CS XQ XS D cb period factor canWrite ws (TSend key i now) s \<noteq> Some (Panic m)"
proof
  assume "tm_step CQ CS XQ XS D cb period factor canWrite ws (TSend key i now) s = Some (Panic m)"
  then obtain r c where r: "send ws (key, i, now) (ts_send s) = Some r"
      and c: "map_of (externalInputs (gs_impl (ts_gw s))) key = Some c" "is_closed XQ c"
    by (auto simp: gm_get_map_of simp del: gw_step.simps split: option.splits if_splits)
  have "ts_phase s = Selecting"
    using finished_no_send [of ws "ts_send s" "(key, i, now)"] r assms(1) by (auto simp: orderly_def)
  moreover have "key \<in> K"
    using c(1) assms(1) by (auto simp: orderly_def sound_def gw_keys_def)
  ultimately show False
    using c assms(2) by (auto simp: closed_in_order_def closed_inputs_def)
qed

lemma gateway_safe:
  assumes "orderly K ws s" "closed_in_order K s"
  shows "tm_step CQ CS XQ XS D cb period factor canWrite ws (TGateway e) s \<noteq> Some (Panic m)"
proof (cases "relay_of e")
  case Nil
  then show ?thesis
    by (cases e) (auto split: option.splits if_splits)
next
  case (Cons key ks)
  have e: "(\<exists>t now. e = GRelayReq key t now) \<or> (\<exists>t. e = GRelayRes key t)"
    using Cons by (cases e) auto
  show ?thesis
  proof (cases "key \<in> set (ts_relays s)")
    case False
    then show ?thesis
      using Cons by (auto simp del: gw_step.simps relay_panic.simps closed_panic.simps)
  next
    case True
    then have key: "key \<in> K" "sound K (ts_gw s)" "\<not> past_close (ts_phase s)"
      using assms(1) by (auto simp: orderly_def)
    then obtain c where "gm_get (externalInputs (gs_impl (ts_gw s))) key = Some c" "\<not> is_closed XQ c" "\<not> is_closed XS (out_chan s)"
      using assms(2) by (auto simp: closed_in_order_def closed_inputs_def gm_get_map_of)
    then have "closed_panic CQ CS XQ XS e (ts_gw s) = None"
      using e by (auto split: option.splits)
    moreover have "relay_panic CQ CS cb period e (ts_gw s) = None"
      using e relays_return [OF key(2,1)] by (auto split: option.splits go.splits)
    ultimately show ?thesis
      by (simp add: option.case_eq_if del: gw_step.simps relay_panic.simps closed_panic.simps)
  qed
qed

lemma step_safe:
  assumes "orderly K ws s" "closed_in_order K s" "factor \<noteq> 0" "\<And>l. canWrite l"
  shows "tm_step CQ CS XQ XS D cb period factor canWrite ws ev s \<noteq> Some (Panic m)"
proof (cases ev)
  case (TSend key i now)
  then show ?thesis
    using send_safe [OF assms] by (simp del: tm_step.simps)
next
  case (TGateway e)
  then show ?thesis
    using gateway_safe [OF assms(1,2)] by (simp del: tm_step.simps)
next
  case (TRecv now)
  then show ?thesis
    by (auto simp del: gw_step.simps split: option.splits)
next
  case TWrite
  have w: "canWrite = (\<lambda>_. True)"
    using assms(4) by auto
  show ?thesis
    unfolding TWrite w using write_loop_returns [OF assms(3), of "\<lambda>_. True"]
    by (auto simp: WriteString_def simp del: write_loop.simps split: option.splits)
      (metis go.distinct(1) go_bind.simps(1))
qed simp_all

lemma tm_run_append:
  "tm_run CQ CS XQ XS D cb period factor canWrite ws pre s = Some (Ret s1) \<Longrightarrow>
     tm_run CQ CS XQ XS D cb period factor canWrite ws (pre @ post) s = tm_run CQ CS XQ XS D cb period factor canWrite ws post s1"
proof (induction pre arbitrary: s)
  case (Cons ev pre)
  obtain s2 where "ts_phase s \<noteq> Returned" "tm_step CQ CS XQ XS D cb period factor canWrite ws ev s = Some (Ret s2)"
    "tm_run CQ CS XQ XS D cb period factor canWrite ws pre s2 = Some (Ret s1)"
    using Cons.prems by (rule tm_run_Cons_Ret)
  then show ?case
    using Cons.IH by (simp del: tm_step.simps)
qed simp

lemma in_time_tail:
  assumes "relays_return_in_time (tm_run CQ CS XQ XS D cb period factor canWrite ws) (ev # evs) s" "ts_phase s \<noteq> Returned"
    and "tm_step CQ CS XQ XS D cb period factor canWrite ws ev s = Some (Ret s1)"
  shows "relays_return_in_time (tm_run CQ CS XQ XS D cb period factor canWrite ws) evs s1" "ev = TClose \<Longrightarrow> ts_relays s = []"
proof -
  have run: "tm_run CQ CS XQ XS D cb period factor canWrite ws (ev # pre) s = tm_run CQ CS XQ XS D cb period factor canWrite ws pre s1" for pre
    using assms(2,3) by (simp del: tm_step.simps)
  show "relays_return_in_time (tm_run CQ CS XQ XS D cb period factor canWrite ws) evs s1"
    unfolding relays_return_in_time_def
  proof (intro allI impI)
    show "ts_relays s' = []" if "evs = pre @ TClose # post" "tm_run CQ CS XQ XS D cb period factor canWrite ws pre s1 = Some (Ret s')" for pre post s'
      using assms(1) that run [of pre] unfolding relays_return_in_time_def by (metis append_Cons)
  qed
  show "ts_relays s = []" if "ev = TClose"
    using assms(1) that unfolding relays_return_in_time_def by (metis append_Nil tm_run.simps(1))
qed

lemma orderly_run:
  assumes "tm_run CQ CS XQ XS D cb period factor canWrite ws evs s = Some r" "orderly K ws s" "tm_inv K factor canWrite s" "finite K"
    and "factor \<noteq> 0" "\<And>l. canWrite l" "TSelectDone \<notin> set evs"
    and "relays_return_in_time (tm_run CQ CS XQ XS D cb period factor canWrite ws) evs s"
    and "\<And>f a key. TGateway (GAutoscaler f) \<in> set evs \<Longrightarrow> ok a key \<Longrightarrow> ok (f a) key"
  shows "\<exists>s'. r = Ret s' \<and> orderly K ws s' \<and> tm_inv K factor canWrite s'"
  using assms(1-3,7-9)
proof (induction evs arbitrary: s)
  case (Cons ev evs)
  have safe: "tm_step CQ CS XQ XS D cb period factor canWrite ws ev s \<noteq> Some (Panic m)" for m
    using Cons.prems(3) by (intro step_safe [OF Cons.prems(2) _ assms(5,6)]) (simp add: tm_inv_def)
  obtain s1 where s1: "ts_phase s \<noteq> Returned" "tm_step CQ CS XQ XS D cb period factor canWrite ws ev s = Some (Ret s1)"
      "tm_run CQ CS XQ XS D cb period factor canWrite ws evs s1 = Some r"
    using Cons.prems(1) safe by (auto simp del: tm_step.simps split: option.splits go.splits if_splits)
  have "orderly K ws s1"
    using Cons.prems(4,6) in_time_tail(2) [OF Cons.prems(5) s1(1,2)] by (intro orderly_step [OF s1(2) Cons.prems(2) assms(4)]) auto
  moreover have "tm_inv K factor canWrite s1"
    using tm_inv_step [OF s1(2) Cons.prems(3) assms(4) s1(1)] .
  ultimately show ?case
    using Cons.prems(4,6) by (intro Cons.IH [OF s1(3)] in_time_tail(1) [OF Cons.prems(5) s1(1,2)]) auto
qed auto

end

section \<open>The end is reached\<close>

context trace_env
begin

text \<open>What \<open>recv\<close> and \<open>write\<close> still have to do after the closing.\<close>

definition left_to_write :: "('rq, 'rs, 's, 'a) trace_sys \<Rightarrow> nat" where
  "left_to_write s = (if ts_recvDone s then 0 else 2 * length (ir (out_chan s)) + 1) + (if finishRecv s then 0 else length (ir (writerChan s)) + 1)"

lemma recv_progress:
  assumes "closed_in_order K s" "ts_phase s = Closing" "\<not> ts_recvDone s"
  shows "\<exists>s'. tm_step CQ CS XQ XS D cb period factor canWrite ws (TRecv now) s = Some (Ret s') \<and> ts_phase s' = Closing
    \<and> left_to_write s' < left_to_write s"
proof (cases "ir (out_chan s)")
  case Nil
  then show ?thesis
    using assms by (auto simp: closed_in_order_def left_to_write_def s.recv_empty)
next
  case (Cons res rest)
  then obtain c where "ch_recv CS (out_chan s) = Some (res, c)" "ir c = rest"
    using s.recv_oldest by blast
  then show ?thesis
    using assms Cons by (auto simp: left_to_write_def closed_in_order_def)
qed

lemma write_progress:
  assumes "closed_in_order K s" "ts_phase s = Closing" "ts_recvDone s" "\<not> finishRecv s" "factor \<noteq> 0" "\<And>l. canWrite l"
  shows "\<exists>s'. tm_step CQ CS XQ XS D cb period factor canWrite ws TWrite s = Some (Ret s') \<and> ts_phase s' = Closing
    \<and> left_to_write s' < left_to_write s"
proof (cases "ir (writerChan s)")
  case Nil
  then show ?thesis
    using assms by (auto simp: closed_in_order_def left_to_write_def s.recv_empty WriteString_def)
next
  case (Cons res rest)
  then obtain c where c: "ch_recv CS (writerChan s) = Some (res, c)" "ir c = rest"
    using s.recv_oldest by blast
  obtain v where "write_loop factor canWrite [Some res] (ts_write s) = Ret v"
    using write_loop_returns [of factor canWrite] assms(5,6) by blast
  then have "tm_step CQ CS XQ XS D cb period factor canWrite ws TWrite s = Some (Ret (s\<lparr> writerChan := c, ts_write := v \<rparr>))"
    using assms(4) c(1) by (simp del: write_loop.simps)
  then show ?thesis
    using assms(2-4) Cons c(2) by (intro exI [of _ "s\<lparr> writerChan := c, ts_write := v \<rparr>"]) (simp add: left_to_write_def del: tm_step.simps)
qed

lemma main_returns:
  assumes "closed_in_order K s" "ts_phase s = Closing" "factor \<noteq> 0" "\<And>l. canWrite l"
  shows "\<exists>evs s'. length evs \<le> left_to_write s + 1 \<and> list_all (\<lambda>ev. ev = TRecv now \<or> ev = TWrite \<or> ev = TExit) evs
    \<and> tm_run CQ CS XQ XS D cb period factor canWrite ws evs s = Some (Ret s') \<and> ts_phase s' = Returned"
  using assms(1,2)
proof (induction "left_to_write s" arbitrary: s rule: less_induct)
  case less
  show ?case
  proof (cases "finishRecv s")
    case True
    then show ?thesis
      using less.prems by (intro exI [of _ "[TExit]"]) simp
  next
    case False
    obtain ev s1 where s1: "ev = TRecv now \<or> ev = TWrite" "tm_step CQ CS XQ XS D cb period factor canWrite ws ev s = Some (Ret s1)"
        "ts_phase s1 = Closing" "left_to_write s1 < left_to_write s"
    proof (cases "ts_recvDone s")
      case True
      from write_progress [where canWrite = canWrite and period = period and ws = ws, OF less.prems this False assms(3,4)] show thesis
        by (elim exE conjE) (rule that [OF disjI2 [OF refl]])
    next
      case False
      from recv_progress [OF less.prems this, of period factor canWrite ws now] show thesis
        by (elim exE conjE) (rule that [OF disjI1 [OF refl]])
    qed
    have "closed_in_order K s1"
      using closed_in_order_step [OF s1(2) less.prems(1)] less.prems(2) by simp
    then obtain evs s' where evs: "length evs \<le> left_to_write s1 + 1" "list_all (\<lambda>ev. ev = TRecv now \<or> ev = TWrite \<or> ev = TExit) evs"
        "tm_run CQ CS XQ XS D cb period factor canWrite ws evs s1 = Some (Ret s')" "ts_phase s' = Returned"
      using less.hyps [OF s1(4)] s1(3) by blast
    then show ?thesis
      using s1 less.prems(2) by (intro exI [of _ "ev # evs"] exI [of _ s']) (elim disjE; simp del: tm_step.simps)
  qed
qed

end

text \<open>A send after the closing.\<close>

lemma late_send_panics:
  assumes "map_of ws key = Some w" "int i < nSenders w" "progress (ts_send s) key i < length (bin_of w i)"
    and "next_send w (ArrivalTimeSec (bin_of w i ! progress (ts_send s) key i)) \<le> now"
    and "map_of (externalInputs (gs_impl (ts_gw s))) key = Some c" "is_closed XQ c"
  shows "tm_step CQ CS XQ XS D cb period factor canWrite ws (TSend key i now) s = Some (Panic ''send on closed channel'')"
  using assms by (simp add: send_def gm_get_map_of Let_def)

section \<open>From the flags to the output file\<close>

text \<open>After the two pauses: the gateway's goroutines run and the client has been started.\<close>

definition main_started ::
    "(Response, 'rs) chann \<Rightarrow> ('rq, 'rs, 'm, 't, 'b, 'w, 'q) k8sGateway \<Rightarrow> (string \<Rightarrow> gotime)
       \<Rightarrow> ('rq, 'rs, ('m, 't, 'e) disp_sys, ('b, 'w, 'q) anyAutoscaler option) trace_sys" where
  "main_started CS g t = tm_init CS (gm_keys (dispatchers g)) (k8s_started g t)"

lemma or_fatal_Ret [simp]: "or_fatal msg r = Ret y \<longleftrightarrow> r = Ret (Inr y)"
  by (cases r) (auto simp: or_fatal_def split: sum.splits)

lemma map_sum_Inr: "map_sum f h x = Inr y \<longleftrightarrow> (\<exists>z. x = Inr z \<and> h z = y)"
  by (cases x) auto

lemma main_setup_k8sD:
  assumes "main_setup CQ CS S T Q B W mk env tf = Ret (v, K8sGateway g, c)"
  obtains g0 timeout fw config targets and tgts :: "Deployment list" and trs where "NewK8sGateway CS timeout fw config = Inr g0"
    "k8s_SetUpWithManager CQ CS S T Q B W (Inr targets) g0 = Ret (Inr g)" "env_deployments env = Inr targets"
    "Client_SetupWithManager (RequestChan (gw_impl g)) (Inr tgts) \<lparr> traces = trs, workers = [] \<rparr> = Ret (Inr c)" "traces c = trs"
proof -
  obtain f a0 a1 c0 where f: "newGateway CS env (int64_of (dispatchTimeoutSeconds tf * Second)) f = Ret (Inr a0)"
      "any_SetUpWithManager CQ CS S T Q B W (mk v) env a0 = Ret (Inr (K8sGateway g))"
      "NewClient (env_load env (traceLoaderConfig f)) (outputPath tf) (env_createErr env (outputPath tf)) = Ret (Inr c0)"
      "Client_SetupWithManager (RequestChan (gw_impl g)) (env_targets env) c0 = Ret (Inr c)"
    using assms by (auto simp: main_setup_def Let_def go_bind_eq_Ret split: if_splits)
  obtain g0 where g0: "a0 = K8sGateway g0" "k8s_SetUpWithManager CQ CS S T Q B W (env_deployments env) g0 = Ret (Inr g)"
    using f(2) by (cases a0) (auto simp: go_bind_eq_Ret map_sum_Inr)
  obtain targets where targets: "env_deployments env = Inr targets"
    using g0(2) by (cases "env_deployments env") (simp_all add: k8s_SetUpWithManager_def)
  obtain trs where c0: "c0 = \<lparr> traces = trs, workers = [] \<rparr>"
    using f(3) by (auto simp: NewClient_def go_bind_eq_Ret split: option.splits)
  obtain tgts where tgts: "env_targets env = Inr tgts" "traces c = trs"
    using f(4) c0 by (cases "env_targets env") (auto simp: Client_SetupWithManager_def go_bind_eq_Ret split: if_splits)
  have "\<exists>timeout fw config. NewK8sGateway CS timeout fw config = Inr g0"
    using f(1) g0(1) by (auto simp: newGateway_def map_sum_Inr split: if_splits)
  then show thesis
    using f(4) g0(2) targets c0 tgts that by metis
qed

lemma k8s_trace_env:
  assumes "closable_chan CQ iq (do_close XQ) (is_closed XQ)" "closable_chan CS ir (do_close XS) (is_closed XS)"
  shows "trace_env (pod_ops S T) in_flight CQ iq CS ir (kpa_callbacks Q B W) callbacks_ready XQ XS"
  by (intro trace_env.intro k8s_sound_gateway assms closable_chan.axioms(1) [OF assms(1)] closable_chan.axioms(1) [OF assms(2)])

definition list_closing :: "('x list \<times> bool) closing" where
  "list_closing = \<lparr> do_close = (\<lambda>c. (fst c, True)), is_closed = snd \<rparr>"

lemma list_closing_sel [simp]: "do_close list_closing = (\<lambda>c. (fst c, True))" "is_closed list_closing = snd"
  by (simp_all add: list_closing_def)

interpretation k8s_trace: trace_env "pod_ops gomap_shared gochan" in_flight gochan_c fst gochan_c fst "kpa_callbacks Q B W" callbacks_ready
    list_closing list_closing
  by (intro k8s_trace_env) (simp_all add: native_c.closable_chan_axioms)

text \<open>The client's part, on its own.\<close>

lemma replay_step:
  assumes "tm_step CQ CS XQ XS D cb period factor canWrite ws ev s = Some (Ret s')"
  shows "ts_send s' = ts_send s \<or> (\<exists>e. send ws e (ts_send s) = Some (ts_send s'))"
proof (cases ev)
  case (TSend key i now)
  then obtain r g where "send ws (key, i, now) (ts_send s) = Some r" "s' = s\<lparr> ts_send := r, ts_gw := g \<rparr>"
    using assms send_shape by metis
  then show ?thesis
    by auto
next
  case (TGateway e)
  then obtain g where "s' = s\<lparr> ts_gw := g \<rparr>"
    using assms gateway_shape by metis
  then show ?thesis
    by simp
next
  case (TRecv now)
  then have "tm_step CQ CS XQ XS D cb period factor canWrite ws (TRecv now) s = Some (Ret s')"
    using assms by simp
  then show ?thesis
    by (cases rule: recv_shape) simp_all
next
  case TWrite
  then have "tm_step CQ CS XQ XS D cb period factor canWrite ws TWrite s = Some (Ret s')"
    using assms by simp
  then show ?thesis
    by (cases rule: write_shape) simp_all
qed (use assms in \<open>auto split: if_splits\<close>)

lemma phase_step:
  assumes "tm_step CQ CS XQ XS D cb period factor canWrite ws ev s = Some (Ret s')" "ev \<noteq> TSelectDone"
    and "ts_phase s \<noteq> Selecting \<Longrightarrow> finished_send ws (ts_send s)" "ts_phase s' \<noteq> Selecting"
  shows "finished_send ws (ts_send s')"
proof (cases "ts_phase s = Selecting")
  case True
  then have "ev = TSelectFinish"
    using assms(1,2,4) by (cases ev) (auto simp: go_bind_eq_Ret simp del: gw_step.simps write_loop.simps split: option.splits if_splits)
  then show ?thesis
    using assms(1) by (auto split: if_splits)
next
  case False
  then show ?thesis
    using replay_step [OF assms(1)] finished_no_send assms(3) by fastforce
qed

lemma replay_in_run:
  assumes "tm_run CQ CS XQ XS D cb period factor canWrite ws evs s = Some (Ret s')" "replay_inv ws (ts_send s)"
    and "\<And>k v. map_of ws k = Some v \<Longrightarrow> w_target v = k"
  shows "replay_inv ws (ts_send s')"
  using assms(1,2)
proof (induction evs arbitrary: s)
  case (Cons ev evs)
  then obtain s1 where s1: "tm_step CQ CS XQ XS D cb period factor canWrite ws ev s = Some (Ret s1)"
      "tm_run CQ CS XQ XS D cb period factor canWrite ws evs s1 = Some (Ret s')"
    by (auto simp del: tm_step.simps split: if_splits option.splits go.splits)
  then have "replay_inv ws (ts_send s1)"
    using replay_step [OF s1(1)] replay_inv_send [OF Cons.prems(2) _ assms(3)] Cons.prems(2) by auto
  then show ?case
    using Cons.IH s1(2) by blast
qed simp

lemma finished_in_run:
  assumes "tm_run CQ CS XQ XS D cb period factor canWrite ws evs s = Some (Ret s')" "TSelectDone \<notin> set evs"
    and "ts_phase s \<noteq> Selecting \<Longrightarrow> finished_send ws (ts_send s)" "ts_phase s' \<noteq> Selecting"
  shows "finished_send ws (ts_send s')"
  using assms(1-3)
proof (induction evs arbitrary: s)
  case Nil
  then show ?case
    using assms(4) by simp
next
  case (Cons ev evs)
  then obtain s1 where s1: "tm_step CQ CS XQ XS D cb period factor canWrite ws ev s = Some (Ret s1)"
      "tm_run CQ CS XQ XS D cb period factor canWrite ws evs s1 = Some (Ret s')"
    by (auto simp del: tm_step.simps split: if_splits option.splits go.splits)
  show ?case
    using Cons.prems(2) phase_step [OF s1(1) _ Cons.prems(3)] by (intro Cons.IH [OF s1(2)]) auto
qed

lemma client_dealt:
  assumes "Client_SetupWithManager requestChan (Inr tgts) \<lparr> traces = trs, workers = [] \<rparr> = Ret (Inr c)"
    and "list_all (\<lambda>tr. length (Invocations tr) \<le> 2 ^ 50) trs" "map_of (Start t0 c) key = Some w"
  shows "dealt key w \<and> requestChan key = Ret (toGateway w)"
proof -
  obtain ws where ws: "register_workers requestChan tgts trs [] = Ret ws" "workers c = ws" "length tgts \<le> length trs"
    using assms(1) by (auto simp: Client_SetupWithManager_def go_bind_eq_Ret split: if_splits)
  obtain w0 where w0: "map_of ws key = Some w0" "w = replay_start t0 w0"
    using assms(3) ws(2) by (auto simp: Start_def map_of_map)
  have "dealt key w0 \<and> requestChan key = Ret (toGateway w0)"
    using register_workers_dealt [OF ws(3) assms(2), of requestChan "[]"] register_workers_chan [OF ws(1)] ws(1) w0(1) by auto
  then show ?thesis
    using w0(2) by (simp add: dealt_def replay_start_def bin_of_def)
qed

text \<open>The invariants hold at the start of the experiment.\<close>

lemma main_started_inv:
  assumes "closable_chan CQ iq (do_close XQ) (is_closed XQ)" "closable_chan CS ir (do_close XS) (is_closed XS)"
    and "main_setup CQ CS S T Q B W mk env tf = Ret (v, K8sGateway g, c)" "env_deployments env = Inr targets"
  shows "trace_env.tm_inv (pod_ops S T) in_flight iq ir XQ XS (KeyFromObject ` set targets) factor canWrite (main_started CS g t)"
    and "gw_autoscaler g = Some a \<Longrightarrow>
      trace_env.orderly (pod_ops S T) in_flight iq ir callbacks_ready (KeyFromObject ` set targets) ws (main_started CS g t)"
proof -
  note env = k8s_trace_env [OF assms(1,2), of S T Q B W]
  obtain g0 timeout fw config where g0: "NewK8sGateway CS timeout fw config = Inr g0"
      "k8s_SetUpWithManager CQ CS S T Q B W (Inr targets) g0 = Ret (Inr g)"
    using main_setup_k8sD [OF assms(3)] assms(4) by (metis sum.inject(2))
  note start = k8s_started_init [OF g0, of t]
  show "trace_env.tm_inv (pod_ops S T) in_flight iq ir XQ XS (KeyFromObject ` set targets) factor canWrite (main_started CS g t)"
    unfolding main_started_def start set_map [symmetric] by (rule trace_env.tm_inv_init [OF env]) (simp add: pod_load)
  show "trace_env.orderly (pod_ops S T) in_flight iq ir callbacks_ready (KeyFromObject ` set targets) ws (main_started CS g t)"
    if "gw_autoscaler g = Some a"
  proof -
    have "dispatchers g = dispatchers (register_all CQ CS S T targets g0)" "dispatchers g0 = []"
      using g0 by (auto simp: k8s_SetUpWithManager_def NewK8sGateway_def Let_def go_bind_eq_Ret split: option.splits sum.splits)
    then have "set (gm_keys (dispatchers g)) \<subseteq> KeyFromObject ` set targets"
      by (auto simp: set_gm_keys register_all_impl split: if_splits)
    moreover have "sound_gateway.sound (pod_ops S T) in_flight iq ir callbacks_ready (KeyFromObject ` set targets) (k8s_started g t)"
      using k8s_started_sound [OF closable_chan.axioms(1) [OF assms(1)] closable_chan.axioms(1) [OF assms(2)] g0 that, of period "[]" t "k8s_started g t"]
      by simp
    ultimately show ?thesis
      unfolding trace_env.orderly_def [OF env] by (simp add: main_started_def tm_init_def)
  qed
qed

section \<open>Properties\<close>

text \<open>
  C1. The output file accounts for the whole experiment. Take any run of the trace experiment on a Kubernetes gateway,
  with senders, relays, dispatchers, autoscaler, receiver, writer and the shutdown interleaved in any
  way, that ends with \<open>main\<close> returning. The file holds one summary line per response, in order, and then the
  totals of exactly these; and the requests sent are, each once, those that these responses
  answer together with the ones the gateway still held when it was closed. Unless a signal ended
  the wait, the requests sent for each target are exactly the invocations of its trace.
\<close>
theorem output_file_accounts:
  assumes "closable_chan CQ iq (do_close XQ) (is_closed XQ)" "closable_chan CS ir (do_close XS) (is_closed XS)"
    and "main_setup CQ CS S T Q B W mk env tf = Ret (v, K8sGateway g, c)" "env_deployments env = Inr targets"
    and "list_all (\<lambda>tr. length (Invocations tr) \<le> 2 ^ 50) (traces c)"
    and "tm_run CQ CS XQ XS (pod_ops S T) (kpa_callbacks Q B W) period default_sampleOutputFactor canWrite (Start t0 c) evs
      (main_started CS g t) = Some (Ret s)"
    and "ts_phase s = Returned" "\<And>line. canWrite line"
  shows "\<exists>rs. outputFile (ts_write s) = map Response_Summary rs
        @ [summary_line (int (length rs)) (int (length (filter (\<lambda>r. Status r \<noteq> SUCCESS) rs)))]
    \<and> mset (map (core \<circ> snd) (sent (ts_send s)))
        = (\<Sum>key \<in> KeyFromObject ` set targets. at_target iq ir workload_of (ts_gw s) key) + mset (map (\<lambda>r. core (Source r)) rs)
    \<and> (TSelectDone \<notin> set evs \<longrightarrow> (\<forall>key w. map_of (workers c) key = Some w \<longrightarrow>
         {# (DurationMilliSec (snd x), TraceRelTime (snd x)). x \<in># mset (filter (\<lambda>x. fst (fst x) = key) (sent (ts_send s))) #}
           = image_mset spec_free (mset (Invocations (trace w)))))"
proof -
  note env = k8s_trace_env [OF assms(1,2), of S T Q B W]
  obtain rs where rs: "Client_write default_sampleOutputFactor canWrite (map Some rs) = Ret (ts_write s)"
      "mset (map (core \<circ> snd) (sent (ts_send s)))
         = (\<Sum>key \<in> KeyFromObject ` set targets. at_target iq ir workload_of (ts_gw s) key) + mset (map (\<lambda>r. core (Source r)) rs)"
    using trace_env.output_accounts [OF env trace_env.tm_run_inv [OF env assms(6) main_started_inv(1) [OF assms(1-4)]] assms(7)]
    unfolding ops_sel pod_load by auto
  have cw: "canWrite = (\<lambda>_. True)"
    using assms(8) by auto
  have "Ret (ts_write s) = Ret \<lparr> nTotal = int (length rs), nFailed = int (length (filter (\<lambda>r. Status r \<noteq> SUCCESS) rs)),
      outputFile = map Response_Summary rs @ [summary_line (int (length rs)) (int (length (filter (\<lambda>r. Status r \<noteq> SUCCESS) rs)))] \<rparr>"
    unfolding rs(1) [symmetric] using write_loop_eq [of 1 rs "[]" write_init]
    by (simp add: Client_write_def default_sampleOutputFactor_def cw WriteString_def write_init_def nths_all)
  then have "outputFile (ts_write s) = map Response_Summary rs
      @ [summary_line (int (length rs)) (int (length (filter (\<lambda>r. Status r \<noteq> SUCCESS) rs)))]"
    by simp
  moreover have "{# (DurationMilliSec (snd x), TraceRelTime (snd x)). x \<in># mset (filter (\<lambda>x. fst (fst x) = key) (sent (ts_send s))) #}
      = image_mset spec_free (mset (Invocations (trace w)))" if "TSelectDone \<notin> set evs" "map_of (workers c) key = Some w" for key w
  proof -
    obtain tgts :: "Deployment list" where cl: "Client_SetupWithManager (RequestChan (gw_impl g)) (Inr tgts) \<lparr> traces = traces c, workers = [] \<rparr> = Ret (Inr c)"
      using main_setup_k8sD [OF assms(3)] by metis
    note dealt = client_dealt [OF cl assms(5), where ?t0.0 = t0]
    have w: "map_of (Start t0 c) key = Some (replay_start t0 w)"
      using that(2) by (simp add: Start_def map_of_map)
    have "finished_send (Start t0 c) (ts_send s)"
      using finished_in_run [OF assms(6) that(1)] assms(7) by (simp add: main_started_def tm_init_def)
    moreover have "replay_inv (Start t0 c) (ts_send s)"
      using replay_in_run [OF assms(6)] dealt replay_inv_init by (auto simp: main_started_def tm_init_def dealt_def)
    ultimately show ?thesis
      using finished_sends_trace [OF _ w] dealt [OF w] by (simp add: replay_start_def)
  qed
  ultimately show ?thesis
    using rs(2) by blast
qed


text \<open>
  C23. After the gateway was closed \<open>main\<close> returns. In every state reached after the closing, whatever else is running, the
  receiver and the writer need only steps of their own to finish: at most two per response on the
  output channel, one per response on the writer's channel and three more, and then \<open>main\<close> has returned.
\<close>
theorem closing_ends:
  assumes "closable_chan CQ iq (do_close XQ) (is_closed XQ)" "closable_chan CS ir (do_close XS) (is_closed XS)"
    and "main_setup CQ CS S T Q B W mk env tf = Ret (v, K8sGateway g, c)"
    and "tm_run CQ CS XQ XS (pod_ops S T) (kpa_callbacks Q B W) period factor canWrite (Start t0 c) evs (main_started CS g t) = Some (Ret s)"
    and "ts_phase s = Closing" "factor \<noteq> 0" "\<And>line. canWrite line"
  shows "\<exists>evs' s'. length evs' \<le> 2 * length (ir (externalOutput (gs_impl (ts_gw s)))) + length (ir (writerChan s)) + 3
    \<and> list_all (\<lambda>ev. ev = TRecv now \<or> ev = TWrite \<or> ev = TExit) evs'
    \<and> tm_run CQ CS XQ XS (pod_ops S T) (kpa_callbacks Q B W) period factor canWrite (Start t0 c) evs' s = Some (Ret s')
    \<and> ts_phase s' = Returned"
proof -
  note env = k8s_trace_env [OF assms(1,2), of S T Q B W]
  obtain targets where targets: "env_deployments env = Inr targets"
    using main_setup_k8sD [OF assms(3)] by metis
  have "trace_env.closed_in_order ir XQ XS (KeyFromObject ` set targets) s"
    using trace_env.tm_run_inv [OF env assms(4) main_started_inv(1) [OF assms(1-3) targets]] unfolding trace_env.tm_inv_def [OF env] by auto
  from trace_env.main_returns [where canWrite = canWrite, OF env this assms(5-7), of now period "Start t0 c"]
  obtain evs' s' where "length evs' \<le> trace_env.left_to_write ir s + 1" "list_all (\<lambda>ev. ev = TRecv now \<or> ev = TWrite \<or> ev = TExit) evs'"
      "tm_run CQ CS XQ XS (pod_ops S T) (kpa_callbacks Q B W) period factor canWrite (Start t0 c) evs' s = Some (Ret s')" "ts_phase s' = Returned"
    by auto
  then show ?thesis
    unfolding trace_env.left_to_write_def [OF env] by (intro exI [of _ evs'] exI [of _ s']) (auto split: if_splits)
qed

text \<open>
  C29. A signal while the client is still sending crashes the experiment. The senders do not look at the context, so after the
  closing any sender with an invocation left panics with a send on a closed channel as soon as the
  invocation's time has come; and such a state is reached only when a signal ended the wait.
\<close>
theorem late_sender_panics:
  assumes "closable_chan CQ iq (do_close XQ) (is_closed XQ)" "closable_chan CS ir (do_close XS) (is_closed XS)"
    and "main_setup CQ CS S T Q B W mk env tf = Ret (v, K8sGateway g, c)"
    and "list_all (\<lambda>tr. length (Invocations tr) \<le> 2 ^ 50) (traces c)"
    and "tm_run CQ CS XQ XS (pod_ops S T) (kpa_callbacks Q B W) period factor canWrite (Start t0 c) evs (main_started CS g t) = Some (Ret s)"
    and "ts_phase s = Closing" "map_of (Start t0 c) key = Some w" "int i < nSenders w"
    and "progress (ts_send s) key i < length (bin_of w i)" "next_send w (ArrivalTimeSec (bin_of w i ! progress (ts_send s) key i)) \<le> now"
  shows "tm_step CQ CS XQ XS (pod_ops S T) (kpa_callbacks Q B W) period factor canWrite (Start t0 c) (TSend key i now) s
      = Some (Panic ''send on closed channel'') \<and> TSelectDone \<in> set evs"
proof
  note env = k8s_trace_env [OF assms(1,2), of S T Q B W]
  obtain targets where targets: "env_deployments env = Inr targets"
    using main_setup_k8sD [OF assms(3)] by metis
  let ?K = "KeyFromObject ` set targets"
  note start = main_started_inv(1) [OF assms(1-3) targets, of factor canWrite t]
  note inv = trace_env.tm_run_inv [OF env assms(5) start]
  obtain tgts :: "Deployment list" where cl: "Client_SetupWithManager (RequestChan (gw_impl g)) (Inr tgts) \<lparr> traces = traces c, workers = [] \<rparr> = Ret (Inr c)"
    using main_setup_k8sD [OF assms(3)] by metis
  have "RequestChan (gw_impl g) key = Ret (toGateway w)"
    using client_dealt [OF cl assms(4,7)] by simp
  then have "key \<in> ?K"
    using start unfolding trace_env.tm_inv_def [OF env] trace_env.accounted_def [OF env]
    by (auto simp: gw_keys_def main_started_def tm_init_def k8s_started_def RequestChan_def gm_get_map_of split: option.splits)
  then have "trace_env.closed_inputs XQ (ts_gw s) key = Some True"
    using inv assms(6) unfolding trace_env.tm_inv_def [OF env] trace_env.closed_in_order_def [OF env] by auto
  then obtain cc where cc: "map_of (externalInputs (gs_impl (ts_gw s))) key = Some cc" "is_closed XQ cc"
    unfolding trace_env.closed_inputs_def [OF env] by auto
  show "tm_step CQ CS XQ XS (pod_ops S T) (kpa_callbacks Q B W) period factor canWrite (Start t0 c) (TSend key i now) s
      = Some (Panic ''send on closed channel'')"
    by (rule late_send_panics [OF assms(7-10) cc])
  show "TSelectDone \<in> set evs"
  proof (rule ccontr)
    assume "TSelectDone \<notin> set evs"
    then have "finished_send (Start t0 c) (ts_send s)"
      using finished_in_run [OF assms(5)] assms(6) by (simp add: main_started_def tm_init_def)
    from finished_no_send [OF this, of "(key, i, now)"] show False
      using assms(7-10) by (simp add: send_def gm_get_map_of Let_def)
  qed
qed

section \<open>A small experiment\<close>

definition sample_main_env :: main_env where
  "sample_main_env = \<lparr> chdirErr = None, dataDir = True, env_readFile = (\<lambda>p. Inr p),
     env_unmarshal = (\<lambda>y. Inr \<lparr> Knative = None, OneTime = Some \<lparr> InitialScale = 3 \<rparr> \<rparr>), env_deployments = Inr [e2e_deployment],
     env_services = Inr [], env_targets = Inr [e2e_deployment], env_load = (\<lambda>p. Ret [one_trace]), env_createErr = (\<lambda>p. None),
     cacheSynced = True \<rparr>"

definition sample_trace_flags :: trace_flags where
  "sample_trace_flags = default_trace_flags\<lparr> autoscalerConfig := ''one-time.yaml'' \<rparr>"

abbreviation sample_main where
  "sample_main \<equiv> main_setup gochan_c gochan_c (gomap_shared :: ((string, nat) gomap, nat) sharedMap) gochan list_queue last_value all_values
     (\<lambda>v. dial_ok) sample_main_env sample_trace_flags"

abbreviation sample_tm where
  "sample_tm c \<equiv> tm_run gochan_c gochan_c list_closing list_closing (pod_ops (gomap_shared :: ((string, nat) gomap, nat) sharedMap) gochan)
     (kpa_callbacks list_queue last_value all_values) tracingOutputPeriod default_sampleOutputFactor (\<lambda>l. True) (Start 0 c)"

text \<open>The first request times out in the dispatcher; the second is still in the gateway when it is closed.\<close>

definition until_cancel :: "(nat disp_event, (float64, int list, string list \<times> string list) anyAutoscaler option) trace_event list" where
  "until_cancel = [TSend ''ns/f'' 0 1, TGateway (GRelayReq ''ns/f'' 1 2), TGateway (GDispIn ''ns/f''), TGateway (GDisp ''ns/f'' Accept),
     TGateway (GDisp ''ns/f'' (Iter 0 CtxDone)), TGateway (GDispOut ''ns/f''), TGateway (GRelayRes ''ns/f'' 3),
     TSend ''ns/f'' 0 2000000000, TSelectFinish, TCancel, TRelayReturn ''ns/f'']"

definition to_the_end :: "(nat disp_event, (float64, int list, string list \<times> string list) anyAutoscaler option) trace_event list" where
  "to_the_end = [TRecv 5, TRecv 6, TWrite, TWrite, TExit]"

definition sample_gateway ::
    "(Request list \<times> bool, Response list \<times> bool, (string \<times> nat) list, string list, float64, int list, string list \<times> string list) k8sGateway" where
  "sample_gateway = \<lparr> gw_impl = register gochan_c gochan_c ''ns/f'' (newGatewayImpl gochan_c), dispatchTimeout = 15 * Second,
     dispatchers = [(''ns/f'', NewPodDispatcher gomap_shared gochan ''ns/f'' (15 * Second))],
     gw_autoscaler = Some (OneTime_Autoscaler \<lparr> Autoscaler.seen = [(''ns/f'', False)], initialScale = 3, scalings = [] \<rparr>),
     newAutoscalerFn = Some (OneTimeFn (Some \<lparr> Knative = None, OneTime = Some \<lparr> InitialScale = 3 \<rparr> \<rparr>)) \<rparr>"

definition sample_client :: "(Request list \<times> bool) Client" where
  "sample_client = \<lparr> traces = [one_trace], workers = [(''ns/f'', \<lparr> w_target = ''ns/f'', trace = one_trace, toGateway = ([], False),
     clientStartTime = 0, nSenders = 1, senderInvocations = [Invocations one_trace] \<rparr>)] \<rparr>"

lemma sample_setup_ok: "sample_main = Ret (Use ''fake'' backend_init, K8sGateway sample_gateway, sample_client)"
  by code_simp

lemma sample_run_ok:
  "(case sample_tm sample_client until_cancel (main_started gochan_c sample_gateway (\<lambda>k. 0)) of
      Some (Ret s) \<Rightarrow> ts_relays s = [] \<and> (case sample_tm sample_client (TClose # to_the_end) s of
        Some (Ret s') \<Rightarrow> ts_phase s' = Returned \<and> length (sent (ts_send s')) = 2 | _ \<Rightarrow> False)
    | _ \<Rightarrow> False)"
  by code_simp

lemma sample_run:
  obtains s s' where "sample_tm sample_client until_cancel (main_started gochan_c sample_gateway (\<lambda>k. 0)) = Some (Ret s)" "ts_relays s = []"
    "sample_tm sample_client (until_cancel @ TClose # to_the_end) (main_started gochan_c sample_gateway (\<lambda>k. 0)) = Some (Ret s')"
    "ts_phase s' = Returned" "length (sent (ts_send s')) = 2"
proof -
  obtain s where s: "sample_tm sample_client until_cancel (main_started gochan_c sample_gateway (\<lambda>k. 0)) = Some (Ret s)"
    using sample_run_ok by (auto split: option.splits go.splits)
  moreover from this obtain s' where "sample_tm sample_client (TClose # to_the_end) s = Some (Ret s')"
    using sample_run_ok by (auto simp del: tm_run.simps split: option.splits go.splits)
  ultimately show thesis
    using sample_run_ok k8s_trace.tm_run_append [OF s, of "TClose # to_the_end"] that by (simp del: tm_run.simps)
qed

lemma native_closable: "closable_chan gochan_c fst (do_close list_closing) (is_closed list_closing)"
  by (simp add: native_c.closable_chan_axioms)

lemma sample_bound: "list_all (\<lambda>tr. length (Invocations tr) \<le> 2 ^ 50) (traces sample_client)"
  by (simp add: sample_client_def one_trace_def)

lemma sample_targets: "env_deployments sample_main_env = Inr [e2e_deployment]"
  by (simp add: sample_main_env_def)

theorem output_file_accounts_witness:
  "\<exists>s rs. sample_tm sample_client (until_cancel @ TClose # to_the_end) (main_started gochan_c sample_gateway (\<lambda>k. 0)) = Some (Ret s)
     \<and> outputFile (ts_write s) = map Response_Summary rs @ [summary_line (int (length rs)) (int (length (filter (\<lambda>r. Status r \<noteq> SUCCESS) rs)))]
     \<and> 2 = size (at_target fst fst workload_of (ts_gw s) ''ns/f'') + length rs"
proof -
  obtain s where s: "sample_tm sample_client (until_cancel @ TClose # to_the_end) (main_started gochan_c sample_gateway (\<lambda>k. 0)) = Some (Ret s)"
      "ts_phase s = Returned" "length (sent (ts_send s)) = 2"
    by (rule sample_run)
  obtain rs where rs: "outputFile (ts_write s) = map Response_Summary rs @ [summary_line (int (length rs)) (int (length (filter (\<lambda>r. Status r \<noteq> SUCCESS) rs)))]"
      "mset (map (core \<circ> snd) (sent (ts_send s)))
        = (\<Sum>key \<in> KeyFromObject ` set [e2e_deployment]. at_target fst fst workload_of (ts_gw s) key) + mset (map (\<lambda>r. core (Source r)) rs)"
    using output_file_accounts [OF native_closable native_closable sample_setup_ok sample_targets sample_bound s(1,2) TrueI] by (elim exE conjE)
  have "2 = size (at_target fst fst workload_of (ts_gw s) ''ns/f'') + length rs"
    using arg_cong [OF rs(2), of size] s(3) by (simp add: sound_key)
  then show ?thesis
    using s(1) rs(1) by (intro exI conjI)
qed

lemma sample_in_time:
  "relays_return_in_time (sample_tm sample_client) (until_cancel @ TClose # to_the_end) (main_started gochan_c sample_gateway (\<lambda>k. 0))"
  unfolding relays_return_in_time_def
proof (intro allI impI)
  fix pre post s'
  assume eq: "until_cancel @ TClose # to_the_end = pre @ TClose # post"
    and run: "sample_tm sample_client pre (main_started gochan_c sample_gateway (\<lambda>k. 0)) = Some (Ret s')"
  have "TClose \<notin> set until_cancel" "TClose \<notin> set to_the_end"
    by (simp_all add: until_cancel_def to_the_end_def)
  then have "pre = until_cancel"
    using eq append_Cons_eq_iff [of TClose until_cancel to_the_end pre post] by simp
  then show "ts_relays s' = []"
    using run sample_run by (metis go.inject(1) option.inject)
qed


text \<open>A signal before anything was sent.\<close>

definition signalled :: "(nat disp_event, (float64, int list, string list \<times> string list) anyAutoscaler option) trace_event list" where
  "signalled = [TSignal, TSelectDone, TRelayReturn ''ns/f'', TClose]"

lemma signalled_run:
  "\<exists>s. sample_tm sample_client signalled (main_started gochan_c sample_gateway (\<lambda>k. 0)) = Some (Ret s) \<and> ts_phase s = Closing
     \<and> ts_send s = replay_init \<and> fst (externalOutput (gs_impl (ts_gw s))) = [] \<and> fst (writerChan s) = []"
  by (simp add: signalled_def main_started_def tm_init_def k8s_started_def sample_gateway_def gateway_Close_def register_def newGatewayImpl_def)

theorem closing_ends_witness:
  "\<exists>s evs' s'. sample_tm sample_client signalled (main_started gochan_c sample_gateway (\<lambda>k. 0)) = Some (Ret s) \<and> length evs' \<le> 3
     \<and> sample_tm sample_client evs' s = Some (Ret s') \<and> ts_phase s' = Returned"
proof -
  obtain s where s: "sample_tm sample_client signalled (main_started gochan_c sample_gateway (\<lambda>k. 0)) = Some (Ret s)" "ts_phase s = Closing"
      "fst (externalOutput (gs_impl (ts_gw s))) = []" "fst (writerChan s) = []"
    using signalled_run by (elim exE conjE)
  have "default_sampleOutputFactor \<noteq> 0"
    by (simp add: default_sampleOutputFactor_def)
  from closing_ends [OF native_closable native_closable sample_setup_ok s(1,2) this TrueI, of 0] show ?thesis
    using s by (auto simp del: tm_run.simps)
qed

theorem late_sender_panics_witness:
  "\<exists>s. sample_tm sample_client signalled (main_started gochan_c sample_gateway (\<lambda>k. 0)) = Some (Ret s)
     \<and> sample_tm sample_client (signalled @ [TSend ''ns/f'' 0 1]) (main_started gochan_c sample_gateway (\<lambda>k. 0)) = Some (Panic ''send on closed channel'')"
proof -
  obtain s where s: "sample_tm sample_client signalled (main_started gochan_c sample_gateway (\<lambda>k. 0)) = Some (Ret s)" "ts_phase s = Closing"
      "ts_send s = replay_init"
    using signalled_run by (elim exE conjE)
  obtain w where w: "map_of (Start 0 sample_client) ''ns/f'' = Some w" "nSenders w = 1" "bin_of w 0 = Invocations one_trace" "clientStartTime w = 0"
    by (simp add: Start_def sample_client_def replay_start_def bin_of_def)
  have "seconds_to_Duration (Fin 0) = 0"
    by code_simp
  then have "next_send w (ArrivalTimeSec (bin_of w 0 ! 0)) \<le> 1"
    using w(3,4) by (simp add: next_send_def one_trace_def time_Add_def)
  then have "tm_step gochan_c gochan_c list_closing list_closing (pod_ops (gomap_shared :: ((string, nat) gomap, nat) sharedMap) gochan)
     (kpa_callbacks list_queue last_value all_values) tracingOutputPeriod default_sampleOutputFactor (\<lambda>l. True) (Start 0 sample_client)
     (TSend ''ns/f'' 0 1) s = Some (Panic ''send on closed channel'')"
    using late_sender_panics [OF native_closable native_closable sample_setup_ok sample_bound s(1,2) w(1), of 0 1] w(2,3) s(3)
    by (simp add: replay_init_def one_trace_def del: tm_step.simps)
  then show ?thesis
    using s(1,2) k8s_trace.tm_run_append [OF s(1), of "[TSend ''ns/f'' 0 1]"] by (simp del: tm_step.simps)
qed

section \<open>When the experiment starts\<close>

lemma client_setup_iff:
  fixes requestChan :: "string \<Rightarrow> 'c go" and listed :: "string + 'a ObjectMeta_scheme list"
  assumes "list_all (\<lambda>tr. length (Invocations tr) \<le> 2 ^ 50) trs"
  shows "(\<exists>c. Client_SetupWithManager requestChan listed \<lparr> traces = trs, workers = [] \<rparr> = Ret (Inr c)) \<longleftrightarrow>
    (\<exists>ts. listed = Inr ts \<and> length ts \<le> length trs \<and> (\<forall>t \<in> set ts. \<not> panics (requestChan (KeyFromObject t))))"
proof -
  have chan: "\<not> panics (requestChan k) \<longleftrightarrow> (\<exists>c. requestChan k = Ret c)" for k
    by (cases "requestChan k") auto
  have "(\<exists>ws. register_workers requestChan ts trs [] = Ret ws) \<longleftrightarrow> (\<forall>t \<in> set ts. \<not> panics (requestChan (KeyFromObject t)))"
    if "length ts \<le> length trs" for ts :: "'a ObjectMeta_scheme list"
    using register_workers_dealt [OF that assms, of requestChan "[]"] register_workers_chan [of requestChan ts trs "[]"] chan by auto
  then show ?thesis
    by (cases listed) (auto simp: Client_SetupWithManager_def go_bind_eq_Ret)
qed

lemma setup_request_chan:
  assumes "NewK8sGateway CS timeout fw config = Inr g" "k8s_SetUpWithManager CQ CS S T Q B W (Inr targets) g = Ret (Inr g')"
  shows "\<not> panics (RequestChan (gw_impl g') key) \<longleftrightarrow> key \<in> KeyFromObject ` set targets"
proof -
  have "gw_impl g' = foldl (\<lambda>g key. register CQ CS key g) (newGatewayImpl CS) (map KeyFromObject targets)"
    using arg_cong [OF k8s_started_init [OF assms, of "\<lambda>k. 0"], of gs_impl] by (simp add: k8s_started_def gw_init_def)
  then show ?thesis
    by (auto simp: RequestChan_def gm_get_map_of register_fold newGatewayImpl_def)
qed

lemma k8s_setup_iff:
  assumes "NewK8sGateway CS timeout ''kpa'' config = Inr g"
  shows "(\<exists>g'. k8s_SetUpWithManager CQ CS S T Q B W listed g = Ret (Inr g')) \<longleftrightarrow>
    (\<exists>ds. listed = Inr ds) \<and> (\<exists>cfg k. config = Inr (Some cfg) \<and> Knative cfg = Some k)"
  using assms
  by (cases listed) (auto simp: NewK8sGateway_def k8s_SetUpWithManager_def register_all_impl Let_def go_bind_eq_Ret KPA_Complete_def
      split: sum.splits option.splits)

lemma config_from_iff:
  "NewAutoscalerConfigFrom readFile unmarshal path = Inr (Some cfg) \<longleftrightarrow> path \<noteq> '''' \<and> (\<exists>y. readFile path = Inr y \<and> unmarshal y = Inr cfg)"
  by (auto simp: NewAutoscalerConfigFrom_def split: sum.splits)

lemma newGateway_k8s:
  "gatewayFramework f = ''k8s'' \<Longrightarrow> newGateway CS env timeout f = Ret (Inr a) \<longleftrightarrow>
     (\<exists>g. a = K8sGateway g \<and> NewK8sGateway CS timeout (autoscalerFramework f)
        (NewAutoscalerConfigFrom (env_readFile env) (env_unmarshal env) (autoscalerConfig f)) = Inr g)"
  by (auto simp: newGateway_def map_sum_Inr)

text \<open>\<open>main_setup\<close> with this gateway, one call after the other.\<close>

lemma main_setup_kpa:
  fixes tf :: trace_flags
  defines "config \<equiv> \<lambda>env. NewAutoscalerConfigFrom (env_readFile env) (env_unmarshal env) (autoscalerConfig tf)"
  assumes "gatewayFramework tf = ''k8s''" "autoscalerFramework tf = ''kpa''" "backendFramework tf = ''fake'' \<or> backendFramework tf = ''grpc''"
    and "env_load env (traceLoaderConfig tf) = Ret trs"
  shows "main_setup CQ CS S T Q B W mk env tf = Ret (v, a, c) \<longleftrightarrow> chdirErr env = None \<and> dataDir env \<and> traceLoaderConfig tf \<noteq> ''''
      \<and> autoscalerConfig tf \<noteq> '''' \<and> v = Use (backendFramework tf) backend_init
      \<and> (\<exists>g g'. a = K8sGateway g' \<and> NewK8sGateway CS (int64_of (dispatchTimeoutSeconds tf * Second)) ''kpa'' (config env) = Inr g
        \<and> k8s_SetUpWithManager CQ CS S T Q B W (env_deployments env) g = Ret (Inr g')
        \<and> Client_SetupWithManager (RequestChan (gw_impl g')) (env_targets env) \<lparr> traces = trs, workers = [] \<rparr> = Ret (Inr c))
      \<and> env_createErr env (outputPath tf) = None \<and> cacheSynced env"
proof -
  let ?f = "flags.truncate tf"
  have sel: "gatewayFramework ?f = ''k8s''" "autoscalerFramework ?f = ''kpa''" "backendFramework ?f = backendFramework tf"
      "autoscalerConfig ?f = autoscalerConfig tf" "traceLoaderConfig ?f = traceLoaderConfig tf"
    using assms(2,3) by (simp_all add: flags.truncate_def)
  have valid: "validateFlags ?f = Ret f \<longleftrightarrow> f = ?f \<and> traceLoaderConfig tf \<noteq> '''' \<and> autoscalerConfig tf \<noteq> ''''" for f
    using assms(4) by (auto simp: validateFlags_def sel)
  show ?thesis
    unfolding config_def
    by (auto simp: main_setup_def Let_def go_bind_eq_Ret valid newGateway_k8s sel assms(5) NewClient_def map_sum_Inr split: if_splits option.splits)
qed



end
