(* ===== verification/Programs.thy ===== *)
theory Programs
  imports Breakdown Handler
begin

text \<open>
  Whole programs, from the command line to the last line printed: the five breakdown experiments of
  \<open>experiments/microbench/breakdown\<close> and the end-to-end experiment of \<open>experiments/microbench/e2e\<close>, each composed of its \<open>main\<close> and its \<open>run\<close>, the node agent (\<open>cmd/kubelet\<close>) up to
  the moment it serves, and the workload server (\<open>pkg/workload/handler/server.go\<close>, \<open>cmd/workload/knative\<close>). The
  directories \<open>breakdown/autoscaler\<close> and \<open>breakdown/deployment\<close> hold the same two files, so the
  functions of the latter are those of the former. The properties show for the deployment, endpoints, ReplicaSet and kubelet breakdowns
  that the program either stops before its first request or runs without a panic to an exact report, for the
  end-to-end experiment when it reports and when it panics, and for the
  node agent that it serves only after its address was accepted; lemmas do the same for the scheduler breakdown and the answers of
  the workload server.
\<close>

section \<open>The client of an experiment\<close>

text \<open>
  Each \<open>run\<close> asks the hub for its client until it has one; the list has the hub's answers before the context
  is cancelled. The result of the poll is ignored, so that after a cancellation the client is nil and
  the first use of it panics; \<open>uses\<close> says whether there is one.
\<close>

fun connect :: "kdClient option list \<Rightarrow> kdClient option" where
  "connect [] = None"
| "connect (Some c # rest) = Some c"
| "connect (None # rest) = connect rest"

definition nilClient :: kdClient where
  "nilClient = \<lparr> kc_ID = '''', kc_Epoch = '''' \<rparr>"

definition with_client :: "('x \<Rightarrow> bool) \<Rightarrow> (kdClient \<Rightarrow> 'x go option) \<Rightarrow> kdClient option list \<Rightarrow> 'x go option" where
  "with_client uses prog unwraps =
     (case connect unwraps of
        Some c \<Rightarrow> prog c
      | None \<Rightarrow> (case prog nilClient of
            Some (Ret x) \<Rightarrow> Some (if uses x then Panic ''nil pointer dereference'' else Ret x)
          | r \<Rightarrow> r))"

section \<open>The experiments\<close>

definition as_experiment ::
    "kdrpc_lib \<Rightarrow> string \<Rightarrow> string \<Rightarrow> int \<Rightarrow> string + Deployment list \<Rightarrow> (string + ReplicaSet list) list \<Rightarrow> kdClient option list
       \<Rightarrow> trial_event list \<Rightarrow> (DeploymentWatchRequest, NamespacedName \<times> int) trial go option" where
  "as_experiment R baseline selector nPods listed polls unwraps evs =
     (case as_main baseline selector of
        Panic m \<Rightarrow> Some (Panic m)
      | Ret fallback \<Rightarrow>
          (case with_client (\<lambda>t. True) (as_start R nPods fallback listed polls) unwraps of
             Some (Ret t) \<Rightarrow> trial_run evs t
           | r \<Rightarrow> r))"

definition dep_doDeploymentHandshake :: "kdrpc_lib \<Rightarrow> (HandshakeRequest \<Rightarrow> string + string) \<Rightarrow> string \<Rightarrow> string \<Rightarrow> (string + string) go" where
  "dep_doDeploymentHandshake = doDeploymentHandshake"

definition dep_newDeploymentServiceLister :: "kdrpc_lib \<Rightarrow> string + kpod list \<Rightarrow> string + string list" where
  "dep_newDeploymentServiceLister = newDeploymentServiceLister"

definition dep_newDeploymentWatchRequest :: "kdClient \<Rightarrow> Deployment \<Rightarrow> int \<Rightarrow> DeploymentWatchRequest" where
  "dep_newDeploymentWatchRequest = newDeploymentWatchRequest"

definition dep_main :: "string \<Rightarrow> string \<Rightarrow> bool go" where
  "dep_main = as_main"

definition dep_experiment ::
    "kdrpc_lib \<Rightarrow> string \<Rightarrow> string \<Rightarrow> int \<Rightarrow> string + Deployment list \<Rightarrow> (string + ReplicaSet list) list \<Rightarrow> kdClient option list
       \<Rightarrow> trial_event list \<Rightarrow> (DeploymentWatchRequest, NamespacedName \<times> int) trial go option" where
  "dep_experiment R baseline selector nPods listed polls unwraps evs =
     (case dep_main baseline selector of
        Panic m \<Rightarrow> Some (Panic m)
      | Ret fallback \<Rightarrow>
          (case with_client (\<lambda>t. True) (as_start R nPods fallback listed polls) unwraps of
             Some (Ret t) \<Rightarrow> trial_run evs t
           | r \<Rightarrow> r))"

definition ep_main :: "string \<Rightarrow> string \<Rightarrow> bool go" where
  "ep_main baseline selector = (if selector = '''' then Panic ''must specify workload selector'' else fallback_baseline baseline)"

definition ep_experiment ::
    "kdrpc_lib \<Rightarrow> string \<Rightarrow> string \<Rightarrow> int \<Rightarrow> string + Service list \<Rightarrow> (NamespacedName \<Rightarrow> string + ReplicaSet)
       \<Rightarrow> (NamespacedName \<Rightarrow> int \<Rightarrow> string option) \<Rightarrow> (string + ReplicaSet list) list \<Rightarrow> kdClient option list
       \<Rightarrow> trial_event list \<Rightarrow> (EndpointsWatchRequest, Service) trial go option" where
  "ep_experiment R baseline selector nPods listed get update polls unwraps evs =
     (case ep_main baseline selector of
        Panic m \<Rightarrow> Some (Panic m)
      | Ret fallback \<Rightarrow>
          (case with_client (\<lambda>t. True) (ep_start R selector nPods fallback listed get update polls) unwraps of
             Some (Ret t) \<Rightarrow> trial_run evs t
           | r \<Rightarrow> r))"

definition rs_main :: "string \<Rightarrow> string \<Rightarrow> bool go" where
  "rs_main baseline selector = (if selector = '''' then Panic ''must specify workload selector'' else fallback_baseline baseline)"

text \<open>The goroutines of one fan return one after the other; a panic ends the program.\<close>

fun fan_run :: "(nat \<times> string option) list \<Rightarrow> 'r fan \<Rightarrow> 'r fan go option" where
  "fan_run [] f = Some (Ret f)"
| "fan_run ((i, err) # evs) f =
     (case fan_return i err f of None \<Rightarrow> None | Some (Panic m) \<Rightarrow> Some (Panic m) | Some (Ret f') \<Rightarrow> fan_run evs f')"

definition rs_experiment ::
    "kdrpc_lib \<Rightarrow> (kdClient \<Rightarrow> ReplicaSet \<Rightarrow> 'x ScalingRequest_scheme) \<Rightarrow> string \<Rightarrow> string \<Rightarrow> int \<Rightarrow> string + ReplicaSet list
       \<Rightarrow> kdClient option list \<Rightarrow> (nat \<times> string option) list \<Rightarrow> bool \<Rightarrow> duration \<Rightarrow> duration \<Rightarrow> report_line list go option" where
  "rs_experiment R NewRequest baseline selector nPods listed unwraps evs cancelled elapsed elapsed' =
     (case rs_main baseline selector of
        Panic m \<Rightarrow> Some (Panic m)
      | Ret fallback \<Rightarrow>
          (case with_client (\<lambda>f. True) (\<lambda>c. Some (rs_start R NewRequest nPods fallback listed c)) unwraps of
             Some (Ret f) \<Rightarrow>
               (case fan_run evs f of
                  Some (Ret f') \<Rightarrow> map_option Ret (rs_finish (length (fan_running f)) cancelled elapsed elapsed' f')
                | Some (Panic m) \<Rightarrow> Some (Panic m)
                | None \<Rightarrow> None)
           | Some (Panic m) \<Rightarrow> Some (Panic m)
           | None \<Rightarrow> None))"

definition sched_experiment ::
    "kdrpc_lib \<Rightarrow> (kdClient \<Rightarrow> NamespacedName \<Rightarrow> int \<Rightarrow> 'x ScalingRequest_scheme) \<Rightarrow> string \<Rightarrow> string \<Rightarrow> int \<Rightarrow> string + kpod
       \<Rightarrow> kdClient option list \<Rightarrow> ('x ScalingRequest_scheme \<Rightarrow> string option) \<Rightarrow> duration \<Rightarrow> duration
       \<Rightarrow> ('x ScalingRequest_scheme \<times> report_line list) go option" where
  "sched_experiment R NewRequest baseline target nPods got unwraps SchedulePods elapsed elapsed' =
     (case sched_main baseline target of
        Panic m \<Rightarrow> Some (Panic m)
      | Ret fallback \<Rightarrow>
          with_client (\<lambda>r. True) (\<lambda>c. Some (sched_run R NewRequest target nPods fallback got c SchedulePods elapsed elapsed')) unwraps)"

text \<open>The kubelet breakdown sets up its monitor and starts the manager first.\<close>

fun kb_trial_run :: "bench_lib \<Rightarrow> bench_event list \<Rightarrow> 'r kb_trial \<Rightarrow> 'r kb_trial go option" where
  "kb_trial_run L [] t = Some (Ret t)"
| "kb_trial_run L (ev # evs) t =
     (case kb_trial_step L ev t of None \<Rightarrow> None | Some (Panic m) \<Rightarrow> Some (Panic m) | Some (Ret t') \<Rightarrow> kb_trial_run L evs t')"

definition kb_experiment ::
    "kdrpc_lib \<Rightarrow> bench_lib \<Rightarrow> (benchPodInfo \<Rightarrow> kdClient \<Rightarrow> 'r PodBindingRequest_scheme) \<Rightarrow> string \<Rightarrow> string \<Rightarrow> string \<Rightarrow> int
       \<Rightarrow> string option \<Rightarrow> bool \<Rightarrow> string + kpod \<Rightarrow> gotime \<Rightarrow> int \<Rightarrow> kdClient option list \<Rightarrow> bench_event list \<Rightarrow> 'r kb_trial go option" where
  "kb_experiment R L RequestForBinding baseline target node nPods monitorErr cacheSynced got ts nano unwraps evs =
     (case kb_main baseline target node of
        Panic m \<Rightarrow> Some (Panic m)
      | Ret useDefaultKubelet \<Rightarrow>
          (case monitorErr of
             Some err \<Rightarrow> Some (Panic (''Error creating monitor: '' @ err))
           | None \<Rightarrow>
               if \<not> cacheSynced then Some (Panic ''Cannot syncing manager cache'')
               else case with_client (\<lambda>t. kt_binding t \<noteq> [])
                        (\<lambda>c. Some (kb_start R RequestForBinding node target nPods useDefaultKubelet got ts nano c (kb_NewPodMonitor target))) unwraps of
                   Some (Ret t) \<Rightarrow> kb_trial_run L evs t
                 | r \<Rightarrow> r))"

text \<open>
  The end-to-end experiment scales its targets by goroutines that nobody waits for and waits for the monitor's pods. Pods
  seen before the targets are watched leave the monitor as it is.
\<close>

record 'm e2e_trial =
  et_state :: "'m e2e_state"
  et_scaling :: "(NamespacedName \<times> int) list"
  et_targets :: nat
  et_nScaled :: int
  et_out :: "report_line list"
  et_ended :: bool

fun e2e_trial_step :: "bench_lib \<Rightarrow> ('m, nat) sharedMap \<Rightarrow> bench_event \<Rightarrow> 'm e2e_trial \<Rightarrow> 'm e2e_trial go option" where
  "e2e_trial_step L S (CallReturns i ok) t =
     (if \<not> et_ended t \<and> i < length (et_scaling t)
      then Some (Ret (t\<lparr> et_scaling := take i (et_scaling t) @ drop (Suc i) (et_scaling t),
                         et_nScaled := (if ok then int32_of (et_nScaled t + 1) else et_nScaled t) \<rparr>))
      else None)"
| "e2e_trial_step L S (PodEvent now ev) t =
     (if \<not> et_ended t then Some (go_bind (e2e_event L S now ev (et_state t)) (\<lambda>st. Ret (t\<lparr> et_state := st \<rparr>))) else None)"
| "e2e_trial_step L S (WaitPods cancelled start) t =
     (if et_ended t then None
      else map_option (\<lambda>r. go_bind r (\<lambda>out. Ret (t\<lparr> et_out := out, et_ended := True \<rparr>)))
             (e2e_finish S (et_targets t) (et_nScaled t) cancelled start (et_state t)))"

fun e2e_trial_run :: "bench_lib \<Rightarrow> ('m, nat) sharedMap \<Rightarrow> bench_event list \<Rightarrow> 'm e2e_trial \<Rightarrow> 'm e2e_trial go option" where
  "e2e_trial_run L S [] t = Some (Ret t)"
| "e2e_trial_run L S (ev # evs) t =
     (case e2e_trial_step L S ev t of None \<Rightarrow> None | Some (Panic m) \<Rightarrow> Some (Panic m) | Some (Ret t') \<Rightarrow> e2e_trial_run L S evs t')"

definition e2e_experiment ::
    "bench_lib \<Rightarrow> ('m, nat) sharedMap \<Rightarrow> string \<Rightarrow> string \<Rightarrow> int \<Rightarrow> string option \<Rightarrow> bool \<Rightarrow> string + Deployment list
       \<Rightarrow> (string + ReplicaSet list) list \<Rightarrow> bench_event list \<Rightarrow> 'm e2e_trial go option" where
  "e2e_experiment L S baseline selector nPods monitorErr cacheSynced listed polls evs =
     (case e2e_main baseline selector of
        Panic m \<Rightarrow> Some (Panic m)
      | Ret _ \<Rightarrow>
          (case monitorErr of
             Some err \<Rightarrow> Some (Panic (''Error creating monitor: '' @ err))
           | None \<Rightarrow>
               if \<not> cacheSynced then Some (Panic ''Cannot syncing manager cache'')
               else case e2e_start S nPods listed polls (e2e_NewPodMonitor S selector) of
                   None \<Rightarrow> None
                 | Some (Panic m) \<Rightarrow> Some (Panic m)
                 | Some (Ret (st, scales)) \<Rightarrow>
                     e2e_trial_run L S evs \<lparr> et_state = st, et_scaling = scales, et_targets = length scales, et_nScaled = 0, et_out = [], et_ended = False \<rparr>))"

section \<open>The node agent\<close>

text \<open>\<open>publishServiceAddr\<close> until it is done or fails; the list has what the API server shows to each attempt before the context is cancelled.\<close>

fun publish_loop ::
    "('c, 'cp, 'x, 'im, 'tm, 'h, 'q, 't, 'r) kdlib \<Rightarrow> 't kube list \<Rightarrow> ('c, 'cp, 'im, 'tm, 'h, 'q) KubedirectServer
       \<Rightarrow> (string option \<times> ('c, 'cp, 'im, 'tm, 'h, 'q) KubedirectServer) go" where
  "publish_loop K [] s = Ret (Some ''context canceled'', s)"
| "publish_loop K (E # Es) s =
     go_bind (publishServiceAddr K E s) (\<lambda>(r, s').
       case r of Inl err \<Rightarrow> Ret (Some err, s') | Inr True \<Rightarrow> Ret (None, s') | Inr False \<Rightarrow> publish_loop K Es s')"

text \<open>
  \<open>ListenAndServe\<close>: the caches, the published address, the workers, the server. The result is the returned error
  and the number of workers started; \<open>serve\<close> is the error of the server hub when it stops, and \<open>ShutDown\<close> what the deferred call
  does to the queue on every return. The caches are listed in the order in which the map is traversed.
\<close>

definition kubelet_ListenAndServe ::
    "('c, 'cp, 'x, 'im, 'tm, 'h, 'q, 't, 'r) kdlib \<Rightarrow> ('q \<Rightarrow> 'q) \<Rightarrow> (string \<times> bool) list \<Rightarrow> 't kube list \<Rightarrow> string option
       \<Rightarrow> ('c, 'cp, 'im, 'tm, 'h, 'q) KubedirectServer
       \<Rightarrow> (string option \<times> nat \<times> ('c, 'cp, 'im, 'tm, 'h, 'q) KubedirectServer) go" where
  "kubelet_ListenAndServe K ShutDown caches Es serve s =
     go_bind (case filter (\<lambda>(k, synced). \<not> synced) caches of
                (k, _) # _ \<Rightarrow> Ret (Some (''error syncing '' @ k), 0, s)
              | [] \<Rightarrow>
                  go_bind (publish_loop K Es s) (\<lambda>(r, s').
                    case r of
                      Some err \<Rightarrow> Ret (Some (''failed to publish custom kubelet service address: '' @ err), 0, s')
                    | None \<Rightarrow> Ret (serve, nWorkers, s')))
       (\<lambda>(err, workers, s'). Ret (err, workers, s'\<lparr> KubedirectServer.queue := ShutDown (KubedirectServer.queue s') \<rparr>))"

definition kubelet_program ::
    "('c, 'cp, 'x, 'im, 'tm, 'h, 'q, 't, 'r) kdlib \<Rightarrow> ('q \<Rightarrow> 'q) \<Rightarrow> bool \<Rightarrow> bool \<Rightarrow> string + string \<Rightarrow> kubelet_flags \<Rightarrow> (string \<times> bool) list
       \<Rightarrow> 't kube list \<Rightarrow> string option \<Rightarrow> (nat \<times> ('c, 'cp, 'im, 'tm, 'h, 'q) KubedirectServer) go" where
  "kubelet_program K ShutDown podErr nodeErr osHost f caches Es serve =
     go_bind (kubelet_main K podErr nodeErr osHost f) (\<lambda>s.
       go_bind (kubelet_ListenAndServe K ShutDown caches Es serve s) (\<lambda>(err, workers, s').
         case err of Some e \<Rightarrow> Panic (''Failed to listen & serve: '' @ e) | None \<Rightarrow> Ret (workers, s')))"

section \<open>The workload server\<close>

record funcServer =
  mode :: FunctionType

definition newFuncServer :: "FunctionType \<Rightarrow> funcServer" where
  "newFuncServer m = \<lparr> mode = m \<rparr>"

text \<open>
  \<open>StartGRPCServer\<close>: \<open>listenErr\<close> is the error of listening on the port, \<open>serve\<close> the gRPC runtime, which is given the
  registered handler and returns what it did and the error of \<open>Serve\<close> (none after a graceful stop).
\<close>

definition StartGRPCServer ::
    "(string \<Rightarrow> string option) \<Rightarrow> string option \<Rightarrow> string option \<Rightarrow> ((duration \<Rightarrow> duration \<Rightarrow> FaasRequest \<Rightarrow> FaasReply) \<Rightarrow> 'x \<times> string option)
       \<Rightarrow> 'x go" where
  "StartGRPCServer lookupEnv osHostname listenErr serve =
     (let g = readEnvironmentalVariables lookupEnv osHostname initial_vars in
      case listenErr of
        Some err \<Rightarrow> Panic (''failed to listen: '' @ err)
      | None \<Rightarrow>
          (case serve (funcServer_Execute g (mode (newFuncServer (funcType g)))) of
             (x, Some err) \<Rightarrow> Panic (''Failed to serve: '' @ err)
           | (x, None) \<Rightarrow> Ret x))"

definition knative_workload_main ::
    "(string \<Rightarrow> string option) \<Rightarrow> string option \<Rightarrow> string option \<Rightarrow> ((duration \<Rightarrow> duration \<Rightarrow> FaasRequest \<Rightarrow> FaasReply) \<Rightarrow> 'x \<times> string option)
       \<Rightarrow> 'x go" where
  "knative_workload_main = StartGRPCServer"

section \<open>Lemmas\<close>

lemma with_client_Ret:
  assumes "with_client uses prog unwraps = Some (Ret x)" "\<And>y. prog nilClient = Some (Ret y) \<Longrightarrow> uses y"
  obtains c where "connect unwraps = Some c" "prog c = Some (Ret x)"
  using assms by (auto simp: with_client_def split: option.splits go.splits if_splits)

lemma connect_Some: "connect unwraps = Some c \<Longrightarrow> Some c \<in> set unwraps"
  by (induction unwraps rule: connect.induct) auto

text \<open>The services of the endpoints breakdown, their ReplicaSets and the scale updates.\<close>

lemma checkMetadata_Ret:
  "checkMetadata R fallback obj = Ret () \<longleftrightarrow> label (Labels obj) ''app'' = Name obj \<and> (u_IsManaged R (Labels obj) \<longleftrightarrow> \<not> fallback)"
  by (auto simp: checkMetadata_def)

lemma ep_replicaSets_Ret:
  "ep_replicaSets R fallback get svcs = Ret rss \<Longrightarrow>
     list_all2 (\<lambda>svc rs. get (Namespace svc, Name svc) = Inr rs \<and> rs_SpecReplicas rs = Some 0
        \<and> label (Labels svc) ''app'' = Name svc \<and> label (Labels rs) ''app'' = Name rs
        \<and> (u_IsManaged R (Labels svc) \<longleftrightarrow> \<not> fallback) \<and> (u_IsManaged R (Labels rs) \<longleftrightarrow> \<not> fallback)) svcs rss"
  by (induction svcs arbitrary: rss) (auto simp: go_bind_eq_Ret checkMetadata_Ret split: sum.splits option.splits if_splits)

lemma ep_scaleUp_Ret:
  "ep_scaleUp update per rss = Ret sent \<Longrightarrow>
     sent = map (\<lambda>rs. ((Namespace rs, Name rs), int32_of per)) rss \<and> (\<forall>rs \<in> set rss. update (Namespace rs, Name rs) (int32_of per) = None)"
  by (induction rss arbitrary: sent) (auto simp: go_bind_eq_Ret split: option.splits)

lemma waitForReadyPods_True:
  "waitForReadyPods per listed = Ret True \<longleftrightarrow> (\<exists>items. listed = Inr items \<and> (\<forall>rs \<in> set items. rs_ReadyReplicas rs = int32_of per))"
  by (auto simp: waitForReadyPods_def list_all_iff split: sum.splits)

section \<open>The deployment breakdown\<close>

text \<open>
  The deployment breakdown, from the command line to the report, in both of its directories. Either it stops with the same error
  whatever its goroutines would do, or it has chosen its mode from the baseline, found at least one target, all
  of them managed as the mode asks, seen as many owned ReplicaSets as targets, and has a connected client. Then it sends one
  watch request in the client's epoch and one scale update to every target, both for the same number of replicas, and never
  panics; when it prints its report every goroutine has returned, and the report counts exactly the updates and the
  watches that succeeded.
\<close>

theorem deployment_program:
  assumes "dep_experiment R baseline selector nPods (Inr targets) polls unwraps evs = Some r" "length targets < 2 ^ 31"
  shows "as_experiment R baseline selector nPods (Inr targets) polls unwraps evs = Some r
    \<and> ((\<exists>m. r = Panic m \<and> (\<forall>evs'. dep_experiment R baseline selector nPods (Inr targets) polls unwraps evs' = Some (Panic m)))
      \<or> (\<exists>c t0 t. r = Ret t \<and> Some c \<in> set unwraps \<and> selector \<noteq> '''' \<and> baseline \<in> {''k8s'', ''kd''}
        \<and> targets \<noteq> [] \<and> list_all (\<lambda>dp. u_IsManaged R (Labels dp) \<longleftrightarrow> baseline = ''kd'') targets
        \<and> (\<exists>items. Inr items \<in> set polls \<and> length items = length targets \<and> list_all rs_Controlled items)
        \<and> trial_run evs t0 = Some (Ret t)
        \<and> fan_running (t_watch t0) = map (\<lambda>dp. \<lparr> dw_Source = kc_ID c, dw_Epoch = kc_Epoch c,
             dw_Target = (Namespace dp, Name dp), dw_Replicas = int32_of (nPodsPerTarget nPods (length targets)) \<rparr>) targets
        \<and> t_actions t0 = map (\<lambda>dp. ((Namespace dp, Name dp), int32_of (nPodsPerTarget nPods (length targets)))) targets
        \<and> (t_phase t = Finished \<longrightarrow> returned action_return evs = length targets \<and> returned watch_return evs = length targets
           \<and> (\<exists>e e' e''. t_out t = [TargetsScaled (int (succeeded action_return evs)) (length targets) e,
                RPCReturned (int (succeeded watch_return evs)) (length targets) e', Total (Microseconds e'')]))))"
proof (cases "as_main baseline selector")
  case (Panic m)
  then show ?thesis using assms(1) by (auto simp: dep_experiment_def as_experiment_def dep_main_def)
next
  case (Ret fallback)
  then have f: "selector \<noteq> ''''" "baseline \<in> {''k8s'', ''kd''}" "fallback = (baseline = ''k8s'')"
    by (auto simp: as_main_def fallback_baseline_def split: if_splits)
  let ?start = "with_client (\<lambda>t. True) (as_start R nPods fallback (Inr targets) polls) unwraps"
  have eq: "dep_experiment R baseline selector nPods (Inr targets) polls unwraps evs' =
      (case ?start of Some (Ret t) \<Rightarrow> trial_run evs' t | r \<Rightarrow> r)" for evs'
    by (simp add: dep_experiment_def dep_main_def Ret)
  have same: "as_experiment R baseline selector nPods (Inr targets) polls unwraps evs = Some r"
    using assms(1) by (simp add: eq as_experiment_def Ret)
  obtain q where q: "?start = Some q"
    using assms(1) by (auto simp: eq split: option.splits)
  show ?thesis
  proof (cases q)
    case (Panic m)
    then show ?thesis using assms(1) q same by (auto simp: eq)
  next
    case (Ret t0)
    then have run: "trial_run evs t0 = Some r"
      using assms(1) q by (simp add: eq)
    obtain c where c: "connect unwraps = Some c" "as_start R nPods fallback (Inr targets) polls c = Some (Ret t0)"
      using q Ret by (auto elim: with_client_Ret)
    note d = deployment_experiment [OF c(2) run assms(2)]
    then obtain t where t: "r = Ret t" by (elim conjE exE)
    have m: "list_all (\<lambda>dp. u_IsManaged R (Labels dp) \<longleftrightarrow> baseline = ''kd'') targets"
      using d f by (auto simp: list_all_iff)
    show ?thesis
      using d t f m connect_Some [OF c(1)] run same by (intro conjI disjI2 exI [of _ c] exI [of _ t0] exI [of _ t]) simp_all
  qed
qed

theorem deployment_program_witness:
  "\<exists>t. dep_experiment sample_kdrpc ''kd'' ''w'' 5 (Inr [one_deployment]) [Inr [], Inr [one_replicaset]] [None, Some one_client_bench] one_trial_events = Some (Ret t)
     \<and> (\<exists>e e' e''. t_out t = [TargetsScaled 1 1 e, RPCReturned 0 1 e', Total (Microseconds e'')])"
proof -
  have per: "nPodsPerTarget 5 (Suc 0) = 5" by (simp add: nPodsPerTarget_def signed_divide_int_def)
  obtain t where t: "dep_experiment sample_kdrpc ''kd'' ''w'' 5 (Inr [one_deployment]) [Inr [], Inr [one_replicaset]] [None, Some one_client_bench] one_trial_events
      = Some (Ret t)" "t_phase t = Finished"
    by (simp add: dep_experiment_def dep_main_def as_main_def fallback_baseline_def with_client_def as_start_def as_targets_def
        sample_kdrpc_def one_deployment_def one_replicaset_def label_def gm_get_def per waitForReplicaSets_def
        trial_start_def fan_start_def wg_Add_def Let_def one_trial_events_def fan_return_def wg_Done_def)
  have "length [one_deployment] < 2 ^ 31" by simp
  from deployment_program [OF t(1) this] show ?thesis
    using t by (auto simp: one_trial_events_def returned_def succeeded_def)
qed

section \<open>The endpoints breakdown\<close>

text \<open>What has to hold of the cluster before the endpoints breakdown sends its first watch request.\<close>

definition ep_ready ::
    "kdrpc_lib \<Rightarrow> bool \<Rightarrow> int \<Rightarrow> (NamespacedName \<Rightarrow> string + ReplicaSet) \<Rightarrow> (NamespacedName \<Rightarrow> int \<Rightarrow> string option)
       \<Rightarrow> (string + ReplicaSet list) list \<Rightarrow> Service list \<Rightarrow> bool" where
  "ep_ready R fallback replicas get update polls services \<longleftrightarrow> services \<noteq> []
     \<and> list_all (\<lambda>svc. label (Labels svc) ''app'' = Name svc \<and> (u_IsManaged R (Labels svc) \<longleftrightarrow> \<not> fallback)
         \<and> (case get (Namespace svc, Name svc) of Inl _ \<Rightarrow> False
            | Inr rs \<Rightarrow> label (Labels rs) ''app'' = Name rs \<and> (u_IsManaged R (Labels rs) \<longleftrightarrow> \<not> fallback)
                \<and> rs_SpecReplicas rs = Some 0 \<and> update (Namespace rs, Name rs) replicas = None)) services
     \<and> list_ex (\<lambda>ans. case ans of Inl _ \<Rightarrow> False | Inr items \<Rightarrow> list_all (\<lambda>rs. rs_ReadyReplicas rs = replicas) items) polls"

lemma ep_start_Ret:
  assumes "ep_start R selector nPods fallback (Inr services) get update polls c = Some (Ret t0)"
  shows "ep_ready R fallback (int32_of (nPodsPerTarget nPods (length services))) get update polls services
    \<and> trial_start (map (newEndpointsWatchRequest c) services) (map (ep_select selector) services) = Ret t0"
proof -
  let ?per = "nPodsPerTarget nPods (length services)"
  obtain rss where rss: "services \<noteq> []" "ep_replicaSets R fallback get services = Ret rss" "ep_targets R fallback get (Inr services) = Ret (services, rss)"
    using assms by (auto simp: ep_start_def ep_targets_def go_bind_eq_Ret split: go.splits if_splits)
  then obtain sent where sent: "ep_scaleUp update ?per rss = Ret sent"
    using assms by (auto simp: ep_start_def Let_def split: go.splits)
  obtain u where u: "poll (waitForReadyPods ?per) polls = Some u"
      "go_bind u (\<lambda>_. trial_start (map (newEndpointsWatchRequest c) services) (map (ep_select selector) services)) = Ret t0"
    using assms rss(3) sent by (auto simp: ep_start_def Let_def)
  then have p: "poll (waitForReadyPods ?per) polls = Some (Ret ())"
    and t0: "trial_start (map (newEndpointsWatchRequest c) services) (map (ep_select selector) services) = Ret t0"
    by (auto simp: go_bind_eq_Ret)
  have l: "list_all (\<lambda>svc. label (Labels svc) ''app'' = Name svc \<and> (u_IsManaged R (Labels svc) \<longleftrightarrow> \<not> fallback)
         \<and> (case get (Namespace svc, Name svc) of Inl _ \<Rightarrow> False
            | Inr rs \<Rightarrow> label (Labels rs) ''app'' = Name rs \<and> (u_IsManaged R (Labels rs) \<longleftrightarrow> \<not> fallback)
                \<and> rs_SpecReplicas rs = Some 0 \<and> update (Namespace rs, Name rs) (int32_of ?per) = None)) services"
    using ep_replicaSets_Ret [OF rss(2)] ep_scaleUp_Ret [OF sent]
    by (fastforce simp: list_all2_conv_all_nth list_all_length all_set_conv_all_nth)
  obtain items where "Inr items \<in> set polls" "list_all (\<lambda>rs. rs_ReadyReplicas rs = int32_of ?per) items"
    using poll_Ret [OF p] by (auto simp: waitForReadyPods_True list_all_iff)
  then have "list_ex (\<lambda>ans. case ans of Inl _ \<Rightarrow> False | Inr items \<Rightarrow> list_all (\<lambda>rs. rs_ReadyReplicas rs = int32_of ?per) items) polls"
    by (force simp: list_ex_iff)
  then show ?thesis
    using rss(1) l t0 by (simp add: ep_ready_def)
qed

text \<open>
  C28. The endpoints breakdown, from the command line to the report. Either it stops with the same error whatever
  its goroutines would do, or it has chosen its mode from the baseline, found at least one service, each with
  its ReplicaSet of the same name, managed as the mode asks and at first without replicas, has scaled every one of them and seen all
  of them ready, and has a connected client. Then it watches every service in the client's epoch and
  sets the selector of every service, and never panics; when it prints its report every goroutine has
  returned, and the report counts exactly the updates and the watches that succeeded.
\<close>

theorem endpoints_experiment:
  assumes "ep_experiment R baseline selector nPods (Inr services) get update polls unwraps evs = Some r" "length services < 2 ^ 31"
  shows "(\<exists>m. r = Panic m \<and> (\<forall>evs'. ep_experiment R baseline selector nPods (Inr services) get update polls unwraps evs' = Some (Panic m)))
    \<or> (\<exists>c t0 t. r = Ret t \<and> Some c \<in> set unwraps \<and> selector \<noteq> '''' \<and> baseline \<in> {''k8s'', ''kd''}
        \<and> ep_ready R (baseline = ''k8s'') (int32_of (nPodsPerTarget nPods (length services))) get update polls services
        \<and> trial_run evs t0 = Some (Ret t) \<and> t_actions t0 = map (ep_select selector) services
        \<and> fan_running (t_watch t0) = map (newEndpointsWatchRequest c) services
        \<and> (t_phase t = Finished \<longrightarrow> returned action_return evs = length services \<and> returned watch_return evs = length services
           \<and> (\<exists>e e' e''. t_out t = [TargetsScaled (int (succeeded action_return evs)) (length services) e,
                RPCReturned (int (succeeded watch_return evs)) (length services) e', Total (Microseconds e'')])))"
proof (cases "ep_main baseline selector")
  case (Panic m)
  then show ?thesis using assms(1) by (auto simp: ep_experiment_def)
next
  case (Ret fallback)
  then have f: "selector \<noteq> ''''" "baseline \<in> {''k8s'', ''kd''}" "fallback = (baseline = ''k8s'')"
    by (auto simp: ep_main_def fallback_baseline_def split: if_splits)
  let ?start = "with_client (\<lambda>t. True) (ep_start R selector nPods fallback (Inr services) get update polls) unwraps"
  have eq: "ep_experiment R baseline selector nPods (Inr services) get update polls unwraps evs' =
      (case ?start of Some (Ret t) \<Rightarrow> trial_run evs' t | r \<Rightarrow> r)" for evs'
    by (simp add: ep_experiment_def Ret)
  obtain q where q: "?start = Some q"
    using assms(1) by (auto simp: eq split: option.splits)
  show ?thesis
  proof (cases q)
    case (Panic m)
    then show ?thesis using assms(1) q by (auto simp: eq)
  next
    case (Ret t0)
    then have run: "trial_run evs t0 = Some r"
      using assms(1) q by (simp add: eq)
    obtain c where c: "connect unwraps = Some c" "ep_start R selector nPods fallback (Inr services) get update polls c = Some (Ret t0)"
      using q Ret by (auto elim: with_client_Ret)
    note s = ep_start_Ret [OF c(2)]
    from trial_report [OF run conjunct2 [OF s], of "length services"] assms(2)
    obtain t where t: "r = Ret t" "t_actions t0 = map (ep_select selector) services" "fan_running (t_watch t0) = map (newEndpointsWatchRequest c) services"
        "t_phase t = Finished \<longrightarrow> returned action_return evs = length services \<and> returned watch_return evs = length services
          \<and> (\<exists>e e' e''. t_out t = [TargetsScaled (int (succeeded action_return evs)) (length services) e,
               RPCReturned (int (succeeded watch_return evs)) (length services) e', Total (Microseconds e'')])"
      by auto
    show ?thesis
      using t f connect_Some [OF c(1)] run s by (intro disjI2 exI [of _ c] exI [of _ t0] exI [of _ t] conjI) simp_all
  qed
qed

definition one_service :: Service where
  "one_service = \<lparr> Namespace = ''default'', Name = ''f'', Labels = [(''app'', ''f''), (''managed'', ''y'')], svc_Selector = [] \<rparr>"

definition service_replicaset :: ReplicaSet where
  "service_replicaset = one_replicaset\<lparr> Name := ''f'', Labels := [(''app'', ''f''), (''managed'', ''y'')] \<rparr>"

theorem endpoints_experiment_witness:
  "\<exists>t. ep_experiment sample_kdrpc ''kd'' ''w'' 5 (Inr [one_service]) (\<lambda>_. Inr service_replicaset) (\<lambda>_ _. None)
         [Inr [service_replicaset], Inr [service_replicaset\<lparr> rs_ReadyReplicas := 5 \<rparr>]] [None, Some one_client_bench] one_trial_events = Some (Ret t)
     \<and> (\<exists>e e' e''. t_out t = [TargetsScaled 1 1 e, RPCReturned 0 1 e', Total (Microseconds e'')])"
proof -
  have per: "nPodsPerTarget 5 (Suc 0) = 5" by (simp add: nPodsPerTarget_def signed_divide_int_def)
  obtain t where t: "ep_experiment sample_kdrpc ''kd'' ''w'' 5 (Inr [one_service]) (\<lambda>_. Inr service_replicaset) (\<lambda>_ _. None)
         [Inr [service_replicaset], Inr [service_replicaset\<lparr> rs_ReadyReplicas := 5 \<rparr>]] [None, Some one_client_bench] one_trial_events = Some (Ret t)"
       "t_phase t = Finished"
    by (simp add: ep_experiment_def ep_main_def fallback_baseline_def with_client_def ep_start_def ep_targets_def checkMetadata_def
        sample_kdrpc_def one_service_def service_replicaset_def one_replicaset_def label_def gm_get_def per waitForReadyPods_def
        trial_start_def fan_start_def wg_Add_def Let_def one_trial_events_def fan_return_def wg_Done_def)
  have "length [one_service] < 2 ^ 31" by simp
  from endpoints_experiment [OF t(1) this] show ?thesis
    using t by (auto simp: one_trial_events_def returned_def succeeded_def)
qed

section \<open>The ReplicaSet breakdown\<close>

lemma fan_run_at:
  assumes "fan_run evs f = Some r" "fan_at n m k f"
  shows "\<exists>f'. r = Ret f' \<and> fan_at n (m + length evs) (k + length (filter (\<lambda>(i, err). err = None) evs)) f'"
  using assms
proof (induction evs f arbitrary: m k rule: fan_run.induct)
  case (2 i err evs f)
  obtain q where q: "fan_return i err f = Some q"
    using "2.prems"(1) by (auto split: option.splits)
  obtain f1 where f1: "q = Ret f1" "fan_at n (Suc m) (if err = None then Suc k else k) f1"
    using fan_return_at [OF q "2.prems"(2)] by blast
  have "fan_run evs f1 = Some r"
    using "2.prems"(1) q f1(1) by simp
  from "2.IH" [OF q f1(1) this f1(2)] show ?case
    by (cases err) simp_all
qed auto

lemma rs_targets_Ret:
  "rs_targets R fallback listed = Ret targets \<longleftrightarrow> listed = Inr targets \<and> targets \<noteq> []
     \<and> (\<forall>rs \<in> set targets. u_IsManaged R (Labels rs) \<and> (u_IsFallbackScaling R (Labels rs) \<longleftrightarrow> fallback))"
  by (auto simp: rs_targets_def go_bind_eq_Ret check_all_Ret split: sum.splits if_splits)

lemma rs_requests_Ret:
  "rs_requests NewRequest c per targets = Ret reqs \<Longrightarrow>
     reqs = map (\<lambda>rs. (NewRequest c (rs\<lparr> rs_SpecReplicas := Some (int32_of per) \<rparr>))\<lparr> sr_Blocking := True \<rparr>) targets"
  by (induction targets arbitrary: reqs) (auto simp: go_bind_eq_Ret split: option.splits)

text \<open>
  The ReplicaSet breakdown, from the command line to the report: a printed report means that the program had
  a connected client and a non-empty list of managed targets whose fallback label agrees with the baseline, that it sent one blocking
  request with the wanted number of replicas for each of them, and that all requests have
  returned; the report counts exactly those that succeeded. A cancelled program prints nothing.
\<close>

theorem replicaset_experiment:
  assumes "rs_experiment R NewRequest baseline selector nPods (Inr targets) unwraps evs cancelled e e' = Some (Ret out)" "length targets < 2 ^ 31"
  shows "selector \<noteq> '''' \<and> baseline \<in> {''k8s'', ''kd''} \<and> targets \<noteq> []
    \<and> (\<forall>rs \<in> set targets. u_IsManaged R (Labels rs) \<and> (u_IsFallbackScaling R (Labels rs) \<longleftrightarrow> baseline = ''k8s''))
    \<and> length evs = length targets
    \<and> (\<exists>c f. Some c \<in> set unwraps \<and> rs_start R NewRequest nPods (baseline = ''k8s'') (Inr targets) c = Ret f
         \<and> fan_running f = map (\<lambda>rs. (NewRequest c (rs\<lparr> rs_SpecReplicas := Some (int32_of (nPodsPerTarget nPods (length targets))) \<rparr>))\<lparr> sr_Blocking := True \<rparr>) targets)
    \<and> out = (if cancelled then [] else
         [RPCReturned (int (length (filter (\<lambda>(i, err). err = None) evs))) (length targets) e, Total (Microseconds e')])"
proof -
  obtain fallback where m: "rs_main baseline selector = Ret fallback"
    using assms(1) by (cases "rs_main baseline selector") (auto simp: rs_experiment_def)
  then have f: "selector \<noteq> ''''" "baseline \<in> {''k8s'', ''kd''}" "fallback = (baseline = ''k8s'')"
    by (auto simp: rs_main_def fallback_baseline_def split: if_splits)
  let ?start = "with_client (\<lambda>f. True) (\<lambda>c. Some (rs_start R NewRequest nPods fallback (Inr targets) c)) unwraps"
  obtain f0 f1 where f0: "?start = Some (Ret f0)" "fan_run evs f0 = Some (Ret f1)" "rs_finish (length (fan_running f0)) cancelled e e' f1 = Some out"
    using assms(1) m by (auto simp: rs_experiment_def split: option.splits go.splits)
  obtain c where c: "connect unwraps = Some c" "rs_start R NewRequest nPods fallback (Inr targets) c = Ret f0"
    using f0(1) by (auto elim: with_client_Ret)
  let ?reqs = "map (\<lambda>rs. (NewRequest c (rs\<lparr> rs_SpecReplicas := Some (int32_of (nPodsPerTarget nPods (length targets))) \<rparr>))\<lparr> sr_Blocking := True \<rparr>) targets"
  have sel: "targets \<noteq> []" "\<forall>rs \<in> set targets. u_IsManaged R (Labels rs) \<and> (u_IsFallbackScaling R (Labels rs) \<longleftrightarrow> fallback)"
    and s: "fan_start ?reqs = Ret f0"
    using c(2) by (auto simp: rs_start_def go_bind_eq_Ret rs_targets_Ret dest!: rs_requests_Ret)
  have at: "fan_at (length targets) 0 0 f0" "fan_running f0 = ?reqs"
    using fan_start_at [of ?reqs] assms(2) s by auto
  have fin: "fan_at (length targets) (length evs) (length (filter (\<lambda>(i, err). err = None) evs)) f1"
    using fan_run_at [OF f0(2) at(1)] by simp
  have wg: "fan_wg f1 = 0" and out: "out = (if cancelled then [] else [RPCReturned (fan_ok f1) (length targets) e, Total (Microseconds e')])"
    using f0(3) at(2) by (auto simp: rs_finish_def split: if_splits)
  show ?thesis
    using f sel fan_at_done [OF fin wg] fan_at_ok [OF fin] out c connect_Some [OF c(1)] at(2)
    by (intro conjI exI [of _ c] exI [of _ f0]) simp_all
qed

theorem replicaset_experiment_witness:
  "let one = one_replicaset\<lparr> Labels := [(''managed'', ''y'')] \<rparr> in
   rs_experiment sample_kdrpc (\<lambda>c rs. \<lparr> sr_Blocking = False, \<dots> = (kc_Epoch c, rs_SpecReplicas rs) \<rparr>) ''kd'' ''w'' 5 (Inr [one, one]) [Some one_client_bench]
     [(1, None), (0, Some ''unavailable'')] False 7 9000 = Some (Ret [RPCReturned 1 2 7, Total 9])"
proof -
  let ?one = "one_replicaset\<lparr> Labels := [(''managed'', ''y'')] \<rparr>"
  have per: "nPodsPerTarget 5 (Suc (Suc 0)) = 2" by (simp add: nPodsPerTarget_def signed_divide_int_def)
  obtain out where o: "rs_experiment sample_kdrpc (\<lambda>c rs. \<lparr> sr_Blocking = False, \<dots> = (kc_Epoch c, rs_SpecReplicas rs) \<rparr>) ''kd'' ''w'' 5 (Inr [?one, ?one])
      [Some one_client_bench] [(1, None), (0, Some ''unavailable'')] False 7 9000 = Some (Ret out)"
    by (simp add: rs_experiment_def rs_main_def fallback_baseline_def with_client_def rs_start_def rs_targets_def sample_kdrpc_def
        one_replicaset_def label_def gm_get_def per fan_start_def wg_Add_def fan_return_def wg_Done_def rs_finish_def)
  have "length [?one, ?one] < 2 ^ 31" by simp
  from replicaset_experiment [OF o this] have "out = [RPCReturned 1 2 7, Total (Microseconds 9000)]"
    by simp
  then show ?thesis using o by (simp add: Microseconds_def Microsecond_def signed_divide_int_def)
qed

section \<open>The scheduler breakdown\<close>

text \<open>
  A scheduler breakdown that ends has a connected client and a template pod of its target whose fallback label agrees with the
  baseline; it has sent one blocking request for all pods, and reports exactly when this request succeeded.
\<close>

lemma scheduler_report:
  assumes "sched_experiment R NewRequest baseline target nPods (Inr pod) unwraps SchedulePods e e' = Some (Ret (req, out))"
  shows "(\<exists>c. Some c \<in> set unwraps \<and> req = (NewRequest c (Namespace pod, target) nPods)\<lparr> sr_Blocking := True \<rparr>)
    \<and> label (Labels pod) (u_OwnerNameLabel R) = target \<and> (u_IsFallbackBinding R (Labels pod) \<longleftrightarrow> baseline = ''k8s'')
    \<and> out = (if SchedulePods req = None then [RPCReturnedIn e, Total (Microseconds e')] else [])"
proof -
  obtain fallback where f: "sched_main baseline target = Ret fallback"
    using assms by (cases "sched_main baseline target") (auto simp: sched_experiment_def)
  then have b: "fallback \<longleftrightarrow> baseline = ''k8s''"
    by (auto simp: sched_main_def fallback_baseline_def split: if_splits)
  obtain c where c: "connect unwraps = Some c" "sched_run R NewRequest target nPods fallback (Inr pod) c SchedulePods e e' = Ret (req, out)"
    using assms f by (auto simp: sched_experiment_def elim: with_client_Ret)
  then show ?thesis
    using connect_Some [OF c(1)] b
    by (auto simp: sched_run_def sched_template_def template_pod_def Let_def split: if_splits option.splits)
qed

section \<open>The kubelet breakdown\<close>

text \<open>What the events of a trial say: the pod events, the binding calls that have returned and those that succeeded.\<close>

fun pod_evs :: "bench_event list \<Rightarrow> (gotime \<times> pod_event) list" where
  "pod_evs [] = []"
| "pod_evs (PodEvent now ev # evs) = (now, ev) # pod_evs evs"
| "pod_evs (_ # evs) = pod_evs evs"

fun call_returns :: "bench_event list \<Rightarrow> bool list" where
  "call_returns [] = []"
| "call_returns (CallReturns i ok # evs) = ok # call_returns evs"
| "call_returns (_ # evs) = call_returns evs"

lemma pod_evs_append: "pod_evs (xs @ ys) = pod_evs xs @ pod_evs ys"
  by (induction xs rule: pod_evs.induct) simp_all

lemma call_returns_append: "call_returns (xs @ ys) = call_returns xs @ call_returns ys"
  by (induction xs rule: call_returns.induct) simp_all

lemmas trial_evs_append [simp] = pod_evs_append call_returns_append

lemma kb_events_snoc: "kb_events L (evs @ [(now, ev)]) m = go_bind (kb_events L evs m) (kb_event L now ev)"
proof (induction evs arbitrary: m)
  case Nil
  then show ?case by (cases "kb_event L now ev m") simp_all
next
  case (Cons e evs)
  then show ?case by (cases e; cases "kb_event L (fst e) (snd e) m") simp_all
qed

lemma percentile_since_Ret: "\<exists>d. percentile_since ts start = Ret d"
  using percentile_since_rank [of ts start] by (cases "ts = []") (auto simp: percentile_since_def)

definition kb_trial_inv :: "bench_lib \<Rightarrow> string \<Rightarrow> int \<Rightarrow> benchPodInfo list \<Rightarrow> bench_event list \<Rightarrow> 'r kb_trial \<Rightarrow> bool" where
  "kb_trial_inv L owner n infos evs t \<longleftrightarrow> kt_nPods t = n
     \<and> kb_events L (pod_evs evs) (kb_Watch n infos (kb_NewPodMonitor owner)) = Ret (kt_monitor t)
     \<and> length (kt_binding t) + length (call_returns evs) = length infos
     \<and> kt_nBound t = int (length (filter id (call_returns evs)))
     \<and> (kt_out t = [] \<or> ex_wg (mon_expectation (kt_monitor t)) = Some 0
          \<and> (\<exists>start latency. kb_Since start (kt_monitor t) = Ret latency
               \<and> kt_out t = [RPCReturned (kt_nBound t) (nat n) latency, Total (Microseconds latency)]) \<and> kt_ended t)"

lemma kb_trial_inv_step:
  assumes "newPodInfos ns owner node n ts nano = Ret infos" "n < 2 ^ 31" "list_all (\<lambda>(t, _). \<not> IsZero t) (pod_evs (evs @ [ev]))"
    and "kb_trial_inv L owner n infos evs t" "kb_trial_step L ev t = Some r"
  shows "\<exists>t'. r = Ret t' \<and> kb_trial_inv L owner n infos (evs @ [ev]) t'"
proof (cases ev)
  case (CallReturns i ok)
  then have r: "r = Ret (t\<lparr> kt_binding := take i (kt_binding t) @ drop (Suc i) (kt_binding t),
      kt_nBound := (if ok then int32_of (kt_nBound t + 1) else kt_nBound t) \<rparr>)" "i < length (kt_binding t)" "\<not> kt_ended t"
    using assms(5) by (auto split: if_splits)
  have a: "length (kt_binding t) + length (call_returns evs) = length infos" "kt_nBound t = int (length (filter id (call_returns evs)))"
    using assms(4) by (simp_all add: kb_trial_inv_def)
  have "length (filter id (call_returns evs)) < length infos"
    using a(1) r(2) length_filter_le [of id "call_returns evs"] by linarith
  then have "int32_of (kt_nBound t + 1) = kt_nBound t + 1"
    using assms(2) a(2) newPodInfos_Ret(1,2) [OF assms(1)] by (intro int32_of_id) linarith+
  then show ?thesis
    using assms(4) r CallReturns by (auto simp: kb_trial_inv_def)
next
  case (PodEvent now e)
  then have r: "r = go_bind (kb_event L now e (kt_monitor t)) (\<lambda>m. Ret (t\<lparr> kt_monitor := m \<rparr>))" "\<not> kt_ended t"
    using assms(5) by (auto split: if_splits)
  obtain m where "kb_events L (pod_evs (evs @ [ev])) (kb_Watch n infos (kb_NewPodMonitor owner)) = Ret m"
    using kubelet_monitor_exact [OF assms(1-3)] by blast
  moreover from this have "kb_event L now e (kt_monitor t) = Ret m"
    using assms(4) by (simp add: PodEvent kb_events_snoc kb_trial_inv_def)
  ultimately show ?thesis
    using assms(4) r by (auto simp: kb_trial_inv_def PodEvent)
next
  case (WaitPods cancelled start)
  then have w: "ex_wg (mon_expectation (kt_monitor t)) = Some 0" "\<not> kt_ended t"
    using assms(5) by (auto split: if_splits)
  obtain latency where "kb_Since start (kt_monitor t) = Ret latency"
    using percentile_since_Ret by (auto simp: kb_Since_def)
  then show ?thesis
    using assms(4,5) w by (auto simp: kb_trial_inv_def WaitPods)
qed

lemma kb_trial_inv_run:
  assumes "newPodInfos ns owner node n ts nano = Ret infos" "n < 2 ^ 31"
  shows "kb_trial_run L evs t = Some r \<Longrightarrow> list_all (\<lambda>(t, _). \<not> IsZero t) (pod_evs (past @ evs)) \<Longrightarrow> kb_trial_inv L owner n infos past t
    \<Longrightarrow> \<exists>t'. r = Ret t' \<and> kb_trial_inv L owner n infos (past @ evs) t'"
proof (induction evs arbitrary: past t)
  case (Cons ev evs)
  obtain q where q: "kb_trial_step L ev t = Some q"
    using Cons.prems(1) by (auto split: option.splits)
  have p: "list_all (\<lambda>(t, _). \<not> IsZero t) (pod_evs (past @ [ev]))"
    using Cons.prems(2) pod_evs_append [of "[ev]" evs] by simp
  obtain t1 where t1: "q = Ret t1" "kb_trial_inv L owner n infos (past @ [ev]) t1"
    using kb_trial_inv_step [OF assms p Cons.prems(3) q] by blast
  have "kb_trial_run L evs t1 = Some r"
    using Cons.prems(1) q t1(1) by simp
  from Cons.IH [OF this _ t1(2)] show ?case
    using Cons.prems(2) by simp
qed auto

lemma kb_start_Ret:
  assumes "kb_start R RequestForBinding node target n useDefaultKubelet got ts nano c (kb_NewPodMonitor target) = Ret t" "n < 2 ^ 31"
  shows "\<exists>pod infos. got = Inr pod \<and> u_IsTemplatePod R (Labels pod) \<and> label (Labels pod) (u_OwnerNameLabel R) = target
    \<and> (useDefaultKubelet \<longleftrightarrow> u_IsKubeletResponsibleFor R (Labels pod))
    \<and> newPodInfos (Namespace pod) target node n ts nano = Ret infos
    \<and> kt_binding t = newBindingRequests RequestForBinding c infos \<and> kb_trial_inv L target n infos [] t"
proof -
  obtain pod infos where s: "kb_template R target useDefaultKubelet got = Ret pod" "newPodInfos (Namespace pod) target node n ts nano = Ret infos"
      "go_bind (wg_Add 0 (int (length (newBindingRequests RequestForBinding c infos)))) (\<lambda>wg.
         Ret \<lparr> kt_monitor = kb_Watch wg infos (kb_NewPodMonitor target), kt_nPods = n, kt_binding = newBindingRequests RequestForBinding c infos,
           kt_nBound = 0, kt_out = [], kt_ended = False \<rparr>) = Ret t"
    using assms(1) by (auto simp: kb_start_def go_bind_eq_Ret Let_def)
  have len: "length (newBindingRequests RequestForBinding c infos) = length infos" "int (length infos) = n" "0 \<le> n"
    using newPodInfos_Ret(1,2) [OF s(2)] by (simp_all add: newBindingRequests_def)
  then have t: "t = \<lparr> kt_monitor = kb_Watch n infos (kb_NewPodMonitor target), kt_nPods = n, kt_binding = newBindingRequests RequestForBinding c infos,
       kt_nBound = 0, kt_out = [], kt_ended = False \<rparr>"
    using s(3) assms(2) by (simp add: wg_Add_exact)
  show ?thesis
    using s(1,2) t len by (auto simp: kb_template_def template_pod_def kb_trial_inv_def split: sum.splits if_splits)
qed

lemma kb_trial_report:
  assumes "newPodInfos ns owner node n ts nano = Ret infos" "n < 2 ^ 31" "list_all (\<lambda>(t, _). \<not> IsZero t) (pod_evs evs)"
    and "kb_trial_inv L owner n infos evs t"
  shows "kt_nBound t = int (length (filter id (call_returns evs)))" "kt_nBound t \<le> n"
    "kt_out t \<noteq> [] \<longrightarrow> list_all (\<lambda>i. first_report (kb_counted L owner) (pod_evs evs) (infoKey i) \<noteq> None) infos
       \<and> (\<exists>start latency. kt_out t = [RPCReturned (kt_nBound t) (nat n) latency, Total (Microseconds latency)]
            \<and> percentile_since (map (\<lambda>i. seen_or_zero (first_report (kb_counted L owner) (pod_evs evs) (infoKey i))) infos) start = Ret latency)"
proof -
  from kubelet_monitor_exact [OF assms(1-3), where L = L] assms(4)
  have mon: "ex_wg (mon_expectation (kt_monitor t)) = Some (int (length (filter (\<lambda>i. first_report (kb_counted L owner) (pod_evs evs) (infoKey i) = None) infos)))"
      "\<And>start. kb_Since start (kt_monitor t) = percentile_since (map (\<lambda>i. seen_or_zero (first_report (kb_counted L owner) (pod_evs evs) (infoKey i))) infos) start"
    by (auto simp: kb_trial_inv_def)
  show "kt_nBound t = int (length (filter id (call_returns evs)))" "kt_nBound t \<le> n"
    using assms(4) newPodInfos_Ret(1,2) [OF assms(1)] length_filter_le [of id "call_returns evs"] unfolding kb_trial_inv_def by linarith+
  show "kt_out t \<noteq> [] \<longrightarrow> list_all (\<lambda>i. first_report (kb_counted L owner) (pod_evs evs) (infoKey i) \<noteq> None) infos
       \<and> (\<exists>start latency. kt_out t = [RPCReturned (kt_nBound t) (nat n) latency, Total (Microseconds latency)]
            \<and> percentile_since (map (\<lambda>i. seen_or_zero (first_report (kb_counted L owner) (pod_evs evs) (infoKey i))) infos) start = Ret latency)"
    using assms(4) mon by (auto simp: kb_trial_inv_def filter_empty_conv list_all_iff)
qed

text \<open>
  C24. The kubelet breakdown, from the command line to the report. Either it stops with the same error whatever happens
  later, or its monitor is installed, the template pod agrees with the target and with the kind of kubelet
  of the baseline, and there is one binding request for each of the pods, made with a connected client if there is any.
  Then, in any sequence of pod events and returning calls, it never panics, and when it prints its report every bound pod has
  had a ready or deletion event; the report counts exactly the binding calls that had succeeded, at most all, and its latency is
  the percentile of the times of the first events.
\<close>

theorem kubelet_breakdown_report:
  assumes "kb_experiment R L RequestForBinding baseline target node n monitorErr cacheSynced got ts nano unwraps evs = Some r"
    and "n < 2 ^ 31" "list_all (\<lambda>(t, _). \<not> IsZero t) (pod_evs evs)"
  shows "(\<exists>m. r = Panic m \<and> (\<forall>evs'. kb_experiment R L RequestForBinding baseline target node n monitorErr cacheSynced got ts nano unwraps evs' = Some (Panic m)))
    \<or> (\<exists>t pod infos. r = Ret t \<and> got = Inr pod \<and> monitorErr = None \<and> cacheSynced \<and> target \<noteq> '''' \<and> node \<noteq> '''' \<and> baseline \<in> {''kubelet'', ''custom''}
        \<and> u_IsTemplatePod R (Labels pod) \<and> label (Labels pod) (u_OwnerNameLabel R) = target
        \<and> (u_IsKubeletResponsibleFor R (Labels pod) \<longleftrightarrow> baseline = ''kubelet'')
        \<and> newPodInfos (Namespace pod) target node n ts nano = Ret infos \<and> (n = 0 \<or> (\<exists>c. Some c \<in> set unwraps))
        \<and> kt_nBound t = int (length (filter id (call_returns evs))) \<and> kt_nBound t \<le> n
        \<and> (kt_out t \<noteq> [] \<longrightarrow>
             list_all (\<lambda>i. first_report (kb_counted L target) (pod_evs evs) (infoKey i) \<noteq> None) infos
             \<and> (\<exists>start latency. kt_out t = [RPCReturned (kt_nBound t) (nat n) latency, Total (Microseconds latency)]
                  \<and> percentile_since (map (\<lambda>i. seen_or_zero (first_report (kb_counted L target) (pod_evs evs) (infoKey i))) infos) start = Ret latency)))"
proof (cases "kb_main baseline target node")
  case (Panic m)
  then show ?thesis using assms(1) by (auto simp: kb_experiment_def)
next
  case (Ret useDefaultKubelet)
  then have f: "target \<noteq> ''''" "node \<noteq> ''''" "baseline \<in> {''kubelet'', ''custom''}" "useDefaultKubelet \<longleftrightarrow> baseline = ''kubelet''"
    by (auto simp: kb_main_def split: if_splits)
  let ?prog = "\<lambda>c. Some (kb_start R RequestForBinding node target n useDefaultKubelet got ts nano c (kb_NewPodMonitor target))"
  let ?start = "with_client (\<lambda>t. kt_binding t \<noteq> []) ?prog unwraps"
  show ?thesis
  proof (cases "monitorErr = None \<and> cacheSynced")
    case False
    then show ?thesis using assms(1) Ret by (auto simp: kb_experiment_def split: option.splits)
  next
    case True
    have eq: "kb_experiment R L RequestForBinding baseline target node n monitorErr cacheSynced got ts nano unwraps evs' =
        (case ?start of Some (Ret t) \<Rightarrow> kb_trial_run L evs' t | r \<Rightarrow> r)" for evs'
      using True Ret by (simp add: kb_experiment_def)
    obtain q where q: "?start = Some q"
      using assms(1) by (auto simp: eq split: option.splits)
    show ?thesis
    proof (cases q)
      case (Panic m)
      then show ?thesis using assms(1) q by (auto simp: eq)
    next
      case (Ret t0)
      then have run: "kb_trial_run L evs t0 = Some r"
        using assms(1) q by (simp add: eq)
      obtain c where c: "?prog c = Some (Ret t0)" "(\<exists>c. Some c \<in> set unwraps) \<or> kt_binding t0 = []"
        using q Ret connect_Some [of unwraps] by (auto simp: with_client_def split: option.splits go.splits if_splits)
      then obtain pod infos where s: "got = Inr pod" "u_IsTemplatePod R (Labels pod)" "label (Labels pod) (u_OwnerNameLabel R) = target"
          "useDefaultKubelet \<longleftrightarrow> u_IsKubeletResponsibleFor R (Labels pod)" "newPodInfos (Namespace pod) target node n ts nano = Ret infos"
          "kt_binding t0 = newBindingRequests RequestForBinding c infos" "kb_trial_inv L target n infos [] t0"
        using kb_start_Ret [OF _ assms(2), of R RequestForBinding node target useDefaultKubelet got ts nano c t0 L] by auto
      obtain t where t: "r = Ret t" "kb_trial_inv L target n infos evs t"
        using kb_trial_inv_run [OF s(5) assms(2) run _ s(7)] assms(3) by auto
      note rep = kb_trial_report [OF s(5) assms(2,3) t(2)]
      have conn: "n = 0 \<or> (\<exists>c. Some c \<in> set unwraps)"
        using c(2) s(6) newPodInfos_Ret(1,2) [OF s(5)] by (auto simp: newBindingRequests_def)
      have kr: "u_IsKubeletResponsibleFor R (Labels pod) \<longleftrightarrow> baseline = ''kubelet''"
        using s(4) f(4) by simp
      show ?thesis
        by (rule disjI2, intro exI [of _ t] exI [of _ pod] exI [of _ infos] conjI t(1) s f(1-3) kr conn rep True [THEN conjunct1] True [THEN conjunct2])
    qed
  qed
qed

definition two_pod_events :: "bench_event list" where
  "two_pod_events = [CallReturns 1 True, PodEvent 5 (CreateEvent (bench_pod ''f-7-1'')), PodEvent 6 (CreateEvent (bench_pod ''f-7-0'')), WaitPods False 3]"

theorem kubelet_breakdown_report_witness:
  "\<exists>t latency. kb_experiment sample_kdrpc sample_bench_lib bench_request ''custom'' ''f'' ''n1'' 2 None True (Inr (bench_pod ''f-template'')) 1 7
        [None, Some one_client_bench] two_pod_events = Some (Ret t)
     \<and> kt_out t = [RPCReturned 1 2 latency, Total (Microseconds latency)]"
proof -
  have tmpl: "kb_template sample_kdrpc ''f'' False (Inr (bench_pod ''f-template'')) = Ret (bench_pod ''f-template'')" "Namespace (bench_pod ''f-template'') = ''default''"
    by (simp_all add: kb_template_def template_pod_def sample_kdrpc_def bench_pod_def label_def gm_get_def)
  let ?e = "\<lparr> ex_wg = Some 2, desired = [(''default/f-7-0'', zeroTime), (''default/f-7-1'', zeroTime)] \<rparr>"
  let ?t0 = "\<lparr> kt_monitor = \<lparr> mon_ownerName = ''f'', mon_expectation = ?e \<rparr>, kt_nPods = 2,
      kt_binding = newBindingRequests bench_request one_client_bench two_infos, kt_nBound = 0, kt_out = [], kt_ended = False \<rparr>"
  have w: "kb_Watch 2 two_infos (kb_NewPodMonitor ''f'') = \<lparr> mon_ownerName = ''f'', mon_expectation = ?e \<rparr>"
    by (simp add: kb_Watch_def kb_NewPodMonitor_def kb_Expectation_Watch_def kb_NewExpectation_def two_infos_def infoKey_def gm_set_def)
  have l: "length (newBindingRequests bench_request one_client_bench two_infos) = 2"
    by (simp add: newBindingRequests_def two_infos_def)
  have s: "kb_start sample_kdrpc bench_request ''n1'' ''f'' 2 False (Inr (bench_pod ''f-template'')) 1 7 one_client_bench (kb_NewPodMonitor ''f'') = Ret ?t0"
    by (simp add: kb_start_def tmpl two_infos l wg_Add_def w Let_def)
  have ev: "kb_event sample_bench_lib now (CreateEvent (bench_pod name)) \<lparr> mon_ownerName = ''f'', mon_expectation = e \<rparr>
      = go_bind (kb_Done_key now (''default/'' @ name) e) (\<lambda>(_, e'). Ret \<lparr> mon_ownerName = ''f'', mon_expectation = e' \<rparr>)" for now name e
    by (simp add: kb_event_def sample_bench_lib_def bench_pod_def kb_FilterEvent_def label_def gm_get_def kb_HandlePodEvent_def kb_Done_on_def
        kb_Done_def podKey_def)
  obtain t where t: "kb_trial_run sample_bench_lib two_pod_events ?t0 = Some (Ret t)" "kt_out t \<noteq> []"
    by (simp add: two_pod_events_def l ev kb_Done_key_def gm_get_def gm_set_def IsZero_def zeroTime_def wg_Done_def wg_Add_def kb_Since_def
        percentile_since_def time_Sub_def)
  have x: "kb_experiment sample_kdrpc sample_bench_lib bench_request ''custom'' ''f'' ''n1'' 2 None True (Inr (bench_pod ''f-template'')) 1 7
        [None, Some one_client_bench] two_pod_events = Some (Ret t)"
    by (simp add: kb_experiment_def kb_main_def with_client_def s t(1))
  have a: "(2 :: int) < 2 ^ 31" "list_all (\<lambda>(t, _). \<not> IsZero t) (pod_evs two_pod_events)"
    by (simp_all add: two_pod_events_def IsZero_def)
  from kubelet_breakdown_report [OF x a] show ?thesis
    using t(2) x by (auto simp: two_pod_events_def)
qed

section \<open>The end-to-end experiment\<close>

lemma e2e_events_append: "e2e_events L S (xs @ ys) st = go_bind (e2e_events L S xs st) (e2e_events L S ys)"
proof (induction xs arbitrary: st)
  case (Cons e xs)
  then show ?case by (cases e; cases "e2e_event L S (fst e) (snd e) st") simp_all
qed simp

definition e2e_trial_inv :: "bench_lib \<Rightarrow> ('m, nat) sharedMap \<Rightarrow> 'm e2e_state \<Rightarrow> nat \<Rightarrow> bench_event list \<Rightarrow> 'm e2e_trial \<Rightarrow> bool" where
  "e2e_trial_inv L S st n evs t \<longleftrightarrow> et_targets t = n \<and> n < 2 ^ 31
     \<and> e2e_events L S (pod_evs evs) st = Ret (et_state t)
     \<and> length (et_scaling t) + length (call_returns evs) = n
     \<and> et_nScaled t = int (length (filter id (call_returns evs)))
     \<and> (et_out t = [] \<or> et_ended t \<and> e_wg (et_state t) = 0
          \<and> (\<exists>start latency. e2e_Since S start (et_state t) = Ret latency
               \<and> et_out t = [TargetsScaled (et_nScaled t) n latency, Total (Microseconds latency)]))"

lemma e2e_trial_inv_step:
  assumes "e2e_trial_inv L S st n evs t" "e2e_trial_step L S ev t = Some r"
  shows "(\<exists>t'. r = Ret t' \<and> e2e_trial_inv L S st n (evs @ [ev]) t') \<or> panics r \<and> panics (e2e_events L S (pod_evs (evs @ [ev])) st)"
proof (cases ev)
  case (CallReturns i ok)
  then have r: "r = Ret (t\<lparr> et_scaling := take i (et_scaling t) @ drop (Suc i) (et_scaling t),
      et_nScaled := (if ok then int32_of (et_nScaled t + 1) else et_nScaled t) \<rparr>)" "i < length (et_scaling t)" "\<not> et_ended t"
    using assms(2) by (auto split: if_splits)
  have a: "length (et_scaling t) + length (call_returns evs) = n" "n < 2 ^ 31" "et_nScaled t = int (length (filter id (call_returns evs)))"
    using assms(1) by (simp_all add: e2e_trial_inv_def)
  then have "length (filter id (call_returns evs)) < n"
    using r(2) length_filter_le [of id "call_returns evs"] by linarith
  then have "int32_of (et_nScaled t + 1) = et_nScaled t + 1"
    using a by (intro int32_of_id) simp_all
  then show ?thesis
    using assms(1) r CallReturns by (intro disjI1) (auto simp: e2e_trial_inv_def)
next
  case (PodEvent now e)
  then have r: "r = go_bind (e2e_event L S now e (et_state t)) (\<lambda>st. Ret (t\<lparr> et_state := st \<rparr>))" "\<not> et_ended t"
    using assms(2) by (auto split: if_splits)
  show ?thesis
    using assms(1) r by (cases "e2e_event L S now e (et_state t)") (auto simp: e2e_trial_inv_def PodEvent e2e_events_append)
next
  case (WaitPods cancelled start)
  then have w: "e_wg (et_state t) = 0" "\<not> et_ended t"
    using assms(2) by (auto simp: e2e_finish_def split: if_splits)
  obtain latency where "e2e_Since S start (et_state t) = Ret latency"
    using percentile_since_Ret by (auto simp: e2e_Since_def)
  then show ?thesis
    using assms w by (intro disjI1) (auto simp: e2e_trial_inv_def WaitPods e2e_finish_def split: if_splits)
qed

lemma e2e_trial_inv_run:
  assumes "e2e_trial_run L S evs t = Some r" "e2e_trial_inv L S st n past t"
  shows "(\<exists>t'. r = Ret t' \<and> e2e_trial_inv L S st n (past @ evs) t') \<or> panics r \<and> panics (e2e_events L S (pod_evs (past @ evs)) st)"
  using assms
proof (induction evs arbitrary: past t)
  case (Cons ev evs)
  obtain q where q: "e2e_trial_step L S ev t = Some q"
    using Cons.prems(1) by (auto split: option.splits)
  consider (ret) t' where "q = Ret t'" "e2e_trial_inv L S st n (past @ [ev]) t'"
    | (panic) "panics q" "panics (e2e_events L S (pod_evs (past @ [ev])) st)"
    using e2e_trial_inv_step [OF Cons.prems(2) q] by blast
  then show ?case
  proof cases
    case ret
    then show ?thesis
      using Cons.IH [OF _ ret(2)] Cons.prems(1) q by simp
  next
    case panic
    have "pod_evs (past @ ev # evs) = pod_evs (past @ [ev]) @ pod_evs evs"
      using pod_evs_append [of "past @ [ev]" evs] by simp
    then have "panics (e2e_events L S (pod_evs (past @ ev # evs)) st)"
      using panic(2) by (simp only: e2e_events_append) (auto simp: panics_iff)
    then show ?thesis
      using panic(1) Cons.prems(1) q by (cases q) auto
  qed
qed auto

lemma e2e_start_Ret:
  assumes "e2e_start S nPods (Inr targets) polls st0 = Some (Ret (st, scales))"
  shows "targets \<noteq> [] \<and> e2e_prepare S nPods targets st0 = Ret st
    \<and> scales = map (\<lambda>dp. ((Namespace dp, Name dp), int32_of (nPodsPerTarget nPods (length targets)))) targets
    \<and> (\<exists>items. Inr items \<in> set polls \<and> length items = length targets \<and> list_all rs_Controlled items)"
proof -
  obtain u where u: "poll (waitForReplicaSets (length targets)) polls = Some u" "targets \<noteq> []"
      "go_bind u (\<lambda>_. go_bind (e2e_prepare S nPods targets st0) (\<lambda>st'.
          Ret (st', map (\<lambda>dp. ((Namespace dp, Name dp), int32_of (nPodsPerTarget nPods (length targets)))) targets))) = Ret (st, scales)"
    using assms by (auto simp: e2e_start_def split: if_splits)
  then have p: "poll (waitForReplicaSets (length targets)) polls = Some (Ret ())"
    by (auto simp: go_bind_eq_Ret)
  then show ?thesis
    using u poll_Ret [OF p] by (auto simp: go_bind_eq_Ret waitForReplicaSets_True list_all_iff)
qed

text \<open>
  C31. The end-to-end experiment, from the command line to the report. Either it stops with the same error whatever happens
  later, or it has targets, has seen as many owned ReplicaSets, and updates the scale of every target. It waits for a number of pods, not for
  particular ones: of the pods of all targets that have been reported ready, each counted once, at most
  the number expected may appear. With one more, such as the replacement of a pod that was already counted,
  it panics. Otherwise it does not, and it prints its report only when exactly that many have been ready; the report
  counts the scale updates that had succeeded.
\<close>

theorem e2e_program:
  assumes "e2e_experiment L S baseline selector nPods monitorErr cacheSynced (Inr targets) polls evs = Some r"
    and "shared_map S" "0 \<le> nPods" "nPods < 2 ^ 31" "length targets < 2 ^ 31"
  shows "(\<exists>m. r = Panic m \<and> (\<forall>evs'. e2e_experiment L S baseline selector nPods monitorErr cacheSynced (Inr targets) polls evs' = Some (Panic m)))
    \<or> selector \<noteq> '''' \<and> baseline \<in> {''k8s'', ''k8s+'', ''kd'', ''kd+''} \<and> targets \<noteq> []
      \<and> (\<exists>items. Inr items \<in> set polls \<and> length items = length targets \<and> list_all rs_Controlled items)
      \<and> (let expected = nPodsPerTarget nPods (length targets) * int (length targets);
             ready = int (card (ready_pods L selector targets (pod_evs evs)))
         in if expected < ready then panics r
            else \<exists>t. r = Ret t \<and> et_nScaled t = int (length (filter id (call_returns evs)))
              \<and> (et_out t \<noteq> [] \<longrightarrow> ready = expected
                   \<and> (\<exists>latency. et_out t = [TargetsScaled (et_nScaled t) (length targets) latency, Total (Microseconds latency)])))"
proof (cases "e2e_main baseline selector = Ret () \<and> monitorErr = None \<and> cacheSynced")
  case False
  then show ?thesis
    using assms(1) by (cases "e2e_main baseline selector") (auto simp: e2e_experiment_def split: option.splits)
next
  case True
  then have f: "selector \<noteq> ''''" "baseline \<in> {''k8s'', ''k8s+'', ''kd'', ''kd+''}"
    by (auto simp: e2e_main_def split: if_splits)
  let ?start = "e2e_start S nPods (Inr targets) polls (e2e_NewPodMonitor S selector)"
  let ?t0 = "\<lambda>st scales. \<lparr> et_state = st, et_scaling = scales, et_targets = length scales, et_nScaled = 0, et_out = [], et_ended = False \<rparr>"
  have eq: "e2e_experiment L S baseline selector nPods monitorErr cacheSynced (Inr targets) polls evs' =
      (case ?start of None \<Rightarrow> None | Some (Panic m) \<Rightarrow> Some (Panic m) | Some (Ret (st, scales)) \<Rightarrow> e2e_trial_run L S evs' (?t0 st scales))" for evs'
    using True by (simp add: e2e_experiment_def)
  show ?thesis
  proof (cases "\<exists>m. ?start = Some (Panic m)")
    case True
    then show ?thesis using assms(1) by (auto simp: eq)
  next
    case False
    then obtain st scales where s: "?start = Some (Ret (st, scales))" and run: "e2e_trial_run L S evs (?t0 st scales) = Some r"
      using assms(1) by (auto simp: eq split: option.splits go.splits)
    note st = e2e_start_Ret [OF s]
    have inv: "e2e_trial_inv L S st (length targets) [] (?t0 st scales)"
      using st assms(5) by (simp add: e2e_trial_inv_def)
    have mon: "e_wg st = nPodsPerTarget nPods (length targets) * int (length targets)"
        "if int (card (ready_pods L selector targets (pod_evs evs))) \<le> e_wg st
         then \<exists>st'. e2e_events L S (pod_evs evs) st = Ret st' \<and> e_wg st' = e_wg st - int (card (ready_pods L selector targets (pod_evs evs)))
         else panics (e2e_events L S (pod_evs evs) st)"
      using e2e_monitor_exact [OF assms(2-4) _ assms(5), where L = L and selector = selector and evs = "pod_evs evs"] st by auto
    show ?thesis
      using e2e_trial_inv_run [OF run inv] mon f st
      by (intro disjI2) (auto simp: e2e_trial_inv_def Let_def split: if_splits)
  qed
qed

definition e2e_deployment :: Deployment where
  "e2e_deployment = \<lparr> Namespace = ''default'', Name = ''f'', Labels = [(''app'', ''f''), (''workload'', ''test'')], Deleting = False, Replicas = Some 0, TemplateLabels = [] \<rparr>"

definition e2e_one_pod :: "bench_event list" where
  "e2e_one_pod = [PodEvent 5 (CreateEvent (bench_pod ''a'')), CallReturns 0 True, WaitPods False 3]"

theorem e2e_program_witness:
  "\<exists>t latency. e2e_experiment sample_bench_lib gomap_shared ''kd'' ''test'' 1 None True (Inr [e2e_deployment]) [Inr [one_replicaset]] e2e_one_pod = Some (Ret t)
     \<and> et_out t = [TargetsScaled 1 1 latency, Total (Microseconds latency)]"
proof -
  have per: "nPodsPerTarget 1 (Suc 0) = 1" by (simp add: nPodsPerTarget_def signed_divide_int_def)
  obtain t where t: "e2e_experiment sample_bench_lib gomap_shared ''kd'' ''test'' 1 None True (Inr [e2e_deployment]) [Inr [one_replicaset]] e2e_one_pod
      = Some (Ret t)" "et_out t \<noteq> []"
    by (simp add: e2e_experiment_def e2e_main_def e2e_start_def waitForReplicaSets_def one_replicaset_def e2e_prepare_def per wg_Add_def e2e_NewPodMonitor_def
        e2e_Watch_def e2e_NewExpectation_def e2e_deployment_def KeyFromObject_def label_def gm_get_def gm_set_def e2e_one_pod_def e2e_event_def
        sample_bench_lib_def bench_pod_def e2e_FilterEvent_def IsWorkload_def e2e_HandlePodEvent_def e2e_Done_def e2e_Done_key_def podKey_def
        wg_Done_def e2e_finish_def e2e_Since_def percentile_since_def time_Sub_def Let_def)
  have a: "(0 :: int) \<le> 1" "(1 :: int) < 2 ^ 31" "length [e2e_deployment] < 2 ^ 31" by simp_all
  from e2e_program [OF t(1) gomap.shared_map_axioms a] show ?thesis
    using t by (auto simp: e2e_one_pod_def Let_def split: if_splits)
qed

section \<open>The node agent serves\<close>

text \<open>An update of node \<open>n\<close> as seen in \<open>E\<close>, with an internal address of the node and the agent's port in the annotation.\<close>

definition address_update :: "string \<Rightarrow> 't kube \<Rightarrow> string \<Rightarrow> Node \<Rightarrow> bool" where
  "address_update annotation E n node' \<longleftrightarrow>
     (case ls_GetNode E n of Inl _ \<Rightarrow> False
      | Inr node \<Rightarrow> list_ex (\<lambda>(ty, ip). ty = ''InternalIP'' \<and> ip \<noteq> ''''
          \<and> node' = node\<lparr> Annotations := gm_set (Annotations node) annotation (ip @ CustomKubeletServicePort) \<rparr>) (Addresses node))"

lemma publish_attempt:
  assumes "publishServiceAddr K E s = Ret (Inr b, s')"
  shows "\<exists>node'. s' = s\<lparr> calls := calls s @ [UpdateNode node'] \<rparr> \<and> address_update (KubeletServiceAddrAnnotation K) E (nodeName s) node' \<and> (b \<longleftrightarrow> api_UpdateNode E node' = None)"
proof -
  from publishServiceAddr_Ret [OF assms]
  obtain node ip where n: "ls_GetNode E (nodeName s) = Inr node" "ip \<noteq> ''''" "(''InternalIP'', ip) \<in> set (Addresses node)"
    and c: "let node' = node\<lparr> Annotations := gm_set (Annotations node) (KubeletServiceAddrAnnotation K) (ip @ CustomKubeletServicePort) \<rparr>
       in s' = s\<lparr> calls := calls s @ [UpdateNode node'] \<rparr> \<and> (b \<longleftrightarrow> api_UpdateNode E node' = None)"
    by blast
  let ?node' = "node\<lparr> Annotations := gm_set (Annotations node) (KubeletServiceAddrAnnotation K) (ip @ CustomKubeletServicePort) \<rparr>"
  have "address_update (KubeletServiceAddrAnnotation K) E (nodeName s) ?node'"
    using n by (force simp: address_update_def list_ex_iff)
  then show ?thesis using c by (intro exI [of _ ?node']) (simp add: Let_def)
qed

lemma publish_loop_None:
  "publish_loop K Es s = Ret (None, s') \<Longrightarrow>
     \<exists>rejected node. s' = s\<lparr> calls := calls s @ map UpdateNode (rejected @ [node]) \<rparr> \<and> length rejected < length Es
       \<and> (\<forall>i < length rejected. address_update (KubeletServiceAddrAnnotation K) (Es ! i) (nodeName s) (rejected ! i) \<and> api_UpdateNode (Es ! i) (rejected ! i) \<noteq> None)
       \<and> address_update (KubeletServiceAddrAnnotation K) (Es ! length rejected) (nodeName s) node \<and> api_UpdateNode (Es ! length rejected) node = None"
proof (induction Es arbitrary: s)
  case (Cons E Es)
  then obtain r s1 where r: "publishServiceAddr K E s = Ret (r, s1)"
    by (auto simp: go_bind_eq_Ret)
  then obtain b where b: "r = Inr b"
    using Cons.prems by (cases r) auto
  obtain n1 where n1: "s1 = s\<lparr> calls := calls s @ [UpdateNode n1] \<rparr>" "address_update (KubeletServiceAddrAnnotation K) E (nodeName s) n1" "b \<longleftrightarrow> api_UpdateNode E n1 = None"
    using publish_attempt [OF r [unfolded b]] by blast
  show ?case
  proof (cases b)
    case True
    then have "s' = s1" using Cons.prems r b by simp
    then show ?thesis using n1 True by (intro exI [of _ "[]"] exI [of _ n1]) simp
  next
    case False
    then have "publish_loop K Es s1 = Ret (None, s')"
      using Cons.prems r b by simp
    from Cons.IH [OF this] obtain rejected node where w: "s' = s1\<lparr> calls := calls s1 @ map UpdateNode (rejected @ [node]) \<rparr>"
        "length rejected < length Es"
        "\<forall>i < length rejected. address_update (KubeletServiceAddrAnnotation K) (Es ! i) (nodeName s1) (rejected ! i) \<and> api_UpdateNode (Es ! i) (rejected ! i) \<noteq> None"
        "address_update (KubeletServiceAddrAnnotation K) (Es ! length rejected) (nodeName s1) node" "api_UpdateNode (Es ! length rejected) node = None"
      by blast
    have "address_update (KubeletServiceAddrAnnotation K) ((E # Es) ! i) (nodeName s) ((n1 # rejected) ! i) \<and> api_UpdateNode ((E # Es) ! i) ((n1 # rejected) ! i) \<noteq> None"
      if "i < length (n1 # rejected)" for i
      using that w(3) n1 False by (cases i) auto
    then show ?thesis
      using w n1 by (intro exI [of _ "n1 # rejected"] exI [of _ node]) simp
  qed
qed simp

lemma kubelet_main_fresh:
  assumes "kubelet_main K podErr nodeErr osHost f = Ret s"
  shows "\<not> podErr" "\<not> nodeErr" "calls s = []" "if flag_node f = '''' then osHost = Inr (nodeName s) else nodeName s = flag_node f"
  using assms by (auto simp: kubelet_main_def go_bind_eq_Ret Let_def WithReadyDelay_def NewKubedirectServer_def Simulate_def UsePatch_def
      split: if_splits sum.splits option.splits)


definition addressed_kube :: "kube_error option \<Rightarrow> string kube" where
  "addressed_kube err = (sample_kube 0 0 (Inl (KNotFound ''p'')))\<lparr> ls_GetNode := (\<lambda>n. Inr addressed_node), api_UpdateNode := (\<lambda>n. err) \<rparr>"


section \<open>The answers of the workload server\<close>

text \<open>
  The server that \<open>cmd/workload/knative\<close> starts, for a request of \<open>req\<close> milliseconds of which \<open>t\<close> nanoseconds have passed: the
  environment decides which function answers, and the answer names the host while there is work left.
\<close>

lemma knative_workload_reply:
  assumes "lookupEnv ''ITERATIONS_MULTIPLIER'' = Some (dec n)" "0 \<le> n" "n < 2 ^ 63" "0 \<le> t" "t < 2 ^ 32 * Millisecond"
  shows "knative_workload_main lookupEnv (Some host) None (\<lambda>execute. (ReplyMessage (execute t t' req), None))
    = Ret (if t div Millisecond < uint (ReqRuntimeMilliSec req)
           then (if lookupEnv ''FUNCTION_TYPE'' = Some ''sleep'' then ''OK - EMPTY - '' else ''OK - '') @ host else '''')"
proof -
  note g = environment_read [of lookupEnv n "Some host" initial_vars, OF assms(1-3)]
  have c: "consumedMilliSec t < ReqRuntimeMilliSec req \<longleftrightarrow> t div Millisecond < uint (ReqRuntimeMilliSec req)"
    by (simp add: word_less_def uint_consumed [OF assms(4,5)])
  have t: "funcType initial_vars = TraceFunction" by (simp add: initial_vars_def)
  show ?thesis
    by (simp add: knative_workload_main_def StartGRPCServer_def g newFuncServer_def funcServer_Execute_def TraceFunctionExecution_def
        EmptyFunctionExecution_def Let_def c t)
qed

end
