(* ===== verification/Controller.thy ===== *)
theory Controller
  imports Gateway
begin

text \<open>
  The control loop of the Kubernetes gateway (\<open>pkg/gateway/k8s.go\<close>): the controller that
  \<open>SetUpWithManager\<close> builds watches pods and deployments, filters and maps their events to reconcile
  requests on a rate-limited work queue, and runs \<open>Reconcile\<close> on up to 256 workers at a time. The caches,
  the event sources and the queue are controller-runtime's: the record \<open>ctrl_lib\<close> holds the operations the
  source calls and the locale \<open>controller_runtime\<close> what they are documented to do. The loop is a step
  function that splits each \<open>Reconcile\<close> at every access to shared state: the read of the deployment, the
  read of the pods, the snapshot of the endpoints, each operation of the parallel additions, and the
  return to the queue. The cache may change between any two of them, its events reach the handler
  later and in any order, and the requests of the dispatchers go on all the while. The theorems show that
  a deployment that nobody has to reconcile any more has exactly the endpoints of its ready pods,
  that the loop always gets there, and what becomes of a deleted deployment.
\<close>

declare split_paired_All [simp del] split_paired_Ex [simp del]

section \<open>What controller-runtime provides\<close>

text \<open>A pod of the cache: beside what the dispatcher reads it has a status, which only \<open>kdutil.IsPodReady\<close> looks at.\<close>

record 'st cached_pod = Pod +
  cp_status :: 'st

datatype obj_event = Created ObjectMeta | Updated ObjectMeta ObjectMeta | Removed ObjectMeta

text \<open>
  \<open>predicate.NewPredicateFuncs\<close>, \<open>handler.TypedEnqueueRequestsFromMapFunc\<close>, and \<open>Get\<close> and \<open>List\<close> of the manager's
  client, which read the caches of deployments and pods; \<open>cr_Return\<close> is what the controller does to its queue
  when \<open>Reconcile\<close> has returned with the given errors.
\<close>

record ('st, 'q) ctrl_lib =
  NewPredicateFuncs :: "(ObjectMeta \<Rightarrow> bool) \<Rightarrow> obj_event \<Rightarrow> bool"
  EnqueueRequestsFromMapFunc :: "(ObjectMeta \<Rightarrow> NamespacedName list go) \<Rightarrow> obj_event \<Rightarrow> NamespacedName list go"
  cc_Get :: "(NamespacedName, Deployment) gomap \<Rightarrow> NamespacedName \<Rightarrow> api_error + Deployment"
  cc_List :: "(NamespacedName, 'st cached_pod) gomap \<Rightarrow> string \<Rightarrow> labels \<Rightarrow> string + 'st cached_pod list"
  cr_Return :: "NamespacedName \<Rightarrow> string list \<Rightarrow> 'q \<Rightarrow> 'q"

text \<open>\<open>client.MatchingLabels\<close>: every label asked for is there with its value.\<close>

definition matches :: "labels \<Rightarrow> 'a ObjectMeta_scheme \<Rightarrow> bool" where
  "matches ls obj \<longleftrightarrow> (\<forall>k \<in> set (gm_keys ls). gm_get (Labels obj) k = gm_get ls k)"

locale controller_runtime =
  fixes L :: "('st, 'q) ctrl_lib"
  assumes Predicate_Created: "NewPredicateFuncs L f (Created obj) = f obj"
    and Predicate_Updated: "NewPredicateFuncs L f (Updated old obj) = f obj"
    and Predicate_Removed: "NewPredicateFuncs L f (Removed obj) = f obj"
    and Enqueue_Created: "EnqueueRequestsFromMapFunc L h (Created obj) = h obj"
    and Enqueue_Removed: "EnqueueRequestsFromMapFunc L h (Removed obj) = h obj"
    and Enqueue_Updated: "h old = Ret xs \<Longrightarrow> h obj = Ret ys \<Longrightarrow>
      \<exists>zs. EnqueueRequestsFromMapFunc L h (Updated old obj) = Ret zs \<and> set zs = set xs \<union> set ys"
    and Get_cached: "cc_Get L deps nn = (case gm_get deps nn of None \<Rightarrow> Inl NotFound | Some d \<Rightarrow> Inr d)"
    and List_cached: "\<exists>ps. cc_List L pods ns ls = Inr ps
      \<and> set ps = {p \<in> ran (map_of pods). Namespace p = ns \<and> matches ls p}"

section \<open>The controller\<close>

text \<open>The handler behind both \<open>Watches\<close>, under \<open>WithEventFilter\<close>.\<close>

definition enqueue_event :: "('st, 'q) ctrl_lib \<Rightarrow> obj_event \<Rightarrow> NamespacedName list go" where
  "enqueue_event L ev =
     (if NewPredicateFuncs L FilterEvent ev then EnqueueRequestsFromMapFunc L enqueueWorkload ev else Ret [])"

definition MaxConcurrentReconciles :: nat where
  "MaxConcurrentReconciles = 256"

text \<open>
  Where a worker is in \<open>Reconcile\<close>: before \<open>Get\<close>, before \<open>List\<close>, before the dispatcher's \<open>Reconcile\<close>, and
  inside it or after it with the error to return.
\<close>

datatype ct_phase = Taken | Got Deployment | Listed "Pod list" | Running "string list"

text \<open>
  The caches, the events on their way to the handler, the queue, the worker of each key in
  process, and the goroutines of each dispatcher.
\<close>

record ('st, 'm, 't, 'e, 'q) ct_state =
  ct_pods :: "(NamespacedName, 'st cached_pod) gomap"
  ct_deps :: "(NamespacedName, Deployment) gomap"
  ct_notes :: "obj_event list"
  ct_queue :: 'q
  ct_work :: "(NamespacedName, ct_phase) gomap"
  ct_disp :: "(string, ('m, 't, 'e) disp_sys) gomap"

definition ct_init :: "(NamespacedName, 'q) ratequeue \<Rightarrow> (string, ('m, 't) PodDispatcher) gomap \<Rightarrow> ('st, 'm, 't, 'e, 'q) ct_state" where
  "ct_init Q pds = \<lparr> ct_pods = [], ct_deps = [], ct_notes = [], ct_queue = wq_new Q, ct_work = [],
     ct_disp = map (\<lambda>(key, pd). (key, ds_init pd)) pds \<rparr>"

definition obj_key :: "'a ObjectMeta_scheme \<Rightarrow> NamespacedName" where
  "obj_key obj = (Namespace obj, Name obj)"

definition watch_set :: "(NamespacedName, 'a ObjectMeta_scheme) gomap \<Rightarrow> 'a ObjectMeta_scheme \<Rightarrow> obj_event" where
  "watch_set store obj =
     (case gm_get store (obj_key obj) of
        None \<Rightarrow> Created (ObjectMeta.truncate obj)
      | Some old \<Rightarrow> Updated (ObjectMeta.truncate old) (ObjectMeta.truncate obj))"

text \<open>The worker's part of \<open>Reconcile\<close>, one definition per stretch between two accesses to shared state.\<close>

definition after_Get :: "api_error + Deployment \<Rightarrow> ct_phase" where
  "after_Get r = (case r of Inl NotFound \<Rightarrow> Running [] | Inl (ApiError err) \<Rightarrow> Running [err] | Inr target \<Rightarrow> Got target)"

definition after_List :: "('st cached_pod \<Rightarrow> bool) \<Rightarrow> string + 'st cached_pod list \<Rightarrow> ct_phase" where
  "after_List isPodReady r =
     (let pods = (case r of Inl err \<Rightarrow> [] | Inr ps \<Rightarrow> ps) in Listed (map Pod.truncate (filter isPodReady pods)))"

datatype ('st, 'e) ct_event =
  PodSet "'st cached_pod" | PodGone NamespacedName | DepSet Deployment | DepGone NamespacedName
| Notify nat | Take | GetTarget NamespacedName | ListPods NamespacedName
| StartDispatcher NamespacedName "'e backends" | EndReconcile NamespacedName
| Ripen NamespacedName | Disp string "'e disp_event"

fun starts :: "'e disp_event \<Rightarrow> bool" where
  "starts (StartReconcile pods mk) = True"
| "starts _ = False"

fun ct_step ::
    "('st, 'q) ctrl_lib \<Rightarrow> (NamespacedName, 'q) ratequeue \<Rightarrow> ('m, 'e) sharedMap \<Rightarrow> (string, 't) chann \<Rightarrow> ('st cached_pod \<Rightarrow> bool)
       \<Rightarrow> ('st, 'e) ct_event \<Rightarrow> ('st, 'm, 't, 'e, 'q) ct_state \<Rightarrow> ('st, 'm, 't, 'e, 'q) ct_state option" where
  "ct_step L Q S T isPodReady (PodSet pod) s =
     Some (s\<lparr> ct_pods := gm_set (ct_pods s) (obj_key pod) pod, ct_notes := ct_notes s @ [watch_set (ct_pods s) pod] \<rparr>)"
| "ct_step L Q S T isPodReady (PodGone nn) s =
     (case gm_get (ct_pods s) nn of
        None \<Rightarrow> None
      | Some pod \<Rightarrow> Some (s\<lparr> ct_pods := gm_del (ct_pods s) nn, ct_notes := ct_notes s @ [Removed (ObjectMeta.truncate pod)] \<rparr>))"
| "ct_step L Q S T isPodReady (DepSet d) s =
     Some (s\<lparr> ct_deps := gm_set (ct_deps s) (obj_key d) d, ct_notes := ct_notes s @ [watch_set (ct_deps s) d] \<rparr>)"
| "ct_step L Q S T isPodReady (DepGone nn) s =
     (case gm_get (ct_deps s) nn of
        None \<Rightarrow> None
      | Some d \<Rightarrow> Some (s\<lparr> ct_deps := gm_del (ct_deps s) nn, ct_notes := ct_notes s @ [Removed (ObjectMeta.truncate d)] \<rparr>))"
| "ct_step L Q S T isPodReady (Notify i) s =
     (if i < length (ct_notes s) then
        case enqueue_event L (ct_notes s ! i) of
          Panic m \<Rightarrow> None
        | Ret nns \<Rightarrow> Some (s\<lparr> ct_notes := del_nth i (ct_notes s), ct_queue := foldl (wq_Add Q) (ct_queue s) nns \<rparr>)
      else None)"
| "ct_step L Q S T isPodReady Take s =
     (if length (ct_work s) < MaxConcurrentReconciles then
        case wq_Get Q (ct_queue s) of
          None \<Rightarrow> None
        | Some (nn, q) \<Rightarrow> Some (s\<lparr> ct_queue := q, ct_work := gm_set (ct_work s) nn Taken \<rparr>)
      else None)"
| "ct_step L Q S T isPodReady (GetTarget nn) s =
     (case gm_get (ct_work s) nn of
        Some Taken \<Rightarrow> Some (s\<lparr> ct_work := gm_set (ct_work s) nn (after_Get (cc_Get L (ct_deps s) nn)) \<rparr>)
      | _ \<Rightarrow> None)"
| "ct_step L Q S T isPodReady (ListPods nn) s =
     (case gm_get (ct_work s) nn of
        Some (Got target) \<Rightarrow>
          Some (s\<lparr> ct_work := gm_set (ct_work s) nn
                     (after_List isPodReady (cc_List L (ct_pods s) (Namespace target) (TemplateLabels target))) \<rparr>)
      | _ \<Rightarrow> None)"
| "ct_step L Q S T isPodReady (StartDispatcher nn mk) s =
     (case gm_get (ct_work s) nn of
        Some (Listed readyPods) \<Rightarrow>
          let key = NamespacedName_String nn in
          (case gm_get (ct_disp s) key of
             None \<Rightarrow> Some (s\<lparr> ct_work := gm_set (ct_work s) nn (Running []) \<rparr>)
           | Some ds \<Rightarrow>
               map_option (\<lambda>ds'. s\<lparr> ct_work := gm_set (ct_work s) nn (Running (reconcile_errs S mk readyPods (ds_pd ds))),
                                    ct_disp := gm_set (ct_disp s) key ds' \<rparr>)
                 (ds_step S T (StartReconcile readyPods mk) ds))
      | _ \<Rightarrow> None)"
| "ct_step L Q S T isPodReady (EndReconcile nn) s =
     (case gm_get (ct_work s) nn of
        Some (Running errs) \<Rightarrow>
          if (case gm_get (ct_disp s) (NamespacedName_String nn) of None \<Rightarrow> True | Some ds \<Rightarrow> concat (ds_threads ds) = [])
          then Some (s\<lparr> ct_work := gm_del (ct_work s) nn, ct_queue := cr_Return L nn errs (ct_queue s) \<rparr>)
          else None
      | _ \<Rightarrow> None)"
| "ct_step L Q S T isPodReady (Ripen nn) s = Some (s\<lparr> ct_queue := wq_Ripe Q (ct_queue s) nn \<rparr>)"
| "ct_step L Q S T isPodReady (Disp key ev) s =
     (if starts ev then None
      else case gm_get (ct_disp s) key of
             None \<Rightarrow> None
           | Some ds \<Rightarrow> map_option (\<lambda>ds'. s\<lparr> ct_disp := gm_set (ct_disp s) key ds' \<rparr>) (ds_step S T ev ds))"

text \<open>
  What the cluster keeps to: names without slashes, labels that do not change on a pod, and
  deployments whose \<open>app\<close> label and pod template carry the deployment's own name (the gateway's
  \<open>assume service names are the same as deployment names\<close>).
\<close>

definition well_labelled :: "Deployment \<Rightarrow> bool" where
  "well_labelled d \<longleftrightarrow> no_slash (Namespace d) \<and> no_slash (Name d) \<and> Name d \<noteq> ''''
     \<and> label (Labels d) ''app'' = Name d \<and> label (Labels d) ''workload'' = ''trace''
     \<and> gm_get (TemplateLabels d) ''app'' = Some (Name d) \<and> gm_get (TemplateLabels d) ''workload'' = Some ''trace''"

fun cluster_ok :: "('st, 'm, 't, 'e, 'q) ct_state \<Rightarrow> ('st, 'e) ct_event \<Rightarrow> bool" where
  "cluster_ok s (PodSet pod) \<longleftrightarrow> no_slash (Namespace pod) \<and> no_slash (label (Labels pod) ''app'')
     \<and> (case gm_get (ct_pods s) (obj_key pod) of None \<Rightarrow> True | Some old \<Rightarrow> Labels old = Labels pod)"
| "cluster_ok s (DepSet d) \<longleftrightarrow> well_labelled d"
| "cluster_ok s _ \<longleftrightarrow> True"

inductive ct_reachable ::
    "('st, 'q) ctrl_lib \<Rightarrow> (NamespacedName, 'q) ratequeue \<Rightarrow> ('m, 'e) sharedMap \<Rightarrow> (string, 't) chann \<Rightarrow> ('st cached_pod \<Rightarrow> bool)
       \<Rightarrow> ('st, 'm, 't, 'e, 'q) ct_state \<Rightarrow> ('st, 'm, 't, 'e, 'q) ct_state \<Rightarrow> bool"
  for L Q S T isPodReady s0 where
  start: "ct_reachable L Q S T isPodReady s0 s0"
| step: "ct_reachable L Q S T isPodReady s0 s \<Longrightarrow> cluster_ok s ev \<Longrightarrow> ct_step L Q S T isPodReady ev s = Some s'
    \<Longrightarrow> ct_reachable L Q S T isPodReady s0 s'"

section \<open>What the loop is for\<close>

text \<open>The keys the dispatcher of a deployment should know, and the work announced for a key.\<close>

definition selects :: "Deployment \<Rightarrow> 'a ObjectMeta_scheme \<Rightarrow> bool" where
  "selects d pod \<longleftrightarrow> Namespace pod = Namespace d \<and> matches (TemplateLabels d) pod"

definition wanted :: "('st cached_pod \<Rightarrow> bool) \<Rightarrow> ('st, 'm, 't, 'e, 'q) ct_state \<Rightarrow> Deployment \<Rightarrow> string set" where
  "wanted isPodReady s d = (\<lambda>pod. fst (podEndpointKeyFunc pod)) `
     {pod \<in> ran (map_of (ct_pods s)). selects d pod \<and> isPodReady pod}"

definition requests_of :: "('st, 'q) ctrl_lib \<Rightarrow> obj_event \<Rightarrow> NamespacedName set" where
  "requests_of L ev = (case enqueue_event L ev of Ret nns \<Rightarrow> set nns | Panic m \<Rightarrow> {})"

definition announced ::
    "('st, 'q) ctrl_lib \<Rightarrow> ('q \<Rightarrow> NamespacedName set) \<Rightarrow> ('q \<Rightarrow> NamespacedName set) \<Rightarrow> ('st, 'm, 't, 'e, 'q) ct_state \<Rightarrow> NamespacedName set" where
  "announced L dirty delayed s = dirty (ct_queue s) \<union> delayed (ct_queue s) \<union> \<Union> (requests_of L ` set (ct_notes s))"

text \<open>The endpoints once the pending operations of a dispatcher are done.\<close>

definition sets_of :: "'e rop list \<Rightarrow> string set" where
  "sets_of rops = {k. \<exists>e. SetEndpoint k e \<in> set rops}"

definition dels_of :: "'e rop list \<Rightarrow> string set" where
  "dels_of rops = {k. DelEndpoint k \<in> set rops}"

lemma rops_of_simps [simp]:
  "sets_of [] = {}" "dels_of [] = {}"
  "sets_of (SetEndpoint k e # rops) = insert k (sets_of rops)" "dels_of (SetEndpoint k e # rops) = dels_of rops"
  "sets_of (PutToken k # rops) = sets_of rops" "dels_of (PutToken k # rops) = dels_of rops"
  "sets_of (DelEndpoint k # rops) = sets_of rops" "dels_of (DelEndpoint k # rops) = insert k (dels_of rops)"
  by (auto simp: sets_of_def dels_of_def)

text \<open>
  The controller over its queue: a reconcile that returns gives its key back, and one that returns an
  error has the key retried after a back-off.
\<close>

locale control_loop = controller_runtime L + wq: rate_limited_queue Q dirty processing delayed + dispatcher_env S T items
  for L :: "('st, 'q) ctrl_lib" and Q :: "(NamespacedName, 'q) ratequeue" and dirty processing delayed :: "'q \<Rightarrow> NamespacedName set"
    and S :: "('m, 'e) sharedMap" and T :: "(string, 't) chann" and items :: "'t \<Rightarrow> string list" +
  fixes isPodReady :: "'st cached_pod \<Rightarrow> bool"
  assumes Return_dirty: "dirty (cr_Return L nn errs q) = dirty q"
    and Return_processing: "processing (cr_Return L nn errs q) = processing q - {nn}"
    and Return_delayed: "delayed (cr_Return L nn errs q) = (if errs = [] then delayed q else insert nn (delayed q))"

context dispatcher_env
begin

abbreviation rops_left :: "('m, 't, 'e) disp_sys \<Rightarrow> 'e rop list" where
  "rops_left ds \<equiv> concat (ds_threads ds)"

definition planned :: "('m, 't, 'e) disp_sys \<Rightarrow> string set" where
  "planned ds = dom (contents (endpoints (ds_pd ds))) \<union> sets_of (rops_left ds) - dels_of (rops_left ds)"

definition ds_ok :: "('m, 't, 'e) disp_sys \<Rightarrow> bool" where
  "ds_ok ds \<longleftrightarrow> token_inv ds \<and> sets_of (rops_left ds) \<inter> dels_of (rops_left ds) = {}"

lemma planned_idle: "rops_left ds = [] \<Longrightarrow> planned ds = dom (contents (endpoints (ds_pd ds)))"
  unfolding planned_def by (simp only: rops_of_simps Un_empty_right Diff_empty)

lemma exec_rop_dom:
  "dom (contents (endpoints (snd (exec_rop S T rop pd)))) = dom (contents (endpoints pd)) \<union> sets_of [rop] - dels_of [rop]"
  by (cases rop) (auto simp: domIff exec_rop_contents split: if_splits)

lemma exec_rops_dom:
  "sets_of rops \<inter> dels_of rops = {} \<Longrightarrow>
     dom (contents (endpoints (snd (exec_rops S T rops pd)))) = dom (contents (endpoints pd)) \<union> sets_of rops - dels_of rops"
proof (induction rops arbitrary: pd)
  case (Cons rop rops)
  have "sets_of rops \<inter> dels_of rops = {}"
    using Cons.prems by (cases rop) auto
  then show ?case
    using Cons.IH [of "snd (exec_rop S T rop pd)"] Cons.prems exec_rop_dom [of rop pd] by (cases rop) (auto simp: Let_def split_beta)
qed simp

lemma rops_left_update:
  assumes "i < length ts" "ts ! i = rop # rops"
  shows "set (concat ts) = insert rop (set (concat (ts[i := rops])))"
proof -
  have "ts = take i ts @ (rop # rops) # drop (Suc i) ts" "ts[i := rops] = take i ts @ rops # drop (Suc i) ts"
    using assms by (metis id_take_nth_drop, simp add: upd_conv_take_nth_drop)
  then have "set (concat ts) = set (concat (take i ts @ (rop # rops) # drop (Suc i) ts))"
    "set (concat (ts[i := rops])) = set (concat (take i ts @ rops # drop (Suc i) ts))"
    by metis+
  then show ?thesis
    by auto
qed

lemma planned_RunOp:
  assumes "ds_step S T (RunOp i) ds = Some ds'" "sets_of (rops_left ds) \<inter> dels_of (rops_left ds) = {}"
  shows "planned ds' = planned ds" "sets_of (rops_left ds') \<inter> dels_of (rops_left ds') = {}"
proof -
  obtain rop rops where i: "i < length (ds_threads ds)" "ds_threads ds ! i = rop # rops"
    using assms(1) by (auto split: if_splits list.splits)
  then have ds': "ds_pd ds' = snd (exec_rop S T rop (ds_pd ds))" "ds_threads ds' = (ds_threads ds)[i := rops]"
    using assms(1) by (auto split: prod.splits)
  have "set (rops_left ds) = insert rop (set (rops_left ds'))"
    using rops_left_update [OF i] ds'(2) by metis
  then have left: "sets_of (rops_left ds) = sets_of [rop] \<union> sets_of (rops_left ds')"
      "dels_of (rops_left ds) = dels_of [rop] \<union> dels_of (rops_left ds')"
    unfolding sets_of_def dels_of_def by auto
  show "sets_of (rops_left ds') \<inter> dels_of (rops_left ds') = {}"
    using assms(2) unfolding left by blast
  have "dom (contents (endpoints (ds_pd ds'))) = dom (contents (endpoints (ds_pd ds))) \<union> sets_of [rop] - dels_of [rop]"
    unfolding ds'(1) by (rule exec_rop_dom)
  then show "planned ds' = planned ds"
    using assms(2) unfolding planned_def left by blast
qed

lemma planned_other:
  assumes "ds_step S T ev ds = Some ds'" "\<not> starts ev" "\<And>i. ev \<noteq> RunOp i"
  shows "ds_threads ds' = ds_threads ds \<and> endpoints (ds_pd ds') = endpoints (ds_pd ds)"
proof (cases ev)
  case (Iter i sel)
  obtain r pd where r: "dispatch_iter S T sel (ds_pd ds) = (r, pd)"
    by fastforce
  then have "endpoints pd = endpoints (ds_pd ds)"
    by (auto simp: dispatch_iter_def split: select_case.splits option.splits)
  then show ?thesis
    using assms(1) Iter r by (cases r) (auto simp: Let_def split: if_splits)
qed (use assms in \<open>auto simp: Dispatch_done_def split: list.splits if_splits prod.splits\<close>)

lemma reconcile_threads_disjoint:
  assumes "reconcile_threads S mk pods pd = Ret ts"
  shows "sets_of (concat ts) \<inter> dels_of (concat ts) = {}"
proof -
  define add where "add = filter (\<lambda>key. gm_get (sm_Inner S (endpoints pd)) key = None) (gm_keys (ready_endpoints pods))"
  define del where "del = filter (\<lambda>key. gm_get (ready_endpoints pods) key = None) (gm_keys (sm_Inner S (endpoints pd)))"
  obtain us where us: "map (add_rops mk (ready_endpoints pods)) add = map Ret us" "ts = us @ [map DelEndpoint del]"
    using assms by (auto simp: reconcile_threads_def endpoint_diff_def Let_def go_bind_eq_Ret go_all_Ret add_def del_def)
  have "\<exists>key \<in> set add. t = [] \<or> (\<exists>e. t = [SetEndpoint key e, PutToken key])" if "t \<in> set us" for t
  proof -
    have "Ret t \<in> set (map (add_rops mk (ready_endpoints pods)) add)"
      using us(1) that by simp
    then obtain key where "key \<in> set add" "add_rops mk (ready_endpoints pods) key = Ret t"
      by (auto simp only: list.set_map)
    then show ?thesis
      using add_rops_Ret by blast
  qed
  then have "sets_of (concat ts) \<subseteq> set add" "dels_of (concat ts) \<subseteq> set del"
    unfolding us(2) sets_of_def dels_of_def by fastforce+
  moreover have "set add \<inter> set del = {}"
    by (auto simp: add_def del_def gm_get_map_of set_gm_keys)
  ultimately show ?thesis
    by blast
qed

lemma planned_start:
  assumes "ds_step S T (StartReconcile pods mk) ds = Some ds'"
  shows "sets_of (rops_left ds') \<inter> dels_of (rops_left ds') = {}"
    and "reconcile_errs S mk pods (ds_pd ds) = [] \<Longrightarrow> planned ds' = (\<lambda>pod. fst (podEndpointKeyFunc pod)) ` set pods"
proof -
  obtain ts where ts: "reconcile_threads S mk pods (ds_pd ds) = Ret ts" "ds_threads ds' = ts" "ds_pd ds' = ds_pd ds"
    using assms by (auto split: if_splits go.splits)
  show disj: "sets_of (rops_left ds') \<inter> dels_of (rops_left ds') = {}"
    using reconcile_threads_disjoint [OF ts(1)] ts(2) by metis
  obtain cl pd' where pd': "exec_rops S T (concat ts) (ds_pd ds) = (cl, pd')"
    by fastforce
  assume "reconcile_errs S mk pods (ds_pd ds) = []"
  then have "Reconcile S T mk pods (ds_pd ds) = Ret ([], cl, pd')"
    using ts(1) pd' by (simp add: Reconcile_def)
  then have "dom (contents (endpoints pd')) = (\<lambda>pod. fst (podEndpointKeyFunc pod)) ` set pods"
    using Reconcile_errs ready_endpoints_dom by metis
  then show "planned ds' = (\<lambda>pod. fst (podEndpointKeyFunc pod)) ` set pods"
    using exec_rops_dom [OF disj, of "ds_pd ds"] pd' unfolding planned_def ts(2,3) by simp
qed

lemma ds_ok_step:
  assumes "ds_ok ds" "ds_step S T ev ds = Some ds'"
  shows "ds_ok ds'"
proof -
  have "sets_of (rops_left ds') \<inter> dels_of (rops_left ds') = {}"
  proof (cases "starts ev \<or> (\<exists>i. ev = RunOp i)")
    case True
    then show ?thesis
      using assms planned_start(1) planned_RunOp(2) by (cases ev) (auto simp: ds_ok_def)
  next
    case False
    then show ?thesis
      using assms(1) planned_other [OF assms(2)] unfolding ds_ok_def by metis
  qed
  then show ?thesis
    using assms token_inv_step unfolding ds_ok_def by blast
qed

lemma planned_step:
  assumes "ds_ok ds" "ds_step S T ev ds = Some ds'" "\<not> starts ev"
  shows "planned ds' = planned ds"
proof (cases "\<exists>i. ev = RunOp i")
  case True
  then show ?thesis
    using assms planned_RunOp(1) by (auto simp: ds_ok_def)
next
  case False
  then show ?thesis
    using planned_other [OF assms(2,3)] unfolding planned_def by metis
qed

lemma ds_ok_new: "ds_ok (ds_init (NewPodDispatcher S T tgt tmo))"
  by (simp add: ds_ok_def token_inv_def ds_init_def NewPodDispatcher_def slots_def)

lemma threads_step:
  assumes "ds_step S T ev ds = Some ds'" "\<not> starts ev" "rops_left ds = []"
  shows "rops_left ds' = []" "endpoints (ds_pd ds') = endpoints (ds_pd ds)"
proof -
  have "ev \<noteq> RunOp i" for i
  proof
    assume "ev = RunOp i"
    then obtain rop rops where "i < length (ds_threads ds)" "ds_threads ds ! i = rop # rops"
      using assms(1) by (auto split: if_splits list.splits)
    then show False
      using rops_left_update assms(3) by (metis insert_not_empty set_empty)
  qed
  then show "rops_left ds' = []" "endpoints (ds_pd ds') = endpoints (ds_pd ds)"
    using planned_other [OF assms(1,2)] assms(3) by metis+
qed

end

section \<open>Events and keys\<close>

definition nn_ok :: "NamespacedName \<Rightarrow> bool" where
  "nn_ok nn \<longleftrightarrow> no_slash (fst nn) \<and> no_slash (snd nn)"

lemma NamespacedName_String_inject: "nn_ok nn \<Longrightarrow> nn_ok mm \<Longrightarrow> NamespacedName_String nn = NamespacedName_String mm \<Longrightarrow> nn = mm"
  using NamespacedNameFromKey_pair [of "fst nn" "snd nn"] NamespacedNameFromKey_pair [of "fst mm" "snd mm"]
  by (simp add: nn_ok_def NamespacedName_String_def)

definition app_key :: "'a ObjectMeta_scheme \<Rightarrow> NamespacedName" where
  "app_key obj = (Namespace obj, label (Labels obj) ''app'')"

lemma enqueueWorkload_app_key: "nn_ok (app_key obj) \<Longrightarrow> enqueueWorkload obj = Ret [app_key obj]"
  using NamespacedNameFromKey_pair [of "Namespace obj" "label (Labels obj) ''app''"]
  by (simp add: nn_ok_def app_key_def enqueueWorkload_def KeyFromObject_def)

lemma truncate_sel [simp]:
  "Namespace (ObjectMeta.truncate obj) = Namespace obj" "Name (ObjectMeta.truncate obj) = Name obj"
  "Labels (ObjectMeta.truncate obj) = Labels obj"
  by (simp_all add: ObjectMeta.truncate_def)

lemma truncate_keys [simp]:
  "app_key (ObjectMeta.truncate obj) = app_key obj" "FilterEvent (ObjectMeta.truncate obj) = FilterEvent obj"
  by (simp_all add: app_key_def FilterEvent_def IsTraceWorkload_def IsWorkload_def)

lemma well_labelled_key:
  "well_labelled d \<Longrightarrow> app_key d = obj_key d \<and> nn_ok (obj_key d) \<and> FilterEvent d"
  by (simp add: well_labelled_def app_key_def obj_key_def nn_ok_def FilterEvent_def IsTraceWorkload_def IsWorkload_def)

lemma matches_label: "matches ls obj \<Longrightarrow> gm_get ls k = Some v \<Longrightarrow> label (Labels obj) k = v"
  by (auto simp: matches_def label_def set_gm_keys gm_get_map_of domIff)

text \<open>A pod selected by a well labelled deployment passes the filter and names that deployment.\<close>

lemma selected_pod:
  assumes "well_labelled d" "selects d pod"
  shows "FilterEvent pod \<and> app_key pod = obj_key d"
  using assms matches_label [of "TemplateLabels d" pod]
  by (simp add: selects_def well_labelled_def app_key_def obj_key_def FilterEvent_def IsTraceWorkload_def IsWorkload_def)

lemma ran_update_filter:
  "\<not> P v \<Longrightarrow> (\<And>w. m k = Some w \<Longrightarrow> \<not> P w) \<Longrightarrow> {x \<in> ran (m(k \<mapsto> v)). P x} = {x \<in> ran m. P x}"
  "(\<And>w. m k = Some w \<Longrightarrow> \<not> P w) \<Longrightarrow> {x \<in> ran (m(k := None)). P x} = {x \<in> ran m. P x}"
  by (auto simp: ran_def split: if_splits) metis+

lemma wanted_frame:
  "ct_pods s' = ct_pods s \<Longrightarrow> wanted isPodReady s' d = wanted isPodReady s d"
  by (simp add: wanted_def)

lemma wanted_PodSet:
  assumes "\<not> selects d pod" "\<And>old. map_of (ct_pods s) nn = Some old \<Longrightarrow> \<not> selects d old" "ct_pods s' = gm_set (ct_pods s) nn pod"
  shows "wanted isPodReady s' d = wanted isPodReady s d"
  unfolding wanted_def assms(3) map_of_gm_set
  by (intro arg_cong [where f = "image _"] ran_update_filter(1)) (use assms(1,2) in auto)

lemma wanted_PodGone:
  assumes "\<And>old. map_of (ct_pods s) nn = Some old \<Longrightarrow> \<not> selects d old" "ct_pods s' = gm_del (ct_pods s) nn"
  shows "wanted isPodReady s' d = wanted isPodReady s d"
  unfolding wanted_def assms(2) map_of_gm_del
  by (intro arg_cong [where f = "image _"] ran_update_filter(2)) (use assms(1) in auto)

lemma length_distinct_keys: "distinct (gm_keys m) \<Longrightarrow> length m = card (dom (map_of m))"
  using distinct_card [of "gm_keys m"] by (simp add: set_gm_keys) (simp add: gm_keys_def)

lemma distinct_gm_del: "distinct (gm_keys m) \<Longrightarrow> distinct (gm_keys (gm_del m k))"
  by (simp add: gm_keys_def gm_del_def distinct_delete)

context controller_runtime
begin

lemma enqueue_Created: "nn_ok (app_key obj) \<Longrightarrow>
    enqueue_event L (Created (ObjectMeta.truncate obj)) = Ret (if FilterEvent obj then [app_key obj] else [])"
  using enqueueWorkload_app_key [of "ObjectMeta.truncate obj"]
  by (simp add: enqueue_event_def Predicate_Created Enqueue_Created)

lemma enqueue_Removed: "nn_ok (app_key obj) \<Longrightarrow>
    enqueue_event L (Removed (ObjectMeta.truncate obj)) = Ret (if FilterEvent obj then [app_key obj] else [])"
  using enqueueWorkload_app_key [of "ObjectMeta.truncate obj"]
  by (simp add: enqueue_event_def Predicate_Removed Enqueue_Removed)

lemma enqueue_Updated:
  assumes "nn_ok (app_key old)" "nn_ok (app_key obj)"
  shows "\<exists>nns. enqueue_event L (Updated (ObjectMeta.truncate old) (ObjectMeta.truncate obj)) = Ret nns
    \<and> set nns = (if FilterEvent obj then {app_key old, app_key obj} else {})"
proof -
  have h: "enqueueWorkload (ObjectMeta.truncate old) = Ret [app_key old]" "enqueueWorkload (ObjectMeta.truncate obj) = Ret [app_key obj]"
    using assms enqueueWorkload_app_key [of "ObjectMeta.truncate old"] enqueueWorkload_app_key [of "ObjectMeta.truncate obj"] by simp_all
  obtain zs where zs: "EnqueueRequestsFromMapFunc L enqueueWorkload (Updated (ObjectMeta.truncate old) (ObjectMeta.truncate obj)) = Ret zs"
      "set zs = {app_key old, app_key obj}"
    using Enqueue_Updated [of enqueueWorkload, OF h] by auto
  show ?thesis
  proof (cases "FilterEvent obj")
    case True
    then show ?thesis
      using zs by (intro exI [of _ zs]) (simp add: enqueue_event_def Predicate_Updated)
  next
    case False
    then show ?thesis
      by (simp add: enqueue_event_def Predicate_Updated)
  qed
qed

lemma enqueue_watch_set:
  assumes "nn_ok (app_key obj)" "\<And>old. map_of store (obj_key obj) = Some old \<Longrightarrow> nn_ok (app_key old)"
  shows "\<exists>nns. enqueue_event L (watch_set store obj) = Ret nns \<and> (\<forall>nn \<in> set nns. nn_ok nn)
    \<and> (FilterEvent obj \<longrightarrow> app_key obj \<in> set nns)"
proof (cases "gm_get store (obj_key obj)")
  case None
  then show ?thesis
    using assms(1) enqueue_Created [of obj] by (simp add: watch_set_def)
next
  case (Some old)
  then show ?thesis
    using assms(1) assms(2) [of old] enqueue_Updated [of old obj] by (auto simp: watch_set_def gm_get_map_of)
qed

end

lemma set_del_nth: "i < length xs \<Longrightarrow> set xs = insert (xs ! i) (set (del_nth i xs))"
  using arg_cong [OF mset_del_nth [of i xs], of set_mset] by simp

section \<open>The invariant of the loop\<close>

context control_loop
begin

lemma foldl_Add:
  "dirty (foldl (wq_Add Q) q nns) = dirty q \<union> set nns"
  "processing (foldl (wq_Add Q) q nns) = processing q"
  "delayed (foldl (wq_Add Q) q nns) = delayed q"
  by (induction nns arbitrary: q) auto

abbreviation ct_next :: "('st, 'e) ct_event \<Rightarrow> ('st, 'm, 't, 'e, 'q) ct_state \<Rightarrow> ('st, 'm, 't, 'e, 'q) ct_state option" where
  "ct_next \<equiv> ct_step L Q S T isPodReady"

abbreviation goal_of :: "('st, 'm, 't, 'e, 'q) ct_state \<Rightarrow> Deployment \<Rightarrow> string set" where
  "goal_of \<equiv> wanted isPodReady"

definition store_ok :: "('st, 'm, 't, 'e, 'q) ct_state \<Rightarrow> bool" where
  "store_ok s \<longleftrightarrow> (\<forall>nn pod. map_of (ct_pods s) nn = Some pod \<longrightarrow> obj_key pod = nn \<and> nn_ok (app_key pod))
     \<and> (\<forall>nn d. map_of (ct_deps s) nn = Some d \<longrightarrow> obj_key d = nn \<and> well_labelled d)
     \<and> (\<forall>ev \<in> set (ct_notes s). \<exists>nns. enqueue_event L ev = Ret nns \<and> (\<forall>nn \<in> set nns. nn_ok nn))"

definition queue_ok :: "('st, 'm, 't, 'e, 'q) ct_state \<Rightarrow> bool" where
  "queue_ok s \<longleftrightarrow> finite (dirty (ct_queue s)) \<and> finite (delayed (ct_queue s))
     \<and> dom (map_of (ct_work s)) = processing (ct_queue s) \<and> distinct (gm_keys (ct_work s))
     \<and> length (ct_work s) \<le> MaxConcurrentReconciles
     \<and> (\<forall>nn \<in> dirty (ct_queue s) \<union> delayed (ct_queue s) \<union> processing (ct_queue s). nn_ok nn)"

definition disp_ok :: "('st, 'm, 't, 'e, 'q) ct_state \<Rightarrow> bool" where
  "disp_ok s \<longleftrightarrow> (\<forall>key ds. map_of (ct_disp s) key = Some ds \<longrightarrow> ds_ok ds
     \<and> (rops_left ds \<noteq> [] \<longrightarrow> (\<exists>nn errs. key = NamespacedName_String nn \<and> map_of (ct_work s) nn = Some (Running errs))))"

definition on_track :: "('st, 'm, 't, 'e, 'q) ct_state \<Rightarrow> NamespacedName \<Rightarrow> Deployment \<Rightarrow> ('m, 't, 'e) disp_sys \<Rightarrow> bool" where
  "on_track s nn d ds =
     (case map_of (ct_work s) nn of
        None \<Rightarrow> planned ds = goal_of s d
      | Some Taken \<Rightarrow> True
      | Some (Got target) \<Rightarrow> target = d
      | Some (Listed pods) \<Rightarrow> (\<lambda>pod. fst (podEndpointKeyFunc pod)) ` set pods = goal_of s d
      | Some (Running errs) \<Rightarrow> errs \<noteq> [] \<or> planned ds = goal_of s d)"

definition served :: "('st, 'm, 't, 'e, 'q) ct_state \<Rightarrow> bool" where
  "served s \<longleftrightarrow> (\<forall>nn d ds. map_of (ct_deps s) nn = Some d \<longrightarrow> map_of (ct_disp s) (NamespacedName_String nn) = Some ds
     \<longrightarrow> nn \<in> announced L dirty delayed s \<or> on_track s nn d ds)"

definition loop_inv :: "('st, 'm, 't, 'e, 'q) ct_state \<Rightarrow> bool" where
  "loop_inv s \<longleftrightarrow> store_ok s \<and> queue_ok s \<and> disp_ok s \<and> served s"

lemma on_track_frame:
  "map_of (ct_work s') nn = map_of (ct_work s) nn \<Longrightarrow> goal_of s' d = goal_of s d \<Longrightarrow> planned ds' = planned ds \<Longrightarrow>
     on_track s' nn d ds' = on_track s nn d ds"
  by (simp add: on_track_def split: option.splits ct_phase.splits)

text \<open>A step that changes nothing a deployment depends on carries its guarantee over.\<close>

definition carried ::
    "('st, 'm, 't, 'e, 'q) ct_state \<Rightarrow> ('st, 'm, 't, 'e, 'q) ct_state \<Rightarrow> NamespacedName \<Rightarrow> Deployment \<Rightarrow> ('m, 't, 'e) disp_sys \<Rightarrow> bool" where
  "carried s s' nn d ds \<longleftrightarrow> map_of (ct_deps s) nn = Some d
     \<and> (\<exists>ds0. map_of (ct_disp s) (NamespacedName_String nn) = Some ds0 \<and> planned ds = planned ds0)
     \<and> (nn \<in> announced L dirty delayed s \<longrightarrow> nn \<in> announced L dirty delayed s')
     \<and> map_of (ct_work s') nn = map_of (ct_work s) nn \<and> goal_of s' d = goal_of s d"

lemma servedI:
  assumes "served s"
    and "\<And>nn d ds. map_of (ct_deps s') nn = Some d \<Longrightarrow> map_of (ct_disp s') (NamespacedName_String nn) = Some ds \<Longrightarrow>
      nn \<in> announced L dirty delayed s' \<or> on_track s' nn d ds \<or> carried s s' nn d ds"
  shows "served s'"
  unfolding served_def
proof (intro allI impI)
  fix nn d ds
  assume "map_of (ct_deps s') nn = Some d" "map_of (ct_disp s') (NamespacedName_String nn) = Some ds"
  from assms(2) [OF this] show "nn \<in> announced L dirty delayed s' \<or> on_track s' nn d ds"
    using assms(1) on_track_frame [of s' nn s d ds] unfolding served_def carried_def by blast
qed

lemma announced_note: "ev \<in> set (ct_notes s) \<Longrightarrow> enqueue_event L ev = Ret nns \<Longrightarrow> nn \<in> set nns \<Longrightarrow> nn \<in> announced L dirty delayed s"
  by (auto simp: announced_def requests_of_def intro!: bexI [of _ ev])

lemma announced_more:
  "ct_queue s' = ct_queue s \<Longrightarrow> set (ct_notes s) \<subseteq> set (ct_notes s') \<Longrightarrow> nn \<in> announced L dirty delayed s \<Longrightarrow> nn \<in> announced L dirty delayed s'"
  by (auto simp: announced_def)

lemma deployment_key: "store_ok s \<Longrightarrow> map_of (ct_deps s) nn = Some d \<Longrightarrow> well_labelled d \<and> nn = obj_key d \<and> nn_ok nn"
  using well_labelled_key unfolding store_ok_def by metis

lemma inv_PodSet:
  assumes "loop_inv s" "cluster_ok s (PodSet pod)" "ct_next (PodSet pod) s = Some s'"
  shows "loop_inv s'"
proof -
  let ?ev = "watch_set (ct_pods s) pod"
  have s': "s' = s\<lparr> ct_pods := gm_set (ct_pods s) (obj_key pod) pod, ct_notes := ct_notes s @ [?ev] \<rparr>"
    using assms(3) by simp
  have st: "store_ok s" and k: "nn_ok (app_key pod)"
    using assms(1,2) by (auto simp: loop_inv_def nn_ok_def app_key_def)
  have old: "Labels old = Labels pod \<and> Namespace old = Namespace pod \<and> nn_ok (app_key old)"
    if "map_of (ct_pods s) (obj_key pod) = Some old" for old
    using that assms(2) st by (auto simp: store_ok_def gm_get_map_of obj_key_def)
  obtain nns where nns: "enqueue_event L ?ev = Ret nns" "\<forall>nn \<in> set nns. nn_ok nn" "FilterEvent pod \<longrightarrow> app_key pod \<in> set nns"
    using enqueue_watch_set [OF k] old by blast
  have "store_ok s'"
    using st k nns s' by (auto simp: store_ok_def obj_key_def split: if_splits)
  moreover have "queue_ok s'" "disp_ok s'"
    using assms(1) by (simp_all add: s' loop_inv_def queue_ok_def disp_ok_def)
  moreover have "served s'"
  proof (rule servedI)
    show "served s"
      using assms(1) by (simp add: loop_inv_def)
    fix nn d ds
    assume d: "map_of (ct_deps s') nn = Some d" "map_of (ct_disp s') (NamespacedName_String nn) = Some ds"
    then have key: "well_labelled d" "nn = obj_key d"
      using deployment_key [OF st] by (auto simp: s')
    show "nn \<in> announced L dirty delayed s' \<or> on_track s' nn d ds \<or> carried s s' nn d ds"
    proof (cases "selects d pod")
      case True
      then have "nn \<in> announced L dirty delayed s'"
        using selected_pod [OF key(1) True] nns(1,3) key(2) by (intro announced_note [where ev = ?ev]) (auto simp: s')
      then show ?thesis ..
    next
      case False
      then have "\<not> selects d old" if "map_of (ct_pods s) (obj_key pod) = Some old" for old
        using old [OF that] by (simp add: selects_def matches_def)
      then have "goal_of s' d = goal_of s d"
        using False by (intro wanted_PodSet [where nn = "obj_key pod"]) (auto simp: s')
      then show ?thesis
        using d announced_more [of s' s nn] by (auto simp: s' carried_def)
    qed
  qed
  ultimately show ?thesis
    by (simp add: loop_inv_def)
qed

lemma disp_okI:
  assumes "disp_ok s" "ct_disp s' = ct_disp s"
    and "\<And>nn errs. map_of (ct_work s) nn = Some (Running errs) \<Longrightarrow> map_of (ct_work s') nn = Some (Running errs)"
  shows "disp_ok s'"
  using assms unfolding disp_ok_def by metis

lemma inv_PodGone:
  assumes "loop_inv s" "ct_next (PodGone mm) s = Some s'"
  shows "loop_inv s'"
proof -
  obtain pod where pod: "map_of (ct_pods s) mm = Some pod"
      "s' = s\<lparr> ct_pods := gm_del (ct_pods s) mm, ct_notes := ct_notes s @ [Removed (ObjectMeta.truncate pod)] \<rparr>"
    using assms(2) by (auto simp: gm_get_map_of split: option.splits)
  note s' = pod(2)
  have st: "store_ok s" and k: "nn_ok (app_key pod)"
    using assms(1) pod(1) unfolding loop_inv_def store_ok_def by blast+
  note ev = enqueue_Removed [OF k]
  have "store_ok s'"
    using st ev k by (auto simp: s' store_ok_def split: if_splits)
  moreover have "queue_ok s'" "disp_ok s'"
    using assms(1) by (simp_all add: s' loop_inv_def queue_ok_def disp_ok_def)
  moreover have "served s'"
  proof (rule servedI)
    show "served s"
      using assms(1) by (simp add: loop_inv_def)
    fix nn d ds
    assume d: "map_of (ct_deps s') nn = Some d" "map_of (ct_disp s') (NamespacedName_String nn) = Some ds"
    then have key: "well_labelled d" "nn = obj_key d"
      using deployment_key [OF st] by (auto simp: s')
    show "nn \<in> announced L dirty delayed s' \<or> on_track s' nn d ds \<or> carried s s' nn d ds"
    proof (cases "selects d pod")
      case True
      then have "nn \<in> announced L dirty delayed s'"
        using selected_pod [OF key(1) True] key(2) by (intro announced_note [OF _ ev]) (auto simp: s')
      then show ?thesis ..
    next
      case False
      then have "goal_of s' d = goal_of s d"
        using pod(1) by (intro wanted_PodGone [where nn = mm]) (auto simp: s')
      then show ?thesis
        using d announced_more [of s' s nn] by (auto simp: s' carried_def)
    qed
  qed
  ultimately show ?thesis
    by (simp add: loop_inv_def)
qed

lemma inv_DepSet:
  assumes "loop_inv s" "cluster_ok s (DepSet d0)" "ct_next (DepSet d0) s = Some s'"
  shows "loop_inv s'"
proof -
  let ?ev = "watch_set (ct_deps s) d0"
  have s': "s' = s\<lparr> ct_deps := gm_set (ct_deps s) (obj_key d0) d0, ct_notes := ct_notes s @ [?ev] \<rparr>"
    using assms(3) by simp
  have st: "store_ok s" and w: "well_labelled d0"
    using assms(1,2) by (auto simp: loop_inv_def)
  have k: "nn_ok (app_key d0)" "app_key d0 = obj_key d0" "FilterEvent d0"
    using well_labelled_key [OF w] by simp_all
  have "nn_ok (app_key old)" if "map_of (ct_deps s) (obj_key d0) = Some old" for old
    using deployment_key [OF st that] well_labelled_key by metis
  then obtain nns where nns: "enqueue_event L ?ev = Ret nns" "\<forall>nn \<in> set nns. nn_ok nn" "obj_key d0 \<in> set nns"
    using enqueue_watch_set [OF k(1)] k by metis
  have "store_ok s'"
    using st w nns s' by (auto simp: store_ok_def split: if_splits)
  moreover have "queue_ok s'" "disp_ok s'"
    using assms(1) by (simp_all add: s' loop_inv_def queue_ok_def disp_ok_def)
  moreover have "served s'"
  proof (rule servedI)
    show "served s"
      using assms(1) by (simp add: loop_inv_def)
    fix nn d ds
    assume d: "map_of (ct_deps s') nn = Some d" "map_of (ct_disp s') (NamespacedName_String nn) = Some ds"
    have "nn \<in> announced L dirty delayed s'" if "nn = obj_key d0"
      using nns that by (intro announced_note [where ev = ?ev]) (auto simp: s')
    moreover have "carried s s' nn d ds" if "nn \<noteq> obj_key d0"
      using d that announced_more [of s' s nn] wanted_frame [of s' s isPodReady d] by (auto simp: s' carried_def)
    ultimately show "nn \<in> announced L dirty delayed s' \<or> on_track s' nn d ds \<or> carried s s' nn d ds"
      by blast
  qed
  ultimately show ?thesis
    by (simp add: loop_inv_def)
qed

lemma inv_DepGone:
  assumes "loop_inv s" "ct_next (DepGone mm) s = Some s'"
  shows "loop_inv s'"
proof -
  obtain d0 where d0: "map_of (ct_deps s) mm = Some d0"
      "s' = s\<lparr> ct_deps := gm_del (ct_deps s) mm, ct_notes := ct_notes s @ [Removed (ObjectMeta.truncate d0)] \<rparr>"
    using assms(2) by (auto simp: gm_get_map_of split: option.splits)
  note s' = d0(2)
  have st: "store_ok s"
    using assms(1) by (simp add: loop_inv_def)
  then have k: "nn_ok (app_key d0)"
    using deployment_key [OF st d0(1)] well_labelled_key by metis
  have "store_ok s'"
    using st enqueue_Removed [OF k] k by (auto simp: s' store_ok_def split: if_splits)
  moreover have "queue_ok s'" "disp_ok s'"
    using assms(1) by (simp_all add: s' loop_inv_def queue_ok_def disp_ok_def)
  moreover have "served s'"
  proof (rule servedI)
    show "served s"
      using assms(1) by (simp add: loop_inv_def)
    show "nn \<in> announced L dirty delayed s' \<or> on_track s' nn d ds \<or> carried s s' nn d ds"
      if "map_of (ct_deps s') nn = Some d" "map_of (ct_disp s') (NamespacedName_String nn) = Some ds" for nn d ds
      using that announced_more [of s' s nn] wanted_frame [of s' s isPodReady d] by (auto simp: s' carried_def split: if_splits)
  qed
  ultimately show ?thesis
    by (simp add: loop_inv_def)
qed

lemma inv_Notify:
  assumes "loop_inv s" "ct_next (Notify i) s = Some s'"
  shows "loop_inv s'"
proof -
  obtain nns where i: "i < length (ct_notes s)" and nns: "enqueue_event L (ct_notes s ! i) = Ret nns"
      "s' = s\<lparr> ct_notes := del_nth i (ct_notes s), ct_queue := foldl (wq_Add Q) (ct_queue s) nns \<rparr>"
    using assms(2) by (auto split: if_splits go.splits)
  note s' = nns(2) and del = set_del_nth [OF i]
  have st: "store_ok s"
    using assms(1) by (simp add: loop_inv_def)
  then have ok: "\<forall>nn \<in> set nns. nn_ok nn"
    using nns(1) i by (auto simp: store_ok_def dest!: bspec [where x = "ct_notes s ! i"])
  have "store_ok s'"
    using st del by (auto simp: s' store_ok_def)
  moreover have "queue_ok s'"
    using assms(1) ok by (auto simp: s' loop_inv_def queue_ok_def foldl_Add)
  moreover have "disp_ok s'"
    using assms(1) by (simp add: s' loop_inv_def disp_ok_def)
  moreover have "announced L dirty delayed s' = announced L dirty delayed s"
    using nns(1) del by (auto simp: s' announced_def foldl_Add requests_of_def)
  then have "served s'"
    using assms(1) on_track_frame [of s' _ s] wanted_frame [of s' s isPodReady] by (simp add: s' loop_inv_def served_def)
  ultimately show ?thesis
    by (simp add: loop_inv_def)
qed

lemma inv_Take:
  assumes "loop_inv s" "ct_next Take s = Some s'"
  shows "loop_inv s'"
proof -
  obtain mm q where len: "length (ct_work s) < MaxConcurrentReconciles" and q: "wq_Get Q (ct_queue s) = Some (mm, q)"
      "s' = s\<lparr> ct_queue := q, ct_work := gm_set (ct_work s) mm Taken \<rparr>"
    using assms(2) by (auto split: if_splits option.splits)
  note s' = q(2)
  have g: "mm \<in> dirty (ct_queue s)" "mm \<notin> processing (ct_queue s)" "dirty q = dirty (ct_queue s) - {mm}"
      "processing q = insert mm (processing (ct_queue s))" "delayed q = delayed (ct_queue s)"
    using wq.Get_takes [OF q(1)] wq.Get_delayed [OF q(1)] by simp_all
  have work: "dom (map_of (ct_work s)) = processing (ct_queue s)" "distinct (gm_keys (ct_work s))"
    using assms(1) by (simp_all add: loop_inv_def queue_ok_def)
  have "store_ok s'"
    using assms(1) by (simp add: s' loop_inv_def store_ok_def)
  moreover have "length (gm_set (ct_work s) mm Taken) = Suc (length (ct_work s))"
  proof -
    have "mm \<notin> dom (map_of (ct_work s))"
      using g(2) work(1) by simp
    then show ?thesis
      using length_distinct_keys [OF work(2)] length_distinct_keys [OF distinct_gm_set [OF work(2)], of mm Taken]
      by (simp add: finite_dom_map_of)
  qed
  then have "queue_ok s'"
    using assms(1) g len distinct_gm_set [OF work(2)] by (auto simp: s' loop_inv_def queue_ok_def)
  moreover have "disp_ok s'"
  proof (rule disp_okI)
    show "disp_ok s" "ct_disp s' = ct_disp s"
      using assms(1) by (simp_all add: s' loop_inv_def)
    show "map_of (ct_work s') nn = Some (Running errs)" if "map_of (ct_work s) nn = Some (Running errs)" for nn errs
      using that domI [of "map_of (ct_work s)" nn] g(2) work(1) by (cases "nn = mm") (simp_all add: s')
  qed
  moreover have "served s'"
  proof (rule servedI)
    show "served s"
      using assms(1) by (simp add: loop_inv_def)
    show "nn \<in> announced L dirty delayed s' \<or> on_track s' nn d ds \<or> carried s s' nn d ds"
      if "map_of (ct_deps s') nn = Some d" "map_of (ct_disp s') (NamespacedName_String nn) = Some ds" for nn d ds
      using that g wanted_frame [of s' s isPodReady d]
      by (cases "nn = mm") (auto simp: s' carried_def on_track_def announced_def)
  qed
  ultimately show ?thesis
    by (simp add: loop_inv_def)
qed

text \<open>One dispatcher changes under its key; a deployment with another key does not notice.\<close>

lemma inv_dispatcher:
  assumes "loop_inv s" "map_of (ct_disp s) key = Some ds0" "s' = s\<lparr> ct_disp := gm_set (ct_disp s) key ds' \<rparr>"
    and "ds_ok ds'" "planned ds' = planned ds0" "rops_left ds' \<noteq> [] \<Longrightarrow> rops_left ds0 \<noteq> []"
  shows "loop_inv s'"
proof -
  note s' = assms(3)
  have "store_ok s'" "queue_ok s'"
    using assms(1) by (simp_all add: s' loop_inv_def store_ok_def queue_ok_def)
  moreover have "disp_ok s'"
    using assms(1,2,4,6) by (auto simp: s' loop_inv_def disp_ok_def split: if_splits)
  moreover have "served s'"
  proof (rule servedI)
    show "served s"
      using assms(1) by (simp add: loop_inv_def)
    show "nn \<in> announced L dirty delayed s' \<or> on_track s' nn d ds \<or> carried s s' nn d ds"
      if "map_of (ct_deps s') nn = Some d" "map_of (ct_disp s') (NamespacedName_String nn) = Some ds" for nn d ds
      using that assms(2,5) wanted_frame [of s' s isPodReady d]
      by (auto simp: s' carried_def announced_def split: if_splits)
  qed
  ultimately show ?thesis
    by (simp add: loop_inv_def)
qed

lemma inv_Disp:
  assumes "loop_inv s" "ct_next (Disp key ev) s = Some s'"
  shows "loop_inv s'"
proof -
  obtain ds0 ds' where ds: "map_of (ct_disp s) key = Some ds0" "ds_step S T ev ds0 = Some ds'" "\<not> starts ev"
      "s' = s\<lparr> ct_disp := gm_set (ct_disp s) key ds' \<rparr>"
    using assms(2) by (auto simp: gm_get_map_of split: if_splits option.splits)
  have ok: "ds_ok ds0"
    using assms(1) ds(1) unfolding loop_inv_def disp_ok_def by blast
  show ?thesis
  proof (rule inv_dispatcher [OF assms(1) ds(1,4)])
    show "ds_ok ds'" "planned ds' = planned ds0"
      using ds_ok_step [OF ok ds(2)] planned_step [OF ok ds(2,3)] by simp_all
    show "rops_left ds0 \<noteq> []" if "rops_left ds' \<noteq> []"
      using that threads_step(1) [OF ds(2,3)] by blast
  qed
qed

lemma idle_rops:
  assumes "loop_inv s" "nn_ok nn" "map_of (ct_disp s) (NamespacedName_String nn) = Some ds" "rops_left ds \<noteq> []"
  shows "\<exists>errs. map_of (ct_work s) nn = Some (Running errs)"
proof -
  obtain mm errs where mm: "NamespacedName_String nn = NamespacedName_String mm" "map_of (ct_work s) mm = Some (Running errs)"
    using assms(1,3,4) unfolding loop_inv_def disp_ok_def by blast
  then have "mm \<in> processing (ct_queue s)"
    using assms(1) by (auto simp: loop_inv_def queue_ok_def)
  then have "nn_ok mm"
    using assms(1) by (simp add: loop_inv_def queue_ok_def del: split_paired_Ball_Sigma)
  then show ?thesis
    using NamespacedName_String_inject [OF assms(2) _ mm(1)] mm(2) by blast
qed

lemma worker_ok: "loop_inv s \<Longrightarrow> map_of (ct_work s) nn = Some ph \<Longrightarrow> nn_ok nn \<and> nn \<in> processing (ct_queue s)"
  unfolding loop_inv_def queue_ok_def by (metis UnCI domI)

text \<open>The steps that move a worker on, and with it perhaps its dispatcher.\<close>

lemma queue_ok_worker:
  assumes "queue_ok s" "map_of (ct_work s) mm = Some ph" "ct_work s' = gm_set (ct_work s) mm ph'" "ct_queue s' = ct_queue s"
  shows "queue_ok s'"
proof -
  have work: "distinct (gm_keys (ct_work s))"
    using assms(1) by (simp add: queue_ok_def)
  have dom: "dom (map_of (gm_set (ct_work s) mm ph')) = dom (map_of (ct_work s))"
    using assms(2) by auto
  have "length (gm_set (ct_work s) mm ph') = length (ct_work s)"
    using length_distinct_keys [OF work] length_distinct_keys [OF distinct_gm_set [OF work]] dom by metis
  then show ?thesis
    using assms(1,3,4) dom distinct_gm_set [OF work] unfolding queue_ok_def by simp
qed

lemma inv_worker:
  assumes "loop_inv s" "map_of (ct_work s) mm = Some ph" "s' = s\<lparr> ct_work := gm_set (ct_work s) mm ph', ct_disp := disp' \<rparr>"
    and "\<And>errs. ph \<noteq> Running errs"
    and "\<And>key. key \<noteq> NamespacedName_String mm \<Longrightarrow> map_of disp' key = map_of (ct_disp s) key"
    and "\<And>ds'. map_of disp' (NamespacedName_String mm) = Some ds' \<Longrightarrow> ds_ok ds' \<and> (rops_left ds' \<noteq> [] \<longrightarrow> (\<exists>errs. ph' = Running errs))"
    and "\<And>d ds'. map_of (ct_deps s) mm = Some d \<Longrightarrow> map_of disp' (NamespacedName_String mm) = Some ds' \<Longrightarrow>
      \<exists>ds. map_of (ct_disp s) (NamespacedName_String mm) = Some ds \<and> (on_track s mm d ds \<longrightarrow> on_track s' mm d ds')"
  shows "loop_inv s'"
proof -
  note s' = assms(3)
  have inv: "store_ok s" "queue_ok s" "disp_ok s" "served s"
    using assms(1) by (simp_all add: loop_inv_def)
  have mm: "nn_ok mm"
    using worker_ok [OF assms(1,2)] by simp
  have ann: "announced L dirty delayed s' = announced L dirty delayed s"
    by (simp add: s' announced_def)
  have "disp_ok s'"
    unfolding disp_ok_def
  proof (intro allI impI)
    fix key ds
    assume ds: "map_of (ct_disp s') key = Some ds"
    show "ds_ok ds \<and> (rops_left ds \<noteq> [] \<longrightarrow> (\<exists>nn errs. key = NamespacedName_String nn \<and> map_of (ct_work s') nn = Some (Running errs)))"
    proof (cases "key = NamespacedName_String mm")
      case True
      moreover have "map_of (ct_work s') mm = Some ph'"
        by (simp add: s')
      ultimately show ?thesis
        using ds assms(6) [of ds] unfolding s' by (auto simp del: map_of_gm_set)
    next
      case False
      then show ?thesis
        using ds assms(2,4,5) inv(3) unfolding s' disp_ok_def by simp metis
    qed
  qed
  moreover have "served s'"
  proof (rule servedI [OF inv(4)])
    fix nn d ds'
    assume d: "map_of (ct_deps s') nn = Some d" "map_of (ct_disp s') (NamespacedName_String nn) = Some ds'"
    show "nn \<in> announced L dirty delayed s' \<or> on_track s' nn d ds' \<or> carried s s' nn d ds'"
    proof (cases "nn = mm")
      case True
      then show ?thesis
        using d assms(7) [of d ds'] inv(4) ann unfolding served_def s' by auto
    next
      case False
      then have "NamespacedName_String nn \<noteq> NamespacedName_String mm"
        using NamespacedName_String_inject [of nn mm] mm deployment_key [OF inv(1), of nn d] d(1) by (auto simp: s')
      then show ?thesis
        using d False assms(5) ann wanted_frame [of s' s isPodReady d] by (simp add: s' carried_def)
    qed
  qed
  moreover have "store_ok s'" "queue_ok s'"
    using inv(1) queue_ok_worker [OF inv(2) assms(2)] by (simp_all add: s' store_ok_def)
  ultimately show ?thesis
    by (simp add: loop_inv_def)
qed

lemma inv_move:
  assumes "loop_inv s" "map_of (ct_work s) mm = Some ph" "s' = s\<lparr> ct_work := gm_set (ct_work s) mm ph' \<rparr>"
    and "\<And>errs. ph \<noteq> Running errs"
    and "\<And>d ds. map_of (ct_deps s) mm = Some d \<Longrightarrow> map_of (ct_disp s) (NamespacedName_String mm) = Some ds \<Longrightarrow>
      on_track s mm d ds \<Longrightarrow> on_track s' mm d ds"
  shows "loop_inv s'"
proof (rule inv_worker [OF assms(1,2), where disp' = "ct_disp s"])
  show "ds_ok ds \<and> (rops_left ds \<noteq> [] \<longrightarrow> (\<exists>errs. ph' = Running errs))"
    if "map_of (ct_disp s) (NamespacedName_String mm) = Some ds" for ds
    using that assms(1,2,4) idle_rops [OF assms(1) _ that] worker_ok [OF assms(1,2)]
    by (auto simp: loop_inv_def disp_ok_def simp del: concat_eq_Nil_conv)
qed (use assms in auto)

lemma inv_GetTarget:
  assumes "loop_inv s" "ct_next (GetTarget mm) s = Some s'"
  shows "loop_inv s'"
proof -
  have w: "map_of (ct_work s) mm = Some Taken" and s': "s' = s\<lparr> ct_work := gm_set (ct_work s) mm (after_Get (cc_Get L (ct_deps s) mm)) \<rparr>"
    using assms(2) by (auto simp: gm_get_map_of split: option.splits ct_phase.splits)
  show ?thesis
    using w by (intro inv_move [OF assms(1) w s']) (auto simp: s' on_track_def after_Get_def Get_cached gm_get_map_of)
qed

lemma key_truncate: "fst (podEndpointKeyFunc (Pod.truncate pod)) = fst (podEndpointKeyFunc pod)"
  by (simp add: podEndpointKeyFunc_def Pod.truncate_def)

lemma inv_ListPods:
  assumes "loop_inv s" "ct_next (ListPods mm) s = Some s'"
  shows "loop_inv s'"
proof -
  obtain target where w: "map_of (ct_work s) mm = Some (Got target)"
    and s': "s' = s\<lparr> ct_work := gm_set (ct_work s) mm (after_List isPodReady (cc_List L (ct_pods s) (Namespace target) (TemplateLabels target))) \<rparr>"
    using assms(2) by (auto simp: gm_get_map_of split: option.splits ct_phase.splits)
  obtain ps where ps: "cc_List L (ct_pods s) (Namespace target) (TemplateLabels target) = Inr ps"
      "set ps = {p \<in> ran (map_of (ct_pods s)). selects target p}"
    using List_cached [of "ct_pods s" "Namespace target" "TemplateLabels target"] by (auto simp: selects_def)
  have "(\<lambda>pod. fst (podEndpointKeyFunc pod)) ` set (map Pod.truncate (filter isPodReady ps)) = goal_of s target"
    unfolding wanted_def using ps(2) by (simp add: image_image key_truncate conj_commute Collect_conj_eq Int_commute)
  then show ?thesis
    using w ps(1) wanted_frame [of s' s isPodReady target]
    by (intro inv_move [OF assms(1) w s']) (auto simp: s' on_track_def after_List_def)
qed

lemma inv_StartDispatcher:
  assumes "loop_inv s" "ct_next (StartDispatcher mm mk) s = Some s'"
  shows "loop_inv s'"
proof -
  let ?key = "NamespacedName_String mm"
  obtain pods where w: "map_of (ct_work s) mm = Some (Listed pods)"
    using assms(2) by (auto simp: gm_get_map_of split: option.splits ct_phase.splits)
  show ?thesis
  proof (cases "map_of (ct_disp s) ?key")
    case None
    then have "s' = s\<lparr> ct_work := gm_set (ct_work s) mm (Running []) \<rparr>"
      using assms(2) w by (simp add: gm_get_map_of Let_def)
    then show ?thesis
      using None by (intro inv_move [OF assms(1) w]) simp_all
  next
    case (Some ds)
    let ?errs = "reconcile_errs S mk pods (ds_pd ds)"
    obtain ds' where ds': "ds_step S T (StartReconcile pods mk) ds = Some ds'"
        "s' = s\<lparr> ct_work := gm_set (ct_work s) mm (Running ?errs), ct_disp := gm_set (ct_disp s) ?key ds' \<rparr>"
      using assms(2) w Some by (auto simp: gm_get_map_of Let_def simp del: ds_step.simps)
    show ?thesis
    proof (rule inv_worker [OF assms(1) w ds'(2)])
      show "ds_ok ds'' \<and> (rops_left ds'' \<noteq> [] \<longrightarrow> (\<exists>errs. Running ?errs = Running errs))"
        if "map_of (gm_set (ct_disp s) ?key ds') ?key = Some ds''" for ds''
        using that assms(1) Some ds_ok_step [OF _ ds'(1)] unfolding loop_inv_def disp_ok_def by auto
      show "\<exists>ds. map_of (ct_disp s) ?key = Some ds \<and> (on_track s mm d ds \<longrightarrow> on_track s' mm d ds'')"
        if "map_of (gm_set (ct_disp s) ?key ds') ?key = Some ds''" for d ds''
        using that w Some planned_start(2) [OF ds'(1)] wanted_frame [of s' s isPodReady d] by (auto simp: ds'(2) on_track_def)
    qed simp_all
  qed
qed

lemma inv_EndReconcile:
  assumes "loop_inv s" "ct_next (EndReconcile mm) s = Some s'"
  shows "loop_inv s'"
proof -
  let ?key = "NamespacedName_String mm"
  obtain errs where w: "map_of (ct_work s) mm = Some (Running errs)"
      and idle: "\<And>ds. map_of (ct_disp s) ?key = Some ds \<Longrightarrow> rops_left ds = []"
      and s': "s' = s\<lparr> ct_work := gm_del (ct_work s) mm, ct_queue := cr_Return L mm errs (ct_queue s) \<rparr>"
    using assms(2) by (auto simp: gm_get_map_of split: option.splits ct_phase.splits if_splits)
  have inv: "store_ok s" "queue_ok s" "disp_ok s" "served s"
    using assms(1) by (simp_all add: loop_inv_def)
  have q: "dirty (ct_queue s') = dirty (ct_queue s)" "processing (ct_queue s') = processing (ct_queue s) - {mm}"
      "delayed (ct_queue s') = (if errs = [] then delayed (ct_queue s) else insert mm (delayed (ct_queue s)))"
    by (simp_all add: s' Return_dirty Return_processing Return_delayed)
  have "length (ct_work s') \<le> length (ct_work s)"
    using length_delete_le [of mm "ct_work s"] by (simp add: s' gm_del_def)
  then have "queue_ok s'"
    using inv(2) q distinct_gm_del [of "ct_work s" mm] worker_ok [OF assms(1) w] by (auto simp: s' queue_ok_def)
  moreover have "disp_ok s'"
    unfolding disp_ok_def
  proof (intro allI impI)
    fix key ds
    assume "map_of (ct_disp s') key = Some ds"
    then have ds: "map_of (ct_disp s) key = Some ds"
      by (simp add: s')
    have "map_of (ct_work s') nn = map_of (ct_work s) nn" if "key = NamespacedName_String nn" "rops_left ds \<noteq> []" for nn
      using that idle ds by (cases "nn = mm") (simp_all add: s' del: concat_eq_Nil_conv)
    then show "ds_ok ds \<and> (rops_left ds \<noteq> [] \<longrightarrow> (\<exists>nn errs. key = NamespacedName_String nn \<and> map_of (ct_work s') nn = Some (Running errs)))"
      using inv(3) ds unfolding disp_ok_def by metis
  qed
  moreover have "served s'"
  proof (rule servedI [OF inv(4)])
    fix nn d ds
    assume d: "map_of (ct_deps s') nn = Some d" "map_of (ct_disp s') (NamespacedName_String nn) = Some ds"
    show "nn \<in> announced L dirty delayed s' \<or> on_track s' nn d ds \<or> carried s s' nn d ds"
    proof (cases "nn = mm")
      case True
      have "mm \<in> announced L dirty delayed s \<or> on_track s mm d ds"
        using inv(4) d True unfolding s' served_def by simp
      then show ?thesis
        using True w q wanted_frame [of s' s isPodReady d] by (auto simp: announced_def on_track_def s')
    next
      case False
      then show ?thesis
        using d q wanted_frame [of s' s isPodReady d] by (auto simp: carried_def announced_def s')
    qed
  qed
  moreover have "store_ok s'"
    using inv(1) by (simp add: s' store_ok_def)
  ultimately show ?thesis
    by (simp add: loop_inv_def)
qed

lemma inv_Ripen:
  assumes "loop_inv s" "ct_next (Ripen mm) s = Some s'"
  shows "loop_inv s'"
proof -
  have s': "s' = s\<lparr> ct_queue := wq_Ripe Q (ct_queue s) mm \<rparr>"
    using assms(2) by simp
  have "announced L dirty delayed s' = announced L dirty delayed s"
    by (auto simp: s' announced_def)
  then show ?thesis
    using assms(1) on_track_frame [of s' _ s] wanted_frame [of s' s isPodReady]
    by (auto simp: s' loop_inv_def store_ok_def queue_ok_def disp_ok_def served_def split: if_splits)
qed

lemma inv_step:
  assumes "loop_inv s" "cluster_ok s ev" "ct_next ev s = Some s'"
  shows "loop_inv s'"
proof (cases ev)
  case (PodSet pod)
  then show ?thesis
    using assms inv_PodSet by blast
next
  case (PodGone nn)
  then show ?thesis
    using assms inv_PodGone by blast
next
  case (DepSet d)
  then show ?thesis
    using assms inv_DepSet by blast
next
  case (DepGone nn)
  then show ?thesis
    using assms inv_DepGone by blast
next
  case (Notify i)
  then show ?thesis
    using assms inv_Notify by blast
next
  case Take
  then show ?thesis
    using assms inv_Take by blast
next
  case (GetTarget nn)
  then show ?thesis
    using assms inv_GetTarget by blast
next
  case (ListPods nn)
  then show ?thesis
    using assms inv_ListPods by blast
next
  case (StartDispatcher nn mk)
  then show ?thesis
    using assms inv_StartDispatcher by blast
next
  case (EndReconcile nn)
  then show ?thesis
    using assms inv_EndReconcile by blast
next
  case (Ripen nn)
  then show ?thesis
    using assms inv_Ripen by blast
next
  case (Disp key dev)
  then show ?thesis
    using assms inv_Disp by blast
qed

lemma inv_reachable:
  "ct_reachable L Q S T isPodReady s0 s \<Longrightarrow> loop_inv s0 \<Longrightarrow> loop_inv s"
  by (induction rule: ct_reachable.induct) (blast intro: inv_step)+

lemma inv_init:
  assumes "\<And>key pd. map_of pds key = Some pd \<Longrightarrow> \<exists>tgt tmo. pd = NewPodDispatcher S T tgt tmo"
  shows "loop_inv (ct_init Q pds)"
proof -
  have "ds_ok ds \<and> rops_left ds = []" if "map_of (map (\<lambda>(key, pd). (key, ds_init pd)) pds) key = Some ds" for key and ds :: "('m, 't, 'e) disp_sys"
  proof -
    obtain pd where "map_of pds key = Some pd" "ds = ds_init pd"
      using \<open>map_of (map (\<lambda>(key, pd). (key, ds_init pd)) pds) key = Some ds\<close> by (auto simp: map_of_map split: option.splits)
    then show ?thesis
      using assms ds_ok_new by (auto simp: ds_init_def)
  qed
  then show ?thesis
    by (auto simp: loop_inv_def store_ok_def queue_ok_def disp_ok_def served_def ct_init_def gm_keys_def
        simp del: concat_eq_Nil_conv)
qed

end

section \<open>Settling down\<close>

text \<open>
  The steps of the loop itself, when nothing in the cluster changes and every backend starts: the
  delivery of events, the timers of the queue and the workers with the goroutines they start.
\<close>

definition backends_start :: "'e backends \<Rightarrow> bool" where
  "backends_start mk \<longleftrightarrow> (\<forall>ep. \<exists>e. mk ep = Ret (Inr e))"

fun loop_event :: "('q \<Rightarrow> NamespacedName set) \<Rightarrow> ('st, 'm, 't, 'e, 'q) ct_state \<Rightarrow> ('st, 'e) ct_event \<Rightarrow> bool" where
  "loop_event delayed s (Notify i) \<longleftrightarrow> True"
| "loop_event delayed s Take \<longleftrightarrow> True"
| "loop_event delayed s (GetTarget nn) \<longleftrightarrow> True"
| "loop_event delayed s (ListPods nn) \<longleftrightarrow> True"
| "loop_event delayed s (StartDispatcher nn mk) \<longleftrightarrow> backends_start mk"
| "loop_event delayed s (EndReconcile nn) \<longleftrightarrow> True"
| "loop_event delayed s (Ripen nn) \<longleftrightarrow> nn \<in> delayed (ct_queue s)"
| "loop_event delayed s (Disp key (RunOp i)) \<longleftrightarrow> True"
| "loop_event delayed s _ \<longleftrightarrow> False"

inductive loop_step ::
    "('st, 'q) ctrl_lib \<Rightarrow> (NamespacedName, 'q) ratequeue \<Rightarrow> ('m, 'e) sharedMap \<Rightarrow> (string, 't) chann \<Rightarrow> ('st cached_pod \<Rightarrow> bool)
       \<Rightarrow> ('q \<Rightarrow> NamespacedName set) \<Rightarrow> ('st, 'm, 't, 'e, 'q) ct_state \<Rightarrow> ('st, 'm, 't, 'e, 'q) ct_state \<Rightarrow> bool"
  for L Q S T isPodReady delayed where
  step: "loop_event delayed s ev \<Longrightarrow> ct_step L Q S T isPodReady ev s = Some s' \<Longrightarrow> loop_step L Q S T isPodReady delayed s s'"

inductive_cases loop_stepE: "loop_step L Q S T isPodReady delayed s s'"

definition settled ::
    "('q \<Rightarrow> NamespacedName set) \<Rightarrow> ('q \<Rightarrow> NamespacedName set) \<Rightarrow> ('q \<Rightarrow> NamespacedName set) \<Rightarrow> ('st, 'm, 't, 'e, 'q) ct_state \<Rightarrow> bool" where
  "settled dirty processing delayed s \<longleftrightarrow> ct_notes s = [] \<and> dirty (ct_queue s) = {} \<and> processing (ct_queue s) = {} \<and> delayed (ct_queue s) = {}"

text \<open>A weighted sum over a map.\<close>

definition msum :: "('v \<Rightarrow> nat) \<Rightarrow> ('k \<rightharpoonup> 'v) \<Rightarrow> nat" where
  "msum f m = (\<Sum>k \<in> dom m. f (the (m k)))"

lemma msum_remove: "finite (dom m) \<Longrightarrow> m k = Some v \<Longrightarrow> msum f m = f v + msum f (m(k := None))"
proof -
  assume "finite (dom m)" "m k = Some v"
  then have "msum f m = f v + (\<Sum>x \<in> dom m - {k}. f (the (m x)))"
    by (simp add: msum_def sum.remove [of "dom m" k] domI)
  then show ?thesis
    by (simp add: msum_def)
qed

lemma msum_update: "finite (dom m) \<Longrightarrow> msum f (m(k \<mapsto> v)) = f v + msum f (m(k := None))"
  using msum_remove [of "m(k \<mapsto> v)" k v f] by simp

lemma msum_fresh: "m k = None \<Longrightarrow> msum f (m(k := None)) = msum f m"
  by (simp add: fun_upd_idem)

lemmas msum_maps = finite_dom_map_of msum_update

fun rank :: "ct_phase \<Rightarrow> nat" where
  "rank Taken = 4"
| "rank (Got d) = 3"
| "rank (Listed pods) = 2"
| "rank (Running errs) = 1"

fun failing :: "ct_phase \<Rightarrow> nat" where
  "failing (Running errs) = (if errs = [] then 0 else 1)"
| "failing _ = 0"

lemma backends_start_errs: "backends_start mk \<Longrightarrow> reconcile_errs S mk pods pd = []"
  by (auto simp: backends_start_def reconcile_errs_def add_err_def Let_def split: go.splits sum.splits) (metis go.inject(1) old.sum.distinct(2))

lemma backends_start_threads: "backends_start mk \<Longrightarrow> \<exists>ts. reconcile_threads S mk pods pd = Ret ts"
proof -
  assume mk: "backends_start mk"
  have "\<exists>rops. add_rops mk eps key = Ret rops" for eps key
    using mk by (auto simp: add_rops_def backends_start_def split: go.splits sum.splits) (metis go.distinct(1))
  then have "\<exists>ts. map (add_rops mk eps) keys = map Ret ts" for eps keys
    by (induction keys) (auto, metis list.simps(9))
  then show ?thesis
    by (auto simp: reconcile_threads_def Let_def go_bind_eq_Ret go_all_Ret split: prod.splits)
qed

context control_loop
begin

definition loop_measure :: "(('st, 'm, 't, 'e, 'q) ct_state \<times> ('st, 'm, 't, 'e, 'q) ct_state) set" where
  "loop_measure = measures
     [\<lambda>s. length (ct_notes s),
      \<lambda>s. 2 * msum failing (map_of (ct_work s)) + card (delayed (ct_queue s)),
      \<lambda>s. card (dirty (ct_queue s)),
      \<lambda>s. msum rank (map_of (ct_work s)),
      \<lambda>s. msum (\<lambda>ds. length (rops_left ds)) (map_of (ct_disp s))]"

lemma work_step:
  assumes "map_of (ct_work s) nn = Some ph" "ct_work s' = gm_set (ct_work s) nn ph'" "ct_notes s' = ct_notes s" "ct_queue s' = ct_queue s"
    and "failing ph' = failing ph" "rank ph' < rank ph"
  shows "(s', s) \<in> loop_measure"
  using assms msum_remove [OF finite_dom_map_of assms(1), of failing] msum_remove [OF finite_dom_map_of assms(1), of rank]
  by (simp add: loop_measure_def msum_maps)

lemma decreases_Take:
  assumes "loop_inv s" "ct_next Take s = Some s'"
  shows "(s', s) \<in> loop_measure"
proof -
  obtain nn q where q: "wq_Get Q (ct_queue s) = Some (nn, q)" "s' = s\<lparr> ct_queue := q, ct_work := gm_set (ct_work s) nn Taken \<rparr>"
    using assms(2) by (auto split: if_splits option.splits)
  have g: "nn \<in> dirty (ct_queue s)" "nn \<notin> processing (ct_queue s)" "dirty q = dirty (ct_queue s) - {nn}" "delayed q = delayed (ct_queue s)"
    using wq.Get_takes [OF q(1)] wq.Get_delayed [OF q(1)] by simp_all
  have "map_of (ct_work s) nn = None" "finite (dirty (ct_queue s))"
    using assms(1) g(2) by (auto simp: loop_inv_def queue_ok_def)
  then have "msum failing (map_of (ct_work s')) = msum failing (map_of (ct_work s))" "card (dirty (ct_queue s')) < card (dirty (ct_queue s))"
    using g card_Diff1_less [of "dirty (ct_queue s)" nn] by (simp_all add: q(2) msum_maps msum_fresh del: card_Diff_insert card_Diff_singleton_if)
  then show ?thesis
    using g by (simp add: loop_measure_def q(2))
qed

lemma decreases_RunOp:
  assumes "ct_next (Disp key (RunOp i)) s = Some s'"
  shows "(s', s) \<in> loop_measure"
proof -
  obtain ds ds' where ds: "map_of (ct_disp s) key = Some ds" "ds_step S T (RunOp i) ds = Some ds'" "s' = s\<lparr> ct_disp := gm_set (ct_disp s) key ds' \<rparr>"
    using assms by (auto simp: gm_get_map_of simp del: ds_step.simps split: option.splits)
  obtain rop rops where i: "i < length (ds_threads ds)" "ds_threads ds ! i = rop # rops" "ds_threads ds' = (ds_threads ds)[i := rops]"
    using ds(2) by (auto split: if_splits list.splits prod.splits)
  have "length (rops_left ds) = Suc (length (rops_left ds'))"
    using arg_cong [OF id_take_nth_drop [OF i(1)], of "\<lambda>ts. length (concat ts)"] i by (simp add: upd_conv_take_nth_drop)
  then show ?thesis
    using msum_remove [OF finite_dom_map_of ds(1), of "\<lambda>ds. length (rops_left ds)"]
    by (simp add: loop_measure_def ds(3) msum_maps)
qed

lemma loop_decreases:
  assumes "loop_inv s" "loop_event delayed s ev" "ct_next ev s = Some s'"
  shows "(s', s) \<in> loop_measure"
proof (cases ev)
  case (Notify i)
  then show ?thesis
    using assms(3) by (auto simp: loop_measure_def del_nth_def split: if_splits go.splits)
next
  case Take
  then show ?thesis
    using assms decreases_Take by blast
next
  case (GetTarget nn)
  then have w: "map_of (ct_work s) nn = Some Taken" "s' = s\<lparr> ct_work := gm_set (ct_work s) nn (after_Get (cc_Get L (ct_deps s) nn)) \<rparr>"
    using assms(3) by (auto simp: gm_get_map_of split: option.splits ct_phase.splits)
  show ?thesis
    by (rule work_step [OF w(1)]) (auto simp: w(2) after_Get_def Get_cached split: option.splits)
next
  case (ListPods nn)
  then obtain target where w: "map_of (ct_work s) nn = Some (Got target)"
      "s' = s\<lparr> ct_work := gm_set (ct_work s) nn (after_List isPodReady (cc_List L (ct_pods s) (Namespace target) (TemplateLabels target))) \<rparr>"
    using assms(3) by (auto simp: gm_get_map_of split: option.splits ct_phase.splits)
  show ?thesis
    by (rule work_step [OF w(1)]) (auto simp: w(2) after_List_def Let_def)
next
  case (StartDispatcher nn mk)
  then have mk: "backends_start mk"
    using assms(2) by simp
  obtain pods where w: "map_of (ct_work s) nn = Some (Listed pods)" "ct_work s' = gm_set (ct_work s) nn (Running [])"
      "ct_notes s' = ct_notes s" "ct_queue s' = ct_queue s"
    using assms(3) StartDispatcher
    by (auto simp: gm_get_map_of Let_def backends_start_errs [OF mk] simp del: ds_step.simps split: option.splits ct_phase.splits)
  show ?thesis
    by (rule work_step [OF w]) simp_all
next
  case (EndReconcile nn)
  then obtain errs where w: "map_of (ct_work s) nn = Some (Running errs)"
      "s' = s\<lparr> ct_work := gm_del (ct_work s) nn, ct_queue := cr_Return L nn errs (ct_queue s) \<rparr>"
    using assms(3) by (auto simp: gm_get_map_of split: option.splits ct_phase.splits if_splits)
  have "finite (delayed (ct_queue s))"
    using assms(1) by (simp add: loop_inv_def queue_ok_def)
  then show ?thesis
    using msum_remove [OF finite_dom_map_of w(1), of failing] msum_remove [OF finite_dom_map_of w(1), of rank]
    by (auto simp: loop_measure_def w(2) Return_dirty Return_delayed card_insert_if)
next
  case (Ripen nn)
  then have "nn \<in> delayed (ct_queue s)" "finite (delayed (ct_queue s))" "s' = s\<lparr> ct_queue := wq_Ripe Q (ct_queue s) nn \<rparr>"
    using assms by (auto simp: loop_inv_def queue_ok_def)
  then show ?thesis
    using card_Diff1_less [of "delayed (ct_queue s)" nn] by (simp add: loop_measure_def del: card_Diff_insert card_Diff_singleton_if)
next
  case (Disp key dev)
  then show ?thesis
    using assms(2,3) decreases_RunOp by (cases dev) auto
qed (use assms in auto)

lemma loop_inv_sels:
  assumes "loop_inv s"
  shows "dom (map_of (ct_work s)) = processing (ct_queue s)"
    and "ct_work s = [] \<longleftrightarrow> processing (ct_queue s) = {}"
proof -
  show *: "dom (map_of (ct_work s)) = processing (ct_queue s)"
    using assms by (simp add: loop_inv_def queue_ok_def)
  show "ct_work s = [] \<longleftrightarrow> processing (ct_queue s) = {}"
    unfolding * [symmetric] dom_map_of_conv_image_fst by simp
qed

lemma worker_moves:
  assumes "loop_inv s" "map_of (ct_work s) nn = Some ph"
  shows "\<exists>ev s'. loop_event delayed s ev \<and> ct_next ev s = Some s'"
proof (cases ph)
  case Taken
  then show ?thesis
    using assms(2) by (intro exI [of _ "GetTarget nn"]) (simp add: gm_get_map_of)
next
  case (Got target)
  then show ?thesis
    using assms(2) by (intro exI [of _ "ListPods nn"]) (simp add: gm_get_map_of)
next
  case (Listed pods)
  define mk :: "'e backends" where "mk = (\<lambda>ep. Ret (Inr undefined))"
  have mk: "backends_start mk"
    by (simp add: backends_start_def mk_def)
  have "\<exists>ds'. ds_step S T (StartReconcile pods mk) ds = Some ds'" if "map_of (ct_disp s) (NamespacedName_String nn) = Some ds" for ds
  proof -
    have "rops_left ds = []"
      using idle_rops [OF assms(1) _ that] worker_ok [OF assms] assms(2) Listed by auto
    then show ?thesis
      using backends_start_threads [OF mk, of S pods "ds_pd ds"] by (auto simp del: concat_eq_Nil_conv)
  qed
  then have "\<exists>s'. ct_next (StartDispatcher nn mk) s = Some s'"
    using assms(2) Listed
    by (cases "map_of (ct_disp s) (NamespacedName_String nn)") (auto simp: gm_get_map_of Let_def simp del: ds_step.simps)
  then show ?thesis
    using mk by (intro exI [of _ "StartDispatcher nn mk"]) simp
next
  case (Running errs)
  let ?key = "NamespacedName_String nn"
  show ?thesis
  proof (cases "\<exists>ds. map_of (ct_disp s) ?key = Some ds \<and> rops_left ds \<noteq> []")
    case True
    then obtain ds where ds: "map_of (ct_disp s) ?key = Some ds" "rops_left ds \<noteq> []"
      by blast
    then obtain i rop rops where "i < length (ds_threads ds)" "ds_threads ds ! i = rop # rops"
      by (auto simp: in_set_conv_nth neq_Nil_conv)
    then have "\<exists>ds'. ds_step S T (RunOp i) ds = Some ds'"
      by (auto split: prod.splits)
    then show ?thesis
      using ds(1) by (intro exI [of _ "Disp ?key (RunOp i)"]) (auto simp: gm_get_map_of simp del: ds_step.simps)
  next
    case False
    then show ?thesis
      using assms(2) Running
      by (intro exI [of _ "EndReconcile nn"]) (auto simp: gm_get_map_of simp del: concat_eq_Nil_conv split: option.splits)
  qed
qed

lemma loop_progress:
  assumes "loop_inv s" "\<not> settled dirty processing delayed s"
  shows "\<exists>ev s'. loop_event delayed s ev \<and> ct_next ev s = Some s'"
proof -
  consider (Note) ev evs where "ct_notes s = ev # evs" | (Delay) nn where "nn \<in> delayed (ct_queue s)"
    | (Work) nn ph where "map_of (ct_work s) nn = Some ph" | (Dirty) "dirty (ct_queue s) \<noteq> {}" "processing (ct_queue s) = {}"
    using assms loop_inv_sels(1) [OF assms(1)] unfolding settled_def by (metis all_not_in_conv domD neq_Nil_conv)
  then show ?thesis
  proof cases
    case Note
    then obtain nns where "enqueue_event L ev = Ret nns"
      using assms(1) by (auto simp: loop_inv_def store_ok_def)
    then show ?thesis
      using Note by (intro exI [of _ "Notify 0"]) simp
  next
    case Delay
    then show ?thesis
      by (intro exI [of _ "Ripen nn"]) simp
  next
    case Work
    then show ?thesis
      by (rule worker_moves [OF assms(1)])
  next
    case Dirty
    then have "ct_work s = []" "wq_Get Q (ct_queue s) \<noteq> None"
      using loop_inv_sels(2) [OF assms(1)] wq.Get_blocks [of "ct_queue s"] by auto
    then show ?thesis
      by (intro exI [of _ Take]) (auto simp: MaxConcurrentReconciles_def)
  qed
qed

abbreviation step_rel :: "('st, 'm, 't, 'e, 'q) ct_state \<Rightarrow> ('st, 'm, 't, 'e, 'q) ct_state \<Rightarrow> bool" where
  "step_rel \<equiv> loop_step L Q S T isPodReady delayed"

lemma loop_event_frame:
  assumes "loop_event delayed s ev" "ct_next ev s = Some s'"
  shows "cluster_ok s ev \<and> ct_pods s' = ct_pods s \<and> ct_deps s' = ct_deps s"
  using assms by (cases ev) (auto simp: Let_def simp del: ds_step.simps split: if_splits go.splits option.splits ct_phase.splits prod.splits)

lemma loop_steps:
  assumes "step_rel\<^sup>*\<^sup>* s s'" "loop_inv s"
  shows "loop_inv s' \<and> ct_pods s' = ct_pods s \<and> ct_deps s' = ct_deps s"
  using assms
proof (induction rule: rtranclp_induct)
  case (step s1 s2)
  then obtain ev where ev: "loop_event delayed s1 ev" "ct_next ev s1 = Some s2"
    by (blast elim: loop_stepE)
  show ?case
    using step loop_event_frame [OF ev] inv_step [OF _ _ ev(2)] by simp
qed simp

lemma loop_terminates:
  assumes "loop_inv (f 0)"
  shows "\<not> (\<forall>i. step_rel (f i) (f (Suc i)))"
proof
  assume step: "\<forall>i. step_rel (f i) (f (Suc i))"
  have "step_rel\<^sup>*\<^sup>* (f 0) (f i)" for i
    by (induction i) (auto intro: rtranclp.rtrancl_into_rtrancl step [rule_format])
  then have "loop_inv (f i)" for i
    using loop_steps assms by blast
  then have "(f (Suc i), f i) \<in> loop_measure" for i
    using step loop_decreases by (metis loop_stepE)
  then show False
    using wf_iff_no_infinite_down_chain [of loop_measure] wf_measures unfolding loop_measure_def by blast
qed

lemma settled_right:
  assumes "loop_inv s" "map_of (ct_deps s) nn = Some d" "map_of (ct_disp s) (NamespacedName_String nn) = Some ds"
    and "nn \<notin> announced L dirty delayed s" "nn \<notin> processing (ct_queue s)"
  shows "{k. sm_Get S (endpoints (ds_pd ds)) k \<noteq> None} = goal_of s d"
    and "\<forall>k \<in> goal_of s d. k \<in> set (items (tokens (ds_pd ds))) \<or> k \<in> fst ` set (ds_running ds)"
proof -
  have w: "map_of (ct_work s) nn = None"
    using assms(5) loop_inv_sels(1) [OF assms(1)] by blast
  have "nn_ok nn"
    using deployment_key [of s nn d] assms(1,2) unfolding loop_inv_def by blast
  then have idle: "rops_left ds = []"
    using idle_rops [OF assms(1) _ assms(3)] w by auto
  moreover have "on_track s nn d ds"
    using assms(1,2,3,4) unfolding loop_inv_def served_def by blast
  then have "planned ds = goal_of s d"
    using w by (simp add: on_track_def)
  ultimately show dom: "{k. sm_Get S (endpoints (ds_pd ds)) k \<noteq> None} = goal_of s d"
    using planned_idle by (simp add: dom_def)
  have "token_inv ds"
    using assms(1,3) by (auto simp: loop_inv_def disp_ok_def ds_ok_def)
  moreover have "slots items ds k = count_list (items (tokens (ds_pd ds))) k + count_list (map fst (ds_running ds)) k" for k
    using arg_cong [OF idle, of "\<lambda>xs. count_list xs (PutToken k)"] by (simp add: slots_def del: concat_eq_Nil_conv)
  ultimately have "k \<in> set (items (tokens (ds_pd ds))) \<or> k \<in> fst ` set (ds_running ds)" if "sm_Get S (endpoints (ds_pd ds)) k \<noteq> None" for k
    using that unfolding token_inv_def by (metis Get_inner add_is_0 count_notin image_set less_numeral_extra(3))
  then show "\<forall>k \<in> goal_of s d. k \<in> set (items (tokens (ds_pd ds))) \<or> k \<in> fst ` set (ds_running ds)"
    using dom by blast
qed

lemma disp_dom_step: "ct_next ev s = Some s' \<Longrightarrow> dom (map_of (ct_disp s')) = dom (map_of (ct_disp s))"
  by (cases ev) (auto simp: Let_def gm_get_map_of simp del: ds_step.simps split: if_splits go.splits option.splits ct_phase.splits prod.splits)

lemma disp_dom_reachable: "ct_reachable L Q S T isPodReady s0 s \<Longrightarrow> dom (map_of (ct_disp s)) = dom (map_of (ct_disp s0))"
  by (induction rule: ct_reachable.induct) (simp_all only: disp_dom_step)

lemma disp_dom_loop: "step_rel\<^sup>*\<^sup>* s s' \<Longrightarrow> dom (map_of (ct_disp s')) = dom (map_of (ct_disp s))"
  by (induction rule: rtranclp_induct) (simp, metis loop_stepE disp_dom_step)

end

section \<open>Runs\<close>

text \<open>A run on a list of events, \<open>None\<close> when one of them cannot happen.\<close>

fun ct_run ::
    "('st, 'q) ctrl_lib \<Rightarrow> (NamespacedName, 'q) ratequeue \<Rightarrow> ('m, 'e) sharedMap \<Rightarrow> (string, 't) chann \<Rightarrow> ('st cached_pod \<Rightarrow> bool)
       \<Rightarrow> ('st, 'e) ct_event list \<Rightarrow> ('st, 'm, 't, 'e, 'q) ct_state \<Rightarrow> ('st, 'm, 't, 'e, 'q) ct_state option" where
  "ct_run L Q S T isPodReady [] s = Some s"
| "ct_run L Q S T isPodReady (ev # evs) s =
     (if cluster_ok s ev then
        case ct_step L Q S T isPodReady ev s of None \<Rightarrow> None | Some s' \<Rightarrow> ct_run L Q S T isPodReady evs s'
      else None)"

lemma ct_reachable_trans:
  "ct_reachable L Q S T isPodReady s1 s2 \<Longrightarrow> ct_reachable L Q S T isPodReady s0 s1 \<Longrightarrow> ct_reachable L Q S T isPodReady s0 s2"
  by (induction rule: ct_reachable.induct) (blast intro: ct_reachable.step)+

lemma ct_run_reachable: "ct_run L Q S T isPodReady evs s = Some s' \<Longrightarrow> ct_reachable L Q S T isPodReady s s'"
proof (induction evs arbitrary: s)
  case (Cons ev evs)
  then obtain s1 where "cluster_ok s ev" "ct_step L Q S T isPodReady ev s = Some s1" "ct_run L Q S T isPodReady evs s1 = Some s'"
    by (auto split: if_splits option.splits)
  then show ?case
    using Cons.IH ct_reachable_trans ct_reachable.step [OF ct_reachable.start] by metis
qed (simp add: ct_reachable.start)

section \<open>A deployment that is gone\<close>

context control_loop
begin

definition orphan :: "('st, 'm, 't, 'e, 'q) ct_state \<Rightarrow> NamespacedName \<Rightarrow> 'm \<Rightarrow> bool" where
  "orphan s nn m \<longleftrightarrow> map_of (ct_deps s) nn = None
     \<and> (\<exists>ds. map_of (ct_disp s) (NamespacedName_String nn) = Some ds \<and> rops_left ds = [] \<and> endpoints (ds_pd ds) = m)
     \<and> (case map_of (ct_work s) nn of Some (Got d) \<Rightarrow> False | Some (Listed pods) \<Rightarrow> False | _ \<Rightarrow> True)"

lemma orphan_StartDispatcher:
  assumes "loop_inv s" "nn_ok nn" "orphan s nn m" "ct_next (StartDispatcher mm mk) s = Some s'"
  shows "orphan s' nn m"
proof -
  obtain pods where w: "map_of (ct_work s) mm = Some (Listed pods)"
    using assms(4) by (auto simp: gm_get_map_of split: option.splits ct_phase.splits)
  then have "nn \<noteq> mm"
    using assms(3) by (auto simp: orphan_def)
  moreover from this have "NamespacedName_String nn \<noteq> NamespacedName_String mm"
    using NamespacedName_String_inject [OF assms(2)] worker_ok [OF assms(1) w] by blast
  ultimately show ?thesis
    using assms(3,4) w
    by (auto simp: orphan_def gm_get_map_of Let_def simp del: ds_step.simps concat_eq_Nil_conv split: option.splits)
qed

lemma orphan_Disp:
  assumes "orphan s nn m" "ct_next (Disp key ev) s = Some s'"
  shows "orphan s' nn m"
proof -
  obtain ds ds' where ds: "map_of (ct_disp s) key = Some ds" "ds_step S T ev ds = Some ds'" "\<not> starts ev"
      "s' = s\<lparr> ct_disp := gm_set (ct_disp s) key ds' \<rparr>"
    using assms(2) by (auto simp: gm_get_map_of simp del: ds_step.simps split: if_splits option.splits)
  show ?thesis
    using assms(1) ds(1) threads_step [OF ds(2,3)] by (auto simp: ds(4) orphan_def simp del: concat_eq_Nil_conv)
qed

lemma orphan_step:
  assumes "loop_inv s" "nn_ok nn" "orphan s nn m" "ct_next ev s = Some s'" "\<And>d. ev = DepSet d \<Longrightarrow> obj_key d \<noteq> nn"
  shows "orphan s' nn m"
proof (cases ev)
  case (Take)
  then show ?thesis
    using assms(3,4) by (auto simp: orphan_def simp del: concat_eq_Nil_conv split: if_splits option.splits)
next
  case (GetTarget mm)
  then show ?thesis
    using assms(3,4)
    by (cases "nn = mm") (auto simp: orphan_def gm_get_map_of Get_cached after_Get_def simp del: concat_eq_Nil_conv split: option.splits ct_phase.splits)
next
  case (ListPods mm)
  then show ?thesis
    using assms(3,4)
    by (cases "nn = mm") (auto simp: orphan_def gm_get_map_of simp del: concat_eq_Nil_conv split: option.splits ct_phase.splits)
next
  case (StartDispatcher mm mk)
  then show ?thesis
    using assms orphan_StartDispatcher by blast
next
  case (EndReconcile mm)
  then show ?thesis
    using assms(3,4)
    by (cases "nn = mm") (auto simp: orphan_def gm_get_map_of simp del: concat_eq_Nil_conv split: option.splits ct_phase.splits if_splits)
next
  case (Disp key dev)
  then show ?thesis
    using assms orphan_Disp by blast
qed (use assms(3-5) in \<open>auto simp: orphan_def gm_get_map_of simp del: concat_eq_Nil_conv split: if_splits go.splits option.splits\<close>)

lemma orphan_run:
  assumes "ct_run L Q S T isPodReady evs s = Some s'" "loop_inv s" "nn_ok nn" "orphan s nn m" "\<forall>d. DepSet d \<in> set evs \<longrightarrow> obj_key d \<noteq> nn"
  shows "orphan s' nn m"
  using assms
proof (induction evs arbitrary: s)
  case (Cons ev evs)
  then obtain s1 where s1: "cluster_ok s ev" "ct_next ev s = Some s1" "ct_run L Q S T isPodReady evs s1 = Some s'"
    by (auto split: if_splits option.splits)
  moreover have "loop_inv s1"
    using inv_step Cons.prems(2) s1(1,2) by blast
  moreover have "orphan s1 nn m"
    using orphan_step [OF Cons.prems(2,3,4) s1(2)] Cons.prems(5) by auto
  ultimately show ?case
    using Cons.IH [of s1] Cons.prems(3,5) by auto
qed simp

lemma orphaned:
  assumes "loop_inv s" "map_of (ct_deps s) nn = Some d" "map_of (ct_disp s) (NamespacedName_String nn) = Some ds"
    and "nn \<notin> processing (ct_queue s)" "ct_next (DepGone nn) s = Some s'"
  shows "nn_ok nn \<and> orphan s' nn (endpoints (ds_pd ds))"
proof -
  have w: "map_of (ct_work s) nn = None"
    using assms(4) loop_inv_sels(1) [OF assms(1)] by blast
  have ok: "nn_ok nn"
    using deployment_key [of s nn d] assms(1,2) unfolding loop_inv_def by blast
  then have "rops_left ds = []"
    using idle_rops [OF assms(1) _ assms(3)] w by auto
  then show ?thesis
    using assms(2,3,5) w ok by (auto simp: orphan_def gm_get_map_of simp del: concat_eq_Nil_conv)
qed

end

section \<open>The loop over a gateway that is set up\<close>

lemma setup_dispatchers:
  assumes "NewK8sGateway CS timeout fw cfg = Inr g" "k8s_SetUpWithManager CQ CS S T QA B W (Inr targets) g = Ret (Inr g')"
  shows "map_of (dispatchers g') key = (if key \<in> KeyFromObject ` set targets then Some (NewPodDispatcher S T key timeout) else None)"
proof -
  have g: "dispatchers g = []" "dispatchTimeout g = timeout"
    using assms(1) by (auto simp: NewK8sGateway_def split: sum.splits)
  have "dispatchers g' = dispatchers (register_all CQ CS S T targets g)"
    using assms(2) by (auto simp: k8s_SetUpWithManager_def Let_def go_bind_eq_Ret split: option.splits)
  then show ?thesis
    using g by (simp add: register_all_impl)
qed

context control_loop
begin

lemma gateway_inv:
  assumes "NewK8sGateway CS timeout fw cfg = Inr g" "k8s_SetUpWithManager CQ CS S T QA B W (Inr targets) g = Ret (Inr g')"
    and "ct_reachable L Q S T isPodReady (ct_init Q (dispatchers g')) s"
  shows "loop_inv s"
    and "key \<in> KeyFromObject ` set targets \<Longrightarrow> \<exists>ds. map_of (ct_disp s) key = Some ds"
proof -
  note d = setup_dispatchers [OF assms(1,2)]
  have "loop_inv (ct_init Q (dispatchers g'))"
    by (rule inv_init) (auto simp: d split: if_splits)
  then show "loop_inv s"
    using inv_reachable assms(3) by blast
  show "\<exists>ds. map_of (ct_disp s) key = Some ds" if "key \<in> KeyFromObject ` set targets"
    using that d [of key] disp_dom_reachable [OF assms(3)] by (auto simp: ct_init_def map_of_map dom_def set_eq_iff)
qed

lemma follow:
  assumes "NewK8sGateway CS timeout fw cfg = Inr g" "k8s_SetUpWithManager CQ CS S T QA B W (Inr targets) g = Ret (Inr g')"
    and "ct_reachable L Q S T isPodReady (ct_init Q (dispatchers g')) s"
    and "gm_get (ct_deps s) nn = Some d" "NamespacedName_String nn \<in> KeyFromObject ` set targets"
    and "nn \<notin> announced L dirty delayed s" "nn \<notin> processing (ct_queue s)"
  shows "\<exists>ds. gm_get (ct_disp s) (NamespacedName_String nn) = Some ds
    \<and> {k. sm_Get S (endpoints (ds_pd ds)) k \<noteq> None} = wanted isPodReady s d
    \<and> (\<forall>k \<in> wanted isPodReady s d. k \<in> set (items (tokens (ds_pd ds))) \<or> k \<in> fst ` set (ds_running ds))"
proof -
  note inv = gateway_inv [OF assms(1-3)]
  obtain ds where "map_of (ct_disp s) (NamespacedName_String nn) = Some ds"
    using inv(2) [OF assms(5)] by blast
  then show ?thesis
    using settled_right [OF inv(1) _ _ assms(6,7)] assms(4) unfolding gm_get_map_of by blast
qed

lemma converges:
  assumes "NewK8sGateway CS timeout fw cfg = Inr g" "k8s_SetUpWithManager CQ CS S T QA B W (Inr targets) g = Ret (Inr g')"
    and "ct_reachable L Q S T isPodReady (ct_init Q (dispatchers g')) s"
  shows "\<not> (\<exists>f. f 0 = s \<and> (\<forall>i. loop_step L Q S T isPodReady delayed (f i) (f (Suc i))))
    \<and> (\<forall>s'. (loop_step L Q S T isPodReady delayed)\<^sup>*\<^sup>* s s' \<and> (\<nexists>s''. loop_step L Q S T isPodReady delayed s' s'') \<longrightarrow>
         settled dirty processing delayed s'
         \<and> (\<forall>nn d. gm_get (ct_deps s) nn = Some d \<and> NamespacedName_String nn \<in> KeyFromObject ` set targets \<longrightarrow>
              (\<exists>ds. gm_get (ct_disp s') (NamespacedName_String nn) = Some ds
                 \<and> {k. sm_Get S (endpoints (ds_pd ds)) k \<noteq> None} = wanted isPodReady s d)))"
proof (intro conjI allI impI)
  note inv = gateway_inv [OF assms]
  show "\<not> (\<exists>f. f 0 = s \<and> (\<forall>i. loop_step L Q S T isPodReady delayed (f i) (f (Suc i))))"
    using loop_terminates inv(1) by blast
  fix s'
  assume s': "(loop_step L Q S T isPodReady delayed)\<^sup>*\<^sup>* s s' \<and> (\<nexists>s''. loop_step L Q S T isPodReady delayed s' s'')"
  then have inv': "loop_inv s'" "ct_pods s' = ct_pods s" "ct_deps s' = ct_deps s"
    using loop_steps [OF _ inv(1)] by blast+
  show settled: "settled dirty processing delayed s'"
    using s' loop_progress [OF inv'(1)] loop_step.step by blast
  fix nn d
  assume d: "gm_get (ct_deps s) nn = Some d \<and> NamespacedName_String nn \<in> KeyFromObject ` set targets"
  then obtain ds where ds: "map_of (ct_disp s') (NamespacedName_String nn) = Some ds"
    using inv(2) disp_dom_loop [OF conjunct1 [OF s']] by (metis domD domI)
  have "{k. sm_Get S (endpoints (ds_pd ds)) k \<noteq> None} = wanted isPodReady s' d"
    using settled d inv'(3) by (intro settled_right(1) [OF inv'(1) _ ds])
      (auto simp: settled_def announced_def gm_get_map_of)
  then show "\<exists>ds. gm_get (ct_disp s') (NamespacedName_String nn) = Some ds
      \<and> {k. sm_Get S (endpoints (ds_pd ds)) k \<noteq> None} = wanted isPodReady s d"
    using ds wanted_frame [OF inv'(2)] by (auto simp: gm_get_map_of)
qed

lemma keeps:
  assumes "NewK8sGateway CS timeout fw cfg = Inr g" "k8s_SetUpWithManager CQ CS S T QA B W (Inr targets) g = Ret (Inr g')"
    and "ct_reachable L Q S T isPodReady (ct_init Q (dispatchers g')) s"
    and "gm_get (ct_deps s) nn = Some d" "NamespacedName_String nn \<in> KeyFromObject ` set targets"
    and "nn \<notin> announced L dirty delayed s" "nn \<notin> processing (ct_queue s)"
    and "ct_run L Q S T isPodReady (DepGone nn # evs) s = Some s'" "\<forall>d'. DepSet d' \<in> set evs \<longrightarrow> obj_key d' \<noteq> nn"
  shows "\<exists>ds. gm_get (ct_disp s') (NamespacedName_String nn) = Some ds
    \<and> {k. sm_Get S (endpoints (ds_pd ds)) k \<noteq> None} = wanted isPodReady s d"
proof -
  note inv = gateway_inv [OF assms(1-3)]
  obtain ds where ds: "map_of (ct_disp s) (NamespacedName_String nn) = Some ds"
    using inv(2) [OF assms(5)] by blast
  obtain s1 where s1: "cluster_ok s (DepGone nn)" "ct_step L Q S T isPodReady (DepGone nn) s = Some s1" "ct_run L Q S T isPodReady evs s1 = Some s'"
    using assms(8) by (auto split: option.splits)
  have o: "nn_ok nn" "orphan s1 nn (endpoints (ds_pd ds))"
    using orphaned [OF inv(1) _ ds assms(7) s1(2)] assms(4) by (auto simp: gm_get_map_of)
  have "orphan s' nn (endpoints (ds_pd ds))"
    by (rule orphan_run [OF s1(3) inv_step [OF inv(1) s1(1,2)] o assms(9)])
  then show ?thesis
    using settled_right(1) [OF inv(1) _ ds assms(6,7)] assms(4)
    by (auto simp: orphan_def gm_get_map_of)
qed

end

section \<open>A reconcile that nobody disturbs\<close>

lemma reconcile_truncate:
  "ready_endpoints (map Pod.truncate pods) = ready_endpoints pods"
  "reconcile_threads S mk (map Pod.truncate pods) pd = reconcile_threads S mk pods pd"
  "reconcile_errs S mk (map Pod.truncate pods) pd = reconcile_errs S mk pods pd"
proof -
  show eps: "ready_endpoints (map Pod.truncate pods) = ready_endpoints pods"
    by (simp add: ready_endpoints_def foldl_map podEndpointKeyFunc_def Pod.truncate_def)
  show "reconcile_threads S mk (map Pod.truncate pods) pd = reconcile_threads S mk pods pd"
    "reconcile_errs S mk (map Pod.truncate pods) pd = reconcile_errs S mk pods pd"
    by (simp_all add: reconcile_threads_def reconcile_errs_def eps)
qed

lemma first_rop: "concat ts = rop # rest \<Longrightarrow> \<exists>i rops. i < length ts \<and> ts ! i = rop # rops \<and> concat (ts[i := rops]) = rest"
proof (induction ts)
  case (Cons t ts)
  show ?case
  proof (cases t)
    case Nil
    then obtain i rops where "i < length ts" "ts ! i = rop # rops" "concat (ts[i := rops]) = rest"
      using Cons by auto
    then show ?thesis
      using Nil by (intro exI [of _ "Suc i"] exI [of _ rops]) simp
  next
    case (Cons r rops)
    then show ?thesis
      using Cons.prems by (intro exI [of _ 0] exI [of _ rops]) simp
  qed
qed simp

text \<open>The operations of all goroutines, one after the other.\<close>

lemma run_all_ops:
  "\<exists>js ds'. ds_run S T (map RunOp js) ds = Some ds' \<and> ds_pd ds' = snd (exec_rops S T (concat (ds_threads ds)) (ds_pd ds))
     \<and> concat (ds_threads ds') = []"
proof (induction "concat (ds_threads ds)" arbitrary: ds)
  case Nil
  then show ?case
    by (intro exI [of _ "[]"] exI [of _ ds]) (simp del: concat_eq_Nil_conv flip: Nil)
next
  case (Cons rop rest)
  obtain i rops where i: "i < length (ds_threads ds)" "ds_threads ds ! i = rop # rops" "concat ((ds_threads ds)[i := rops]) = rest"
    using first_rop Cons.hyps(2) by metis
  obtain cl pd where e: "exec_rop S T rop (ds_pd ds) = (cl, pd)"
    by fastforce
  define ds1 where "ds1 = ds\<lparr> ds_pd := pd, ds_threads := (ds_threads ds)[i := rops], ds_closing := ds_closing ds @ cl \<rparr>"
  have s: "ds_step S T (RunOp i) ds = Some ds1"
    using i(1,2) e by (simp add: ds1_def)
  obtain js ds' where "ds_run S T (map RunOp js) ds1 = Some ds'"
      "ds_pd ds' = snd (exec_rops S T (concat (ds_threads ds1)) (ds_pd ds1))" "concat (ds_threads ds') = []"
    using Cons.hyps(1) [of ds1] i(3) by (auto simp: ds1_def simp del: concat_eq_Nil_conv)
  moreover have "exec_rops S T (concat (ds_threads ds)) (ds_pd ds) = (let (c, pd2) = exec_rops S T rest pd in (cl @ c, pd2))"
    using e by (simp add: Let_def flip: Cons.hyps(2))
  ultimately show ?case
    using s i(3) by (intro exI [of _ "i # js"] exI [of _ ds']) (auto simp: ds1_def simp del: concat_eq_Nil_conv ds_step.simps split: prod.splits)
qed

lemma ct_run_ops:
  "ds_run S T (map RunOp js) ds = Some ds' \<Longrightarrow> map_of (ct_disp s) key = Some ds \<Longrightarrow>
     \<exists>s'. ct_run L Q S T isPodReady (map (\<lambda>i. Disp key (RunOp i)) js) s = Some s' \<and> map_of (ct_disp s') = (map_of (ct_disp s))(key \<mapsto> ds')
       \<and> ct_work s' = ct_work s \<and> ct_queue s' = ct_queue s"
proof (induction js arbitrary: s ds)
  case Nil
  then show ?case
    by (auto simp: fun_upd_idem)
next
  case (Cons i js)
  then obtain ds1 where ds1: "ds_step S T (RunOp i) ds = Some ds1" "ds_run S T (map RunOp js) ds1 = Some ds'"
    by (auto simp del: ds_step.simps split: option.splits)
  show ?case
    using Cons.IH [OF ds1(2), of "s\<lparr> ct_disp := gm_set (ct_disp s) key ds1 \<rparr>"] Cons.prems(2) ds1(1)
    by (simp add: gm_get_map_of fun_upd_same del: ds_step.simps fun_upd_apply)
qed

text \<open>What a worker has to reach: the errors and the dispatchers of \<open>Reconcile\<close>, with all goroutines back.\<close>

definition returned ::
    "('st, 'm, 't, 'e, 'q) ct_state \<Rightarrow> NamespacedName \<Rightarrow> string list \<Rightarrow> ('rq, 'rs, 'm, 't, 'b, 'w, 'qa) k8sGateway \<Rightarrow> bool" where
  "returned s nn errs g \<longleftrightarrow> map_of (ct_work s) nn = Some (Running errs)
     \<and> map_of (dispatchers g) = map_option ds_pd \<circ> map_of (ct_disp s)
     \<and> (\<forall>ds. map_of (ct_disp s) (NamespacedName_String nn) = Some ds \<longrightarrow> concat (ds_threads ds) = [])"

lemma returned_end:
  "returned s nn errs g \<Longrightarrow> ct_step L Q S T isPodReady (EndReconcile nn) s
     = Some (s\<lparr> ct_work := gm_del (ct_work s) nn, ct_queue := cr_Return L nn errs (ct_queue s) \<rparr>)"
  by (auto simp: returned_def gm_get_map_of simp del: concat_eq_Nil_conv split: option.splits)

lemma dispatcher_returns:
  assumes "map_of (ct_work s) nn = Some (Listed (map Pod.truncate pods))" "map_of (ct_disp s) (NamespacedName_String nn) = Some ds"
    and "concat (ds_threads ds) = []" "map_of (dispatchers g) = map_option ds_pd \<circ> map_of (ct_disp s)"
    and "Reconcile S T mk pods (ds_pd ds) = Ret (errs, cl, pd')"
  shows "\<exists>evs s'. ct_run L Q S T isPodReady evs s = Some s' \<and> ct_queue s' = ct_queue s
    \<and> returned s' nn errs (g\<lparr> dispatchers := gm_set (dispatchers g) (NamespacedName_String nn) pd' \<rparr>)"
proof -
  let ?key = "NamespacedName_String nn"
  obtain ts where ts: "reconcile_threads S mk pods (ds_pd ds) = Ret ts" "errs = reconcile_errs S mk pods (ds_pd ds)"
      "pd' = snd (exec_rops S T (concat ts) (ds_pd ds))"
    using assms(5) by (auto simp: Reconcile_def go_bind_eq_Ret)
  define ds1 where "ds1 = ds\<lparr> ds_threads := ts, ds_added := ds_added ds @ concat (map set_key (concat ts)) \<rparr>"
  define s1 where "s1 = s\<lparr> ct_work := gm_set (ct_work s) nn (Running errs), ct_disp := gm_set (ct_disp s) ?key ds1 \<rparr>"
  have start: "ct_step L Q S T isPodReady (StartDispatcher nn mk) s = Some s1"
    using assms(1-3) ts(1,2) by (simp add: gm_get_map_of Let_def reconcile_truncate ds1_def s1_def del: concat_eq_Nil_conv)
  obtain js ds2 where ds2: "ds_run S T (map RunOp js) ds1 = Some ds2" "ds_pd ds2 = pd'" "concat (ds_threads ds2) = []"
    using run_all_ops [of S T ds1] ts(3) by (auto simp: ds1_def simp del: concat_eq_Nil_conv)
  obtain s2 where s2: "ct_run L Q S T isPodReady (map (\<lambda>i. Disp ?key (RunOp i)) js) s1 = Some s2"
      "map_of (ct_disp s2) = (map_of (ct_disp s1))(?key \<mapsto> ds2)" "ct_work s2 = ct_work s1" "ct_queue s2 = ct_queue s1"
    using ct_run_ops [OF ds2(1), where s = s1 and key = ?key and L = L and Q = Q and isPodReady = isPodReady] by (auto simp: s1_def)
  have "returned s2 nn errs (g\<lparr> dispatchers := gm_set (dispatchers g) ?key pd' \<rparr>)"
    using s2(2,3) ds2(2,3) assms(4) by (auto simp: returned_def s1_def fun_eq_iff)
  then show ?thesis
    using start s2(1,4)
    by (intro exI [of _ "StartDispatcher nn mk # map (\<lambda>i. Disp ?key (RunOp i)) js"] exI [of _ s2]) (simp add: s1_def del: ct_step.simps)
qed

lemma worker_returns:
  assumes "k8s_Reconcile S T mk isPodReady (cc_Get L (ct_deps s)) (cc_List L (ct_pods s)) nn g = Ret (errs, g')"
    and "map_of (ct_work s) nn = Some Taken" "map_of (dispatchers g) = map_option ds_pd \<circ> map_of (ct_disp s)"
    and "\<And>ds. map_of (ct_disp s) (NamespacedName_String nn) = Some ds \<Longrightarrow> concat (ds_threads ds) = []"
  shows "\<exists>evs s'. ct_run L Q S T isPodReady evs s = Some s' \<and> ct_queue s' = ct_queue s \<and> returned s' nn errs g'"
proof (cases "cc_Get L (ct_deps s) nn")
  case (Inl err)
  then show ?thesis
    using assms
    by (intro exI [of _ "[GetTarget nn]"])
      (auto simp: k8s_Reconcile_def Let_def after_Get_def gm_get_map_of returned_def simp del: concat_eq_Nil_conv split: api_error.splits)
next
  case (Inr target)
  define pods where "pods = filter isPodReady (case cc_List L (ct_pods s) (Namespace target) (TemplateLabels target) of Inl err \<Rightarrow> [] | Inr ps \<Rightarrow> ps)"
  define s2 where "s2 = s\<lparr> ct_work := gm_set (gm_set (ct_work s) nn (Got target)) nn (Listed (map Pod.truncate pods)) \<rparr>"
  have s2: "ct_run L Q S T isPodReady (GetTarget nn # ListPods nn # evs) s = ct_run L Q S T isPodReady evs s2" for evs
    using assms(2) Inr by (simp add: gm_get_map_of after_Get_def after_List_def s2_def pods_def)
  have "\<exists>evs s'. ct_run L Q S T isPodReady evs s2 = Some s' \<and> ct_queue s' = ct_queue s2 \<and> returned s' nn errs g'"
  proof (cases "map_of (ct_disp s) (NamespacedName_String nn)")
    case None
    then show ?thesis
      using assms(1,3) Inr
      by (intro exI [of _ "[StartDispatcher nn mk]"]) (auto simp: k8s_Reconcile_def gm_get_map_of s2_def returned_def Let_def)
  next
    case (Some ds)
    then have "map_of (dispatchers g) (NamespacedName_String nn) = Some (ds_pd ds)"
      using assms(3) by simp
    then obtain cl pd' where r: "Reconcile S T mk pods (ds_pd ds) = Ret (errs, cl, pd')"
        "g' = g\<lparr> dispatchers := gm_set (dispatchers g) (NamespacedName_String nn) pd' \<rparr>"
      using assms(1) Inr by (auto simp: k8s_Reconcile_def gm_get_map_of Let_def go_bind_eq_Ret pods_def)
    show ?thesis
      unfolding r(2)
      by (rule dispatcher_returns [where pods = pods and ds = ds, OF _ _ _ _ r(1)]) (simp_all add: s2_def Some assms(3,4) del: concat_eq_Nil_conv)
  qed
  then show ?thesis
    using s2 by (metis (no_types, lifting) ct_state.select_convs(4) ct_state.update_convs(5) ct_state.surjective s2_def)
qed

section \<open>Plain caches\<close>

definition plain_lib :: "('st, (NamespacedName list \<times> NamespacedName list) \<times> NamespacedName list) ctrl_lib" where
  "plain_lib = \<lparr>
     NewPredicateFuncs = (\<lambda>f ev. case ev of Created obj \<Rightarrow> f obj | Updated old obj \<Rightarrow> f obj | Removed obj \<Rightarrow> f obj),
     EnqueueRequestsFromMapFunc = (\<lambda>h ev. case ev of
         Created obj \<Rightarrow> h obj
       | Updated old obj \<Rightarrow> go_bind (h old) (\<lambda>xs. go_bind (h obj) (\<lambda>ys. Ret (xs @ filter (\<lambda>y. y \<notin> set xs) ys)))
       | Removed obj \<Rightarrow> h obj),
     cc_Get = (\<lambda>deps nn. case gm_get deps nn of None \<Rightarrow> Inl NotFound | Some d \<Rightarrow> Inr d),
     cc_List = (\<lambda>pods ns ls. Inr (filter (\<lambda>p. Namespace p = ns \<and> matches ls p) (map snd (AList.clearjunk pods)))),
     cr_Return = (\<lambda>nn errs q. wq_Done list_ratequeue
       (if errs = [] then wq_Forget list_ratequeue q nn else wq_AddRateLimited list_ratequeue q nn) nn) \<rparr>"

lemma ran_clearjunk: "ran (map_of m) = snd ` set (AList.clearjunk m)"
  using ran_distinct [of "AList.clearjunk m"] by (simp add: distinct_clearjunk map_of_clearjunk)

interpretation plain: controller_runtime plain_lib
proof
  show "\<exists>ps. cc_List plain_lib pods ns ls = Inr ps \<and> set ps = {p \<in> ran (map_of pods). Namespace p = ns \<and> matches ls p}" for pods ns ls
    unfolding ran_clearjunk by (auto simp: plain_lib_def)
qed (auto simp: plain_lib_def)

interpretation plain_loop: control_loop plain_lib list_ratequeue "\<lambda>q. set (fst (fst q))" "\<lambda>q. set (snd (fst q))" "\<lambda>q. set (snd q)"
  gomap_shared gochan "\<lambda>c. c" "cp_status :: bool cached_pod \<Rightarrow> bool"
  by unfold_locales (auto simp: plain_lib_def)

section \<open>Properties\<close>

text \<open>
  C2. The endpoints follow the pods. At every moment of every run, with pods and deployments created, changed and
  deleted at any point, events delayed and reordered, up to 256 reconciles interleaved at each access
  to shared state, backends that fail and requests dispatched meanwhile: a registered deployment for
  which no event, retry or reconcile is outstanding has exactly the endpoints of its ready pods in
  the cache, and each of them has a token queued or held by a running request.\<close>

theorem endpoints_follow_pods:
  assumes "control_loop L Q dirty processing delayed S T items"
    and "NewK8sGateway CS timeout fw cfg = Inr g" "k8s_SetUpWithManager CQ CS S T QA B W (Inr targets) g = Ret (Inr g')"
    and "ct_reachable L Q S T isPodReady (ct_init Q (dispatchers g')) s"
    and "gm_get (ct_deps s) nn = Some d" "NamespacedName_String nn \<in> KeyFromObject ` set targets"
    and "nn \<notin> announced L dirty delayed s" "nn \<notin> processing (ct_queue s)"
  shows "\<exists>ds. gm_get (ct_disp s) (NamespacedName_String nn) = Some ds
    \<and> {k. sm_Get S (endpoints (ds_pd ds)) k \<noteq> None} = wanted isPodReady s d
    \<and> (\<forall>k \<in> wanted isPodReady s d. k \<in> set (items (tokens (ds_pd ds))) \<or> k \<in> fst ` set (ds_running ds))"
  by (rule control_loop.follow [OF assms])

definition trace_deployment :: Deployment where
  "trace_deployment = \<lparr> Namespace = ''default'', Name = ''f'', Labels = [(''app'', ''f''), (''workload'', ''trace'')],
     Deleting = False, Replicas = Some 1, TemplateLabels = [(''app'', ''f''), (''workload'', ''trace'')] \<rparr>"

definition ready_pod :: "bool cached_pod" where
  "ready_pod = Pod.extend trace_pod \<lparr> cp_status = True \<rparr>"

definition loop_events :: "(bool, nat) ct_event list" where
  "loop_events = [DepSet trace_deployment, Notify 0, Take, PodSet ready_pod, GetTarget (''default'', ''f''), Notify 0,
     ListPods (''default'', ''f''), StartDispatcher (''default'', ''f'') dial_ok, Disp ''default/f'' (RunOp 0), Disp ''default/f'' (RunOp 0),
     EndReconcile (''default'', ''f''), Take, GetTarget (''default'', ''f''), ListPods (''default'', ''f''),
     StartDispatcher (''default'', ''f'') dial_ok, EndReconcile (''default'', ''f'')]"

definition one_gateway :: "(Request list, Response list, (string \<times> nat) list, string list, float64, int list, string list \<times> string list) k8sGateway" where
  "one_gateway = \<lparr> gw_impl = newGatewayImpl gochan, dispatchTimeout = 0, dispatchers = [], gw_autoscaler = None, newAutoscalerFn = None \<rparr>"

definition one_gateway_up :: "(Request list, Response list, (string \<times> nat) list, string list, float64, int list, string list \<times> string list) k8sGateway" where
  "one_gateway_up = register_all gochan gochan gomap_shared gochan [trace_deployment] one_gateway"

lemma one_gateway_setup:
  "NewK8sGateway gochan 0 ''none'' (Inr None) = Inr one_gateway"
  "k8s_SetUpWithManager gochan gochan gomap_shared gochan list_queue last_value all_values (Inr [trace_deployment]) one_gateway = Ret (Inr one_gateway_up)"
  by (simp_all add: NewK8sGateway_def one_gateway_def one_gateway_up_def k8s_SetUpWithManager_def Let_def register_all_impl)

lemma loop_events_run:
  "map_option (\<lambda>s. (ct_deps s, ct_notes s, ct_queue s, map (\<lambda>(key, ds). (key, endpoints (ds_pd ds))) (ct_disp s)))
     (ct_run plain_lib list_ratequeue gomap_shared gochan cp_status loop_events (ct_init list_ratequeue (dispatchers one_gateway_up)))
   = Some ([((''default'', ''f''), trace_deployment)], [], (([], []), []), [(''default/f'', [(''p@10.0.0.1:80'', 1)])])"
  by code_simp

theorem endpoints_follow_pods_witness:
  "\<exists>s ds. ct_run plain_lib list_ratequeue gomap_shared gochan cp_status loop_events (ct_init list_ratequeue (dispatchers one_gateway_up)) = Some s
     \<and> gm_get (ct_disp s) ''default/f'' = Some ds
     \<and> {k. gm_get (endpoints (ds_pd ds)) k \<noteq> None} = wanted cp_status s trace_deployment"
proof -
  obtain s where run: "ct_run plain_lib list_ratequeue gomap_shared gochan cp_status loop_events (ct_init list_ratequeue (dispatchers one_gateway_up)) = Some s"
      and s: "ct_deps s = [((''default'', ''f''), trace_deployment)]" "ct_notes s = []" "ct_queue s = (([], []), [])"
    using loop_events_run by auto
  have "\<exists>ds. gm_get (ct_disp s) (NamespacedName_String (''default'', ''f'')) = Some ds
      \<and> {k. sm_Get gomap_shared (endpoints (ds_pd ds)) k \<noteq> None} = wanted cp_status s trace_deployment
      \<and> (\<forall>k \<in> wanted cp_status s trace_deployment. k \<in> set (tokens (ds_pd ds)) \<or> k \<in> fst ` set (ds_running ds))"
    by (rule endpoints_follow_pods [OF plain_loop.control_loop_axioms one_gateway_setup ct_run_reachable [OF run]])
      (simp_all add: s announced_def gm_get_def NamespacedName_String_def KeyFromObject_def trace_deployment_def label_def)
  then show ?thesis
    using run by (auto simp: NamespacedName_String_def)
qed

text \<open>
  C4. The control loop converges. From any state it can get into, once the cluster stops changing and backends can be
  started, the loop takes only finitely many steps of its own, whatever their order; and where it
  can take no more, every queue is empty, nobody works, and every registered deployment in the
  cache has exactly the endpoints of its ready pods, including the ones whose reconcile had failed before.\<close>

theorem control_loop_converges:
  assumes "control_loop L Q dirty processing delayed S T items"
    and "NewK8sGateway CS timeout fw cfg = Inr g" "k8s_SetUpWithManager CQ CS S T QA B W (Inr targets) g = Ret (Inr g')"
    and "ct_reachable L Q S T isPodReady (ct_init Q (dispatchers g')) s"
  shows "\<not> (\<exists>f. f 0 = s \<and> (\<forall>i. loop_step L Q S T isPodReady delayed (f i) (f (Suc i))))
    \<and> (\<forall>s'. (loop_step L Q S T isPodReady delayed)\<^sup>*\<^sup>* s s' \<and> (\<nexists>s''. loop_step L Q S T isPodReady delayed s' s'') \<longrightarrow>
         settled dirty processing delayed s'
         \<and> (\<forall>nn d. gm_get (ct_deps s) nn = Some d \<and> NamespacedName_String nn \<in> KeyFromObject ` set targets \<longrightarrow>
              (\<exists>ds. gm_get (ct_disp s') (NamespacedName_String nn) = Some ds
                 \<and> {k. sm_Get S (endpoints (ds_pd ds)) k \<noteq> None} = wanted isPodReady s d)))"
  by (rule control_loop.converges [OF assms])


definition orphan_events :: "(bool, nat) ct_event list" where
  "orphan_events = [Notify 0, PodGone (''default'', ''p''), Notify 0, Take, GetTarget (''default'', ''f''), EndReconcile (''default'', ''f'')]"

lemma orphan_events_run:
  "map_option (\<lambda>s. (ct_pods s, ct_notes s, ct_queue s))
     (ct_run plain_lib list_ratequeue gomap_shared gochan cp_status (loop_events @ DepGone (''default'', ''f'') # orphan_events)
       (ct_init list_ratequeue (dispatchers one_gateway_up)))
   = Some ([], [], (([], []), []))"
  by code_simp

lemma ct_run_append:
  "ct_run L Q S T isPodReady (xs @ ys) s = Option.bind (ct_run L Q S T isPodReady xs s) (ct_run L Q S T isPodReady ys)"
  by (induction xs arbitrary: s) (simp_all split: option.splits)

lemma loop_events_wanted:
  "map_option (\<lambda>s. ct_pods s) (ct_run plain_lib list_ratequeue gomap_shared gochan cp_status loop_events (ct_init list_ratequeue (dispatchers one_gateway_up)))
   = Some [((''default'', ''p''), ready_pod)]"
  by code_simp


theorem control_loop_converges_witness:
  "\<exists>s. ct_run plain_lib list_ratequeue gomap_shared gochan cp_status [DepSet trace_deployment, PodSet ready_pod]
         (ct_init list_ratequeue (dispatchers one_gateway_up)) = Some s
     \<and> \<not> (\<exists>f. f 0 = s \<and> (\<forall>i. loop_step plain_lib list_ratequeue gomap_shared gochan cp_status (\<lambda>q. set (snd q)) (f i) (f (Suc i))))
     \<and> (\<forall>s'. (loop_step plain_lib list_ratequeue gomap_shared gochan cp_status (\<lambda>q. set (snd q)))\<^sup>*\<^sup>* s s'
           \<and> (\<nexists>s''. loop_step plain_lib list_ratequeue gomap_shared gochan cp_status (\<lambda>q. set (snd q)) s' s'') \<longrightarrow>
         (\<exists>ds. gm_get (ct_disp s') ''default/f'' = Some ds \<and> {k. gm_get (endpoints (ds_pd ds)) k \<noteq> None} = wanted cp_status s trace_deployment))"
proof -
  have "map_option (\<lambda>s. ct_deps s) (ct_run plain_lib list_ratequeue gomap_shared gochan cp_status [DepSet trace_deployment, PodSet ready_pod]
      (ct_init list_ratequeue (dispatchers one_gateway_up))) = Some [((''default'', ''f''), trace_deployment)]"
    by code_simp
  then obtain s where run: "ct_run plain_lib list_ratequeue gomap_shared gochan cp_status [DepSet trace_deployment, PodSet ready_pod]
      (ct_init list_ratequeue (dispatchers one_gateway_up)) = Some s" and d: "ct_deps s = [((''default'', ''f''), trace_deployment)]"
    by (auto simp del: ct_run.simps)
  have k: "''default/f'' = NamespacedName_String (''default'', ''f'')" "NamespacedName_String (''default'', ''f'') \<in> KeyFromObject ` set [trace_deployment]"
    by (simp_all add: NamespacedName_String_def KeyFromObject_def trace_deployment_def label_def gm_get_def)
  have g: "gm_get (ct_deps s) (''default'', ''f'') = Some trace_deployment"
    by (simp add: d gm_get_def)
  show ?thesis
    using run control_loop_converges [OF plain_loop.control_loop_axioms one_gateway_setup ct_run_reachable [OF run]] g k(2)
    unfolding k(1) gomap_shared_sel by blast
qed


definition taken_state :: "(bool, (string \<times> nat) list, string list, nat, ((NamespacedName list \<times> NamespacedName list) \<times> NamespacedName list)) ct_state" where
  "taken_state = (ct_init list_ratequeue (dispatchers one_gateway_up))\<lparr>
     ct_pods := [((''default'', ''p''), ready_pod)], ct_deps := [((''default'', ''f''), trace_deployment)],
     ct_queue := (([], [(''default'', ''f'')]), []), ct_work := [((''default'', ''f''), Taken)] \<rparr>"

lemma taken_state_reconcile:
  "case k8s_Reconcile gomap_shared gochan dial_ok cp_status (cc_Get (plain_lib :: (bool, _) ctrl_lib) (ct_deps taken_state)) (cc_List plain_lib (ct_pods taken_state))
      (''default'', ''f'') one_gateway_up of
     Ret (errs, g') \<Rightarrow> errs = [] \<and> map (\<lambda>(key, pd). (key, endpoints pd)) (dispatchers g') = [(''default/f'', [(''p@10.0.0.1:80'', 1)])]
   | Panic m \<Rightarrow> False"
  by code_simp

lemma taken_state_disp:
  "gm_get (dispatchers one_gateway_up) key = map_option ds_pd (gm_get (ct_disp taken_state) key)"
  "gm_get (ct_disp taken_state) key = Some ds \<Longrightarrow> concat (ds_threads ds) = []"
  by (auto simp: taken_state_def ct_init_def one_gateway_up_def one_gateway_def gm_get_map_of register_all_impl map_of_map ds_init_def
      simp del: register_all.simps split: option.splits)


end
