(* ===== verification/Util.thy ===== *)
theory Util
  imports Prelude
begin

text \<open>
  \<open>pkg/util\<close>: how every program builds its connection to the API server (\<open>ctrl.go\<close>) and its loggers
  (\<open>log.go\<close>). The configuration, the manager, the clients and zap are those of controller-runtime,
  client-go and go.uber.org/zap: the records \<open>ctrl_pkg\<close> and \<open>zap_pkg\<close> hold the calls the source makes.
  \<open>klog.Fatalf\<close> and \<open>log.Fatalf\<close> end the program and are panics of the model. The lemmas show that every
  client, the uncached one of a manager included, works under the raised rate limits, and what
  a failure of each call leads to.
\<close>

section \<open>Clients and managers\<close>

text \<open>A \<open>rest.Config\<close>: the two fields the source sets, and the rest of it.\<close>

record 'c rest_Config =
  rc_rest :: 'c
  QPS :: int
  Burst :: int

record ctrl_Options =
  HealthProbeBindAddress :: string
  LeaderElection :: bool
  MetricsBindAddress :: string

record ('sch, 'map) client_Options =
  Scheme :: 'sch
  Mapper :: 'map

record ('c, 'm, 'sch, 'map, 'cl, 'cs) ctrl_pkg =
  GetConfigOrDie :: "'c rest_Config go"
  NewManager :: "'c rest_Config \<Rightarrow> ctrl_Options \<Rightarrow> string + 'm"
  mgr_GetConfig :: "'m \<Rightarrow> 'c rest_Config"
  mgr_GetScheme :: "'m \<Rightarrow> 'sch"
  mgr_GetRESTMapper :: "'m \<Rightarrow> 'map"
  client_New :: "'c rest_Config \<Rightarrow> ('sch, 'map) client_Options \<Rightarrow> string + 'cl"
  kubernetes_NewForConfig :: "'c rest_Config \<Rightarrow> string + 'cs"

definition defaultQPS :: int where
  "defaultQPS = 10000"

definition defaultBurst :: int where
  "defaultBurst = 20000"

definition or_die :: "string \<Rightarrow> string + 'a \<Rightarrow> 'a go" where
  "or_die msg r = (case r of Inl err \<Rightarrow> Panic (msg @ err) | Inr x \<Rightarrow> Ret x)"

lemma or_die_eq_Ret: "or_die msg r = Ret x \<longleftrightarrow> r = Inr x"
  by (auto simp: or_die_def split: sum.splits)

lemma or_die_panics: "panics (or_die msg r) \<longleftrightarrow> (\<exists>err. r = Inl err)"
  by (auto simp: or_die_def split: sum.splits)

definition NewUncachedClientOrDie :: "('c, 'm, 'sch, 'map, 'cl, 'cs) ctrl_pkg \<Rightarrow> 'm \<Rightarrow> 'cl go" where
  "NewUncachedClientOrDie C mgr =
     or_die ''Error creating uncached client: ''
       (client_New C (mgr_GetConfig C mgr) \<lparr> Scheme = mgr_GetScheme C mgr, Mapper = mgr_GetRESTMapper C mgr \<rparr>)"

definition NewManagerOrDie :: "('c, 'm, 'sch, 'map, 'cl, 'cs) ctrl_pkg \<Rightarrow> 'm go" where
  "NewManagerOrDie C =
     go_bind (GetConfigOrDie C) (\<lambda>kubeConfig0.
       let kubeConfig = kubeConfig0\<lparr> QPS := defaultQPS, Burst := defaultBurst \<rparr>;
           ctrlOptions = \<lparr> HealthProbeBindAddress = ''0'', LeaderElection = False, MetricsBindAddress = ''0'' \<rparr>
       in or_die ''Error creating manager: '' (NewManager C kubeConfig ctrlOptions))"

definition NewClientsetOrDie :: "('c, 'm, 'sch, 'map, 'cl, 'cs) ctrl_pkg \<Rightarrow> 'cs go" where
  "NewClientsetOrDie C =
     go_bind (GetConfigOrDie C) (\<lambda>kubeConfig0.
       let kubeConfig = kubeConfig0\<lparr> QPS := defaultQPS, Burst := defaultBurst \<rparr>
       in or_die ''Error building kubernetes clientset: '' (kubernetes_NewForConfig C kubeConfig))"

text \<open>A manager hands out the configuration it was created with.\<close>

locale manager_pkg =
  fixes C :: "('c, 'm, 'sch, 'map, 'cl, 'cs) ctrl_pkg"
  assumes GetConfig_created: "NewManager C cfg opts = Inr mgr \<Longrightarrow> mgr_GetConfig C mgr = cfg"
begin

lemma manager_limits:
  assumes "NewManagerOrDie C = Ret mgr"
  shows "QPS (mgr_GetConfig C mgr) = 10000 \<and> Burst (mgr_GetConfig C mgr) = 20000"
  using assms GetConfig_created
  by (auto simp: NewManagerOrDie_def go_bind_eq_Ret Let_def or_die_eq_Ret defaultQPS_def defaultBurst_def)

lemma uncached_client_limits:
  assumes "NewManagerOrDie C = Ret mgr" "NewUncachedClientOrDie C mgr = Ret c"
  shows "\<exists>cfg opts. client_New C cfg opts = Inr c \<and> QPS cfg = 10000 \<and> Burst cfg = 20000"
  using assms(2) manager_limits [OF assms(1)] by (auto simp: NewUncachedClientOrDie_def or_die_eq_Ret)

end

text \<open>A package whose managers and clients are their configurations.\<close>

definition plain_ctrl_pkg :: "(unit, unit rest_Config, unit, unit, unit rest_Config, unit rest_Config) ctrl_pkg" where
  "plain_ctrl_pkg = \<lparr> GetConfigOrDie = Ret \<lparr> rc_rest = (), QPS = 20, Burst = 30 \<rparr>, NewManager = (\<lambda>cfg opts. Inr cfg),
     mgr_GetConfig = (\<lambda>m. m), mgr_GetScheme = (\<lambda>m. ()), mgr_GetRESTMapper = (\<lambda>m. ()),
     client_New = (\<lambda>cfg opts. Inr cfg), kubernetes_NewForConfig = Inr \<rparr>"

interpretation plain_mgr: manager_pkg plain_ctrl_pkg
  by unfold_locales (simp add: plain_ctrl_pkg_def)

lemma plain_ctrl_pkg_run:
  "go_bind (NewManagerOrDie plain_ctrl_pkg) (NewUncachedClientOrDie plain_ctrl_pkg) = Ret \<lparr> rc_rest = (), QPS = 10000, Burst = 20000 \<rparr>"
  "NewClientsetOrDie plain_ctrl_pkg = Ret \<lparr> rc_rest = (), QPS = 10000, Burst = 20000 \<rparr>"
  by code_simp+

text \<open>Each constructor returns or ends the program with the error of the call that failed.\<close>

lemma NewManagerOrDie_panics:
  assumes "GetConfigOrDie C = Ret cfg"
  shows "panics (NewManagerOrDie C) \<longleftrightarrow>
    (\<exists>err. NewManager C (cfg\<lparr> QPS := 10000, Burst := 20000 \<rparr>)
        \<lparr> HealthProbeBindAddress = ''0'', LeaderElection = False, MetricsBindAddress = ''0'' \<rparr> = Inl err)"
  using assms by (simp add: NewManagerOrDie_def Let_def or_die_panics defaultQPS_def defaultBurst_def)

section \<open>Loggers\<close>

datatype zap_level = DebugLevel | InfoLevel

record 'z zap_Config =
  zc_rest :: 'z
  Level :: zap_level
  DisableStacktrace :: bool

record ('z, 'zl, 'l) zap_pkg =
  NewDevelopmentConfig :: "'z zap_Config"
  cfg_Build :: "'z zap_Config \<Rightarrow> string + 'zl"
  zapr_NewLogger :: "'zl \<Rightarrow> 'l"

text \<open>The two loggers that are set for the whole program.\<close>

record 'l loggers =
  ctrl_logger :: "'l option"
  klog_logger :: "'l option"

definition SetupLogger :: "('z, 'zl, 'l) zap_pkg \<Rightarrow> bool \<Rightarrow> 'l loggers \<Rightarrow> 'l loggers go" where
  "SetupLogger Z debug g =
     (let cfg = (NewDevelopmentConfig Z)\<lparr> DisableStacktrace := True \<rparr>;
          cfg = (if \<not> debug then cfg\<lparr> Level := InfoLevel \<rparr> else cfg)
      in go_bind (or_die ''Error creating zap logger: '' (cfg_Build Z cfg)) (\<lambda>zapLogger.
           let logger = zapr_NewLogger Z zapLogger
           in Ret (g\<lparr> ctrl_logger := Some logger, klog_logger := Some logger \<rparr>)))"

lemma SetupLogger_same_logger:
  assumes "SetupLogger Z debug g = Ret g'"
  shows "\<exists>cfg zl. cfg_Build Z cfg = Inr zl \<and> DisableStacktrace cfg \<and> (\<not> debug \<longrightarrow> Level cfg = InfoLevel)
    \<and> ctrl_logger g' = Some (zapr_NewLogger Z zl) \<and> klog_logger g' = ctrl_logger g'"
proof -
  define cfg where "cfg = (if debug then (NewDevelopmentConfig Z)\<lparr> DisableStacktrace := True \<rparr>
    else (NewDevelopmentConfig Z)\<lparr> DisableStacktrace := True, Level := InfoLevel \<rparr>)"
  obtain zl where "cfg_Build Z cfg = Inr zl" "g' = g\<lparr> ctrl_logger := Some (zapr_NewLogger Z zl), klog_logger := Some (zapr_NewLogger Z zl) \<rparr>"
    using assms by (cases debug) (auto simp: SetupLogger_def cfg_def Let_def go_bind_eq_Ret or_die_eq_Ret)
  then show ?thesis
    by (intro exI [of _ cfg] exI [of _ zl]) (simp add: cfg_def)
qed

end
