(* ===== verification/Spec2Isabelle.thy ===== *)
theory Spec2Isabelle
  imports Prelude Float64 Workload Metric KPA Handler Backend Dispatcher Trace WorkQueue Autoscaler Gateway Kubelet Replay EndToEnd Monitor Breakdown
    Soundness TraceMain Programs Controller Util
begin

text \<open>
  A verification library for the Kubedirect benchmark harness: the Go program that replays function
  invocation traces against a Kubernetes cluster, scales the functions, and measures the parts of
  the control plane one by one.

  \<^bold>\<open>The program.\<close> A replay client (\<open>pkg/replay\<close>) deals the invocations of each trace to senders, which put
  requests on the channel of their target in the gateway (\<open>pkg/gateway\<close>). The gateway has one relay per target; it
  stamps and counts a request, tells the autoscaler (\<open>pkg/autoscaler\<close>) and hands it to the target's
  dispatcher (\<open>pkg/gateway/dispatcher\<close>). The gateway is also a controller: it watches pods and deployments
  and reconciles the endpoints of each dispatcher with the ready pods. The pod dispatcher owns a token per ready pod, executes a request
  through a backend (\<open>pkg/backend\<close>) while it holds the pod's token, and the response goes back through
  the relay to the client, which writes a summary line (\<open>pkg/workload\<close>). The autoscaler's deciders keep
  a concurrency metric (\<open>pkg/autoscaler/metric\<close>), follow Knative's rule (\<open>pkg/autoscaler/decider\<close>) and
  write the scale of the deployments through a work queue. The traces come from \<open>pkg/workload/conversion.go\<close>, and
  \<open>experiments/trace\<close> is the program that sets all this up, waits for the client and shuts it down.
  A custom node agent (\<open>cmd/kubelet\<close>) takes pods from the API server and over RPC and marks them
  ready after a delay. The microbenchmarks (\<open>experiments/microbench\<close>) drive the control plane
  directly: they select targets, send watch, scaling or binding requests, and wait until pods are ready.

  \<^bold>\<open>The theories\<close>, in the order of their imports:
  \<^item> \<open>Prelude\<close>: the fragment of Go the sources use (panics as \<open>'a go\<close>, 32- and 64-bit conversions, times, maps) and
    the contracts of \<open>SharedMap\<close> and \<open>chann\<close>. \<open>Float64\<close>: binary64 arithmetic as rounding of rationals.
  \<^item> \<open>Workload\<close>: requests, responses, keys, label predicates (\<open>types.go\<close>, \<open>selection.go\<close>). \<open>Trace\<close>: \<open>conversion.go\<close>.
    \<open>Handler\<close>: the work of a function (\<open>pkg/workload/handler\<close>).
  \<^item> \<open>Metric\<close>, \<open>KPA\<close>, \<open>WorkQueue\<close>, \<open>Autoscaler\<close>: statistics and collector, the decider's \<open>Reconcile\<close>, the work queue's
    contract, the autoscalers with their workers, tickers and the deployment scaler.
  \<^item> \<open>Backend\<close>, \<open>Dispatcher\<close>, \<open>Gateway\<close>: executors and the gRPC connection pool, both dispatchers, both
    gateways with relays, setup, callbacks, reconciling and flags (\<open>experiments/trace/main.go\<close>).
    \<open>Controller\<close>: the control loop of the Kubernetes gateway, from the watches over the queue to the
    interleaved reconciles. \<open>Util\<close>: clients, managers and loggers (\<open>pkg/util\<close>).
  \<^item> \<open>Kubelet\<close>: the node agent. \<open>Replay\<close>: the client and its workers.
  \<^item> \<open>EndToEnd\<close>: client, gateway, dispatchers and autoscaler together. \<open>Soundness\<close>: the started gateway, its panics and its
    progress. \<open>TraceMain\<close>: the trace experiment from the command line to the end, its shutdown included.
  \<^item> \<open>Monitor\<close>, \<open>Breakdown\<close>: the pod monitors of the microbenchmarks, and the parts of the experiments, the kubelet one
    together with the node agent. \<open>Programs\<close>: all experiments, the node agent and the workload
    server (\<open>pkg/workload/handler/server.go\<close>, \<open>cmd/workload/knative\<close>) as whole programs.

  \<^bold>\<open>State and operations.\<close> A struct is a record with the fields' names, an enumeration a datatype, each function or
  method one definition of the same name (with a prefix where two have the same name). A definition that
  can panic returns \<open>'a go\<close>; an error result is \<open>Inl\<close>. Clock readings, answers of the API server and
  scheduling choices are arguments. Packages whose source is not in the tree are records of
  operations that the definitions take as arguments, and the locales state what the code relies on:
  \<open>shared_map\<close>, \<open>unbounded_chan\<close>, \<open>closable_chan\<close>, \<open>work_queue\<close> and \<open>rate_limited_queue\<close>, \<open>epoch_hub\<close>,
  \<open>controller_runtime\<close> (predicates, event handlers and cached reads), \<open>manager_pkg\<close>.
  Each has an interpretation on a plain implementation, and the witnesses run on it. Contracts
  between the program's own parts are locales as well: \<open>decider\<close> and \<open>scaler\<close> for the autoscaler,
  \<open>executor_contract\<close> for the backends, \<open>request_dispatcher\<close> for what the gateway needs of a dispatcher (interpreted by
  both dispatchers), \<open>gateway_env\<close> and \<open>observed_gateway\<close> for the gateway on top of it, \<open>counting_callbacks\<close>
  for what keeps the autoscaler's count right, \<open>sound_gateway\<close> and \<open>draining_gateway\<close> for gateways whose relays cannot panic and
  whose requests can all be answered (both interpreted by both gateways), \<open>trace_env\<close> for the experiment around a gateway whose
  channels are closed at the end, \<open>control_loop\<close> for the controller over its queue and dispatchers, \<open>kubelet_env\<close> for the node agent, \<open>once_counter\<close> for the two monitors.
  Concurrency is interleaving: goroutines are steps (\<open>ds_step\<close>, \<open>kn_step\<close>, \<open>as_step\<close>, \<open>pool_step\<close>,
  \<open>gw_step\<close>, \<open>kl_step\<close>, \<open>send\<close>, \<open>tm_step\<close>, \<open>trial_step\<close>, \<open>ct_step\<close>, \<open>loop_step\<close>) whose granularity is one critical section or channel operation.

  \<^bold>\<open>What is shown.\<close>
  \<^item> Requests: in every run of the gateway each submitted request is in the system or answered exactly
    once, and the decider's concurrency is the number of requests between the relay and the client;
    the client's workers send on the channels the relays read, with unique identifiers, never early, and all
    of their trace. No interleaving makes a relay of a started gateway panic, and from every state a
    bounded number of steps answers all requests submitted so far.
  \<^item> Trace experiment: it starts exactly when its inputs are in order. When \<open>main\<close> returns, the output file has a line
    for each response and their totals, and the requests sent are those answered there and those the gateway still held.
    After an orderly end of sending no process panics; after the closing \<open>main\<close> returns; a signal while
    the client is sending makes a sender panic on a closed channel.
  \<^item> Dispatching: no endpoint loses its token, a pod added once runs one request at a time, dead tokens are
    discarded; a pod re-added under the same key can run
    two requests. At most 50 requests share a gRPC connection; \<open>Close\<close> of its pool does not return.
  \<^item> Control loop: in every interleaving of cluster changes, delayed events, up to 256 reconciles and dispatching, a deployment with
    nothing outstanding has exactly the endpoints of its ready pods, each with a token; when the cluster
    stops changing the loop stops, with every deployment in this state; the steps of a worker refine
    \<open>Reconcile\<close>; a deleted deployment keeps its endpoints.
  \<^item> Scaling: decisions lie within the rate bounds, do not fall in panic mode, leave zero when requests
    wait; a successful round brings the deployment to the decision; a report is the time-weighted mean.
  \<^item> Traces: translation is a per-minute prefix sum and fails exactly on a count mismatch; loading fails exactly on
    an invalid configuration.
  \<^item> Node agent: a ready status is written only after the delay and only for an active unready pod of this
    agent; no pod is lost; pods bound over RPC are accepted once in the current epoch and exposed once; it
    serves only after its published address was accepted, which is the address that the kubelet breakdown dials.
  \<^item> Microbenchmarks: from the command line on, each breakdown either stops before its first request or runs without a
    panic to an exact report; the kubelet breakdown binds all its pods at the node agent and waits for exactly
    these, and its latency is the 90th percentile; the end-to-end experiment counts ready pods, reports when
    the expected number is reached, and panics on one more.

  \<^bold>\<open>Bounds.\<close> Runs are finite lists of events, of any length where nothing else is said. Floating-point counters are
  exact up to \<open>2 ^ 53\<close> events, which bounds the runs of \<open>autoscaler_sees_outstanding\<close>; a worker's sender count is exact up
  to \<open>2 ^ 50\<close> invocations; wait groups are 32 bits wide, hence fewer than \<open>2 ^ 31\<close> pods or
  targets. There is no fuel: every function is total, and a loop that can wait for ever is a step relation or takes
  the list of what its successive attempts see.

  \<^bold>\<open>Not modelled.\<close> Generated protocol buffer code; the gRPC runtime, sockets, the file system, the API server and the informers, of which
  \<open>Controller\<close> has only the cache contents and one event per change, delivered later and in any order; the length of pauses: a pause is passed at any time, and a property that needs one to be long enough
  has a hypothesis that says so (\<open>relays_return_in_time\<close>); a second signal, which ends a program at once; the git submodules
  \<open>kubernetes\<close> and \<open>invitro\<close>, which are empty here; scripts, manifests and plots. Log lines are left
  out, except for the relay's and the reports that the experiments print.
\<close>

end
